(* ===== verification/MyCub_Prelude.thy ===== *)
theory MyCub_Prelude
  imports Main "HOL-Library.Word" "HOL-Library.Signed_Division"
begin

text \<open>
  Shared vocabulary of the myCub development: the C integer types of the two targets, the part
  of the C string library the firmware and the Raspberry Pi programs call (\<open>atoi\<close>, \<open>strtok\<close>,
  the \<open>%d\<close> conversion of \<open>printf\<close>, \<open>strstr\<close>, \<open>strchr\<close>), the counting semaphore of NuttX the
  drivers use, and the generic lemmas on lists, decimal numerals and words the component
  theories rest on.

  A C string is a list of characters without its terminating NUL.  An \<open>int\<close> of the C code is an
  Isabelle \<open>int\<close> kept in the 32-bit range by \<open>wrap32\<close> where the code can leave it; unsigned
  types whose wrap-around matters are words.
\<close>

unbundle bit_operations_syntax

type_synonym u8 = "8 word"
type_synonym u16 = "16 word"
type_synonym u32 = "32 word"

named_theorems c_string_simps
named_theorems driver_defs

subsection \<open>C integers\<close>

text \<open>Conversion of an integer to a two's-complement 32-bit \<open>int\<close>.\<close>

definition wrap32 :: "int \<Rightarrow> int" where
  "wrap32 n = (n + 2 ^ 31) mod 2 ^ 32 - 2 ^ 31"

definition int32 :: "int \<Rightarrow> bool" where
  "int32 n \<longleftrightarrow> - (2 ^ 31) \<le> n \<and> n < 2 ^ 31"

text \<open>The conversion of an \<open>int\<close> argument to an \<open>unsigned int\<close> parameter.\<close>

definition unsigned32 :: "int \<Rightarrow> nat" where
  "unsigned32 n = nat (n mod 2 ^ 32)"

text \<open>The NuttX error numbers the drivers return (include/errno.h).\<close>

definition EINTR :: int where "EINTR = 4"
definition ENOMEM :: int where "ENOMEM = 12"
definition ENODEV :: int where "ENODEV = 19"
definition EMFILE :: int where "EMFILE = 24"
definition ENOTTY :: int where "ENOTTY = 25"
definition ERANGE :: int where "ERANGE = 34"
definition ENOSYS :: int where "ENOSYS = 38"
definition ETIMEDOUT :: int where "ETIMEDOUT = 110"

lemmas errno_defs = EINTR_def ENOMEM_def ENODEV_def EMFILE_def ENOTTY_def ERANGE_def
  ENOSYS_def ETIMEDOUT_def

subsection \<open>Characters and decimal numerals\<close>

definition is_digit :: "char \<Rightarrow> bool" where
  "is_digit c \<longleftrightarrow> 48 \<le> (of_char c :: nat) \<and> (of_char c :: nat) \<le> 57"

definition digit_val :: "char \<Rightarrow> nat" where
  "digit_val c = of_char c - 48"

definition digit_char :: "nat \<Rightarrow> char" where
  "digit_char d = char_of (48 + d)"

text \<open>\<open>isspace\<close>: blank, tab, newline, vertical tab, form feed, carriage return.\<close>

definition is_space :: "char \<Rightarrow> bool" where
  "is_space c \<longleftrightarrow> (of_char c :: nat) = 32 \<or> (9 \<le> (of_char c :: nat) \<and> (of_char c :: nat) \<le> 13)"

fun show_nat :: "nat \<Rightarrow> string" where
  "show_nat n = (if n < 10 then [digit_char n] else show_nat (n div 10) @ [digit_char (n mod 10)])"

text \<open>The \<open>%d\<close> conversion.\<close>

definition show_int :: "int \<Rightarrow> string" where
  "show_int n = (if n < 0 then CHR ''-'' # show_nat (nat (- n)) else show_nat (nat n))"

fun scan_digits :: "nat \<Rightarrow> string \<Rightarrow> nat" where
  "scan_digits acc [] = acc"
| "scan_digits acc (c # cs) = (if is_digit c then scan_digits (acc * 10 + digit_val c) cs else acc)"

text \<open>
  \<open>strtol(s, NULL, 10)\<close> before its conversion to \<open>long\<close>: blanks, one optional sign, blanks
  again (NuttX calls \<open>strtoul\<close>, which skips them a second time), decimal digits up to the first
  other character.
\<close>

fun strtol10 :: "string \<Rightarrow> int" where
  "strtol10 s =
     (case dropWhile is_space s of
        [] \<Rightarrow> 0
      | c # cs \<Rightarrow>
          (if c = CHR ''-'' then - int (scan_digits 0 (dropWhile is_space cs))
           else if c = CHR ''+'' then int (scan_digits 0 (dropWhile is_space cs))
           else int (scan_digits 0 (c # cs))))"

text \<open>NuttX defines \<open>atoi(p)\<close> as \<open>strtol(p, NULL, 10)\<close>, whose accumulator wraps.\<close>

definition atoi :: "string \<Rightarrow> int" where
  "atoi s = wrap32 (strtol10 s)"

subsection \<open>Substrings\<close>

text \<open>\<open>strstr\<close>: the suffix of the haystack that starts at the first match.\<close>

fun strstr :: "string \<Rightarrow> string \<Rightarrow> string option" where
  "strstr hay needle =
     (if take (length needle) hay = needle then Some hay
      else (case hay of [] \<Rightarrow> None | c # cs \<Rightarrow> strstr cs needle))"

text \<open>\<open>strtok(s, " ")\<close> called until it returns NULL: the maximal runs of non-blanks.\<close>

function strtok_all :: "string \<Rightarrow> string list" where
  "strtok_all s =
     (case dropWhile (\<lambda>c. c = CHR '' '') s of
        [] \<Rightarrow> []
      | c # cs \<Rightarrow> (c # takeWhile (\<lambda>c. c \<noteq> CHR '' '') cs)
                  # strtok_all (dropWhile (\<lambda>c. c \<noteq> CHR '' '') cs))"
  by pat_completeness auto
termination
proof (relation "measure length")
  fix s c and cs :: string
  assume "dropWhile (\<lambda>c. c = CHR '' '') s = c # cs"
  then have "length (c # cs) \<le> length s"
    by (metis length_dropWhile_le)
  moreover have "length (dropWhile (\<lambda>c. c \<noteq> CHR '' '') cs) \<le> length cs"
    by (rule length_dropWhile_le)
  ultimately show "(dropWhile (\<lambda>c. c \<noteq> CHR '' '') cs, s) \<in> measure length"
    by simp
qed simp

declare show_nat.simps [simp del] strtol10.simps [simp del] strstr.simps [simp del]
  strtok_all.simps [simp del]

subsection \<open>The NuttX semaphore\<close>

text \<open>
  \<open>sem_wait\<close> (sched/sem_wait.c): a positive count is taken; with a zero count the caller blocks,
  and a signal that arrives meanwhile (\<open>intr\<close>) makes the call fail with \<open>EINTR\<close>.
\<close>

datatype sem_result = SemTaken nat | SemError int | SemBlocked

definition sem_wait :: "bool \<Rightarrow> nat \<Rightarrow> sem_result" where
  "sem_wait intr n = (if 0 < n then SemTaken (n - 1) else if intr then SemError EINTR else SemBlocked)"

definition sem_post :: "nat \<Rightarrow> nat" where
  "sem_post n = n + 1"

subsection \<open>Lemmas: integers\<close>

lemma wrap32_id [simp]: "int32 n \<Longrightarrow> wrap32 n = n"
  by (simp add: int32_def wrap32_def)

lemma int32_wrap32: "int32 (wrap32 n)"
proof -
  have "0 \<le> (n + 2 ^ 31) mod 2 ^ 32" and "(n + 2 ^ 31) mod 2 ^ 32 < (2 ^ 32 :: int)"
    by simp_all
  then show ?thesis by (simp add: int32_def wrap32_def)
qed

lemma int32_atoi: "int32 (atoi s)"
  by (simp add: atoi_def int32_wrap32)

lemma unsigned32_nonneg: "int32 n \<Longrightarrow> 0 \<le> n \<Longrightarrow> unsigned32 n = nat n"
  by (simp add: int32_def unsigned32_def)

lemma unsigned32_neg: "int32 n \<Longrightarrow> n < 0 \<Longrightarrow> 2 ^ 31 \<le> unsigned32 n"
proof -
  assume "int32 n" and "n < 0"
  then have "n mod 2 ^ 32 = n + 2 ^ 32"
    using mod_pos_pos_trivial [of "n + 2 ^ 32" "2 ^ 32"] by (simp add: int32_def)
  then show ?thesis using \<open>int32 n\<close> by (simp add: unsigned32_def int32_def le_nat_iff)
qed

subsection \<open>Lemmas: decimal numerals\<close>

lemma digit_char_simps [simp]:
  "digit_char 0 = CHR ''0''" "digit_char (Suc 0) = CHR ''1''" "digit_char 2 = CHR ''2''" "digit_char 3 = CHR ''3''"
  "digit_char 4 = CHR ''4''" "digit_char 5 = CHR ''5''" "digit_char 6 = CHR ''6''" "digit_char 7 = CHR ''7''"
  "digit_char 8 = CHR ''8''" "digit_char 9 = CHR ''9''"
  by (simp_all add: digit_char_def char_of_def bit_0 bit_iff_odd)

lemma is_digit_digit_char [simp]: "d < 10 \<Longrightarrow> is_digit (digit_char d)"
  by (simp add: is_digit_def digit_char_def)

lemma digit_val_digit_char [simp]: "d < 10 \<Longrightarrow> digit_val (digit_char d) = d"
  by (simp add: digit_val_def digit_char_def)

lemma show_nat_neq_Nil [simp]: "show_nat n \<noteq> []"
  by (subst show_nat.simps) simp

lemma show_nat_digits: "c \<in> set (show_nat n) \<Longrightarrow> is_digit c"
proof (induction n rule: show_nat.induct)
  case (1 n)
  then show ?case
    by (cases "n < 10") (auto simp: show_nat.simps [of n])
qed

lemma scan_digits_append:
  "(\<And>c. c \<in> set xs \<Longrightarrow> is_digit c) \<Longrightarrow> scan_digits acc (xs @ r) = scan_digits (scan_digits acc xs) r"
  by (induction xs arbitrary: acc) auto

lemma scan_digits_stop: "r = [] \<or> \<not> is_digit (hd r) \<Longrightarrow> scan_digits acc r = acc"
  by (cases r) auto

lemma scan_digits_show_nat: "scan_digits 0 (show_nat n) = n"
proof (induction n rule: show_nat.induct)
  case (1 n)
  show ?case
  proof (cases "n < 10")
    case True
    then show ?thesis by (simp add: show_nat.simps [of n])
  next
    case False
    have "scan_digits 0 (show_nat (n div 10) @ [digit_char (n mod 10)])
          = scan_digits (scan_digits 0 (show_nat (n div 10))) [digit_char (n mod 10)]"
      by (rule scan_digits_append) (rule show_nat_digits)
    also have "\<dots> = n"
      using "1.IH" [OF False] by simp
    finally show ?thesis using False by (simp add: show_nat.simps [of n])
  qed
qed

lemma scan_digits_show_nat_append:
  assumes "r = [] \<or> \<not> is_digit (hd r)"
  shows "scan_digits 0 (show_nat n @ r) = n"
  using assms
  by (simp add: scan_digits_append [OF show_nat_digits] scan_digits_show_nat scan_digits_stop)

lemma digit_not_space: "is_digit c \<Longrightarrow> \<not> is_space c"
  by (auto simp: is_digit_def is_space_def)

lemma minus_not_space [simp]: "\<not> is_space CHR ''-''"
  by (simp add: is_space_def)

lemma digit_not_sign: "is_digit c \<Longrightarrow> c \<noteq> CHR ''-'' \<and> c \<noteq> CHR ''+''"
  by (auto simp: is_digit_def)

lemma hd_show_nat_digit: "is_digit (hd (show_nat n))"
  by (rule show_nat_digits [of _ n]) simp

lemma dropWhile_space_show_nat: "dropWhile is_space (show_nat n @ r) = show_nat n @ r"
  using hd_show_nat_digit [of n] digit_not_space
  by (cases "show_nat n") auto

lemma strtol10_show_int:
  assumes "r = [] \<or> \<not> is_digit (hd r)"
  shows "strtol10 (show_int n @ r) = n"
proof (cases "n < 0")
  case True
  then show ?thesis
    using assms
    by (simp add: show_int_def strtol10.simps dropWhile_space_show_nat scan_digits_show_nat_append)
next
  case False
  obtain c cs where sh: "show_nat (nat n) = c # cs"
    by (cases "show_nat (nat n)") auto
  have sp: "dropWhile is_space (show_nat (nat n) @ r) = show_nat (nat n) @ r"
    by (rule dropWhile_space_show_nat)
  have "c \<noteq> CHR ''-'' \<and> c \<noteq> CHR ''+''"
    using hd_show_nat_digit [of "nat n"] sh digit_not_sign by simp
  then have "strtol10 (show_nat (nat n) @ r) = int (scan_digits 0 (show_nat (nat n) @ r))"
    using sp sh by (simp add: strtol10.simps)
  then show ?thesis
    using False scan_digits_show_nat_append [OF assms] by (simp add: show_int_def)
qed

lemma atoi_show_int:
  "int32 n \<Longrightarrow> r = [] \<or> \<not> is_digit (hd r) \<Longrightarrow> atoi (show_int n @ r) = n"
  by (simp add: atoi_def strtol10_show_int)

lemma atoi_show_int_Nil [simp]: "int32 n \<Longrightarrow> atoi (show_int n) = n"
  using atoi_show_int [of n "[]"] by simp

lemma show_int_chars: "c \<in> set (show_int n) \<Longrightarrow> c = CHR ''-'' \<or> is_digit c"
  by (auto simp: show_int_def dest: show_nat_digits split: if_splits)

lemma show_int_neq_Nil [simp]: "show_int n \<noteq> []"
  by (simp add: show_int_def)

lemma space_not_digit [simp]: "\<not> is_digit CHR '' ''"
  by (simp add: is_digit_def)

lemma show_int_no_blank: "CHR '' '' \<notin> set (show_int n)"
  by (auto dest: show_int_chars)

lemma length_show_nat: "n < 10 ^ k \<Longrightarrow> 0 < k \<Longrightarrow> length (show_nat n) \<le> k"
proof (induction k arbitrary: n)
  case 0
  then show ?case by simp
next
  case (Suc k)
  show ?case
  proof (cases "n < 10")
    case True
    then show ?thesis by (simp add: show_nat.simps [of n])
  next
    case False
    then have "0 < k" using Suc.prems by (cases k) auto
    moreover have "n div 10 < 10 ^ k"
      using Suc.prems(1) by (simp add: less_mult_imp_div_less mult.commute)
    ultimately have "length (show_nat (n div 10)) \<le> k"
      using Suc.IH by blast
    then show ?thesis using False by (simp add: show_nat.simps [of n])
  qed
qed

lemma length_show_int: "int32 n \<Longrightarrow> length (show_int n) \<le> 11"
  using length_show_nat [of "nat n" 10] length_show_nat [of "nat (- n)" 10]
  by (cases "n < 0") (simp_all add: show_int_def int32_def nat_less_iff)

subsection \<open>Lemmas: tokens\<close>

lemma strtok_all_Nil [simp]: "strtok_all [] = []"
  by (simp add: strtok_all.simps)

lemma strtok_all_blank [simp]: "strtok_all (CHR '' '' # s) = strtok_all s"
  by (subst (1 2) strtok_all.simps) simp

lemma strtok_all_word:
  assumes "w \<noteq> []" and "CHR '' '' \<notin> set w" and "s = [] \<or> hd s = CHR '' ''"
  shows "strtok_all (w @ s) = w # strtok_all s"
proof -
  obtain c cs where w: "w = c # cs" using assms(1) by (cases w) auto
  have c: "c \<noteq> CHR '' ''" and cs: "\<forall>x\<in>set cs. x \<noteq> CHR '' ''"
    using assms(2) w by auto
  have "takeWhile (\<lambda>c. c \<noteq> CHR '' '') (cs @ s) = cs"
    using cs assms(3) by (cases s) (auto simp: takeWhile_append2)
  moreover have "dropWhile (\<lambda>c. c \<noteq> CHR '' '') (cs @ s) = s"
    using cs assms(3) by (cases s) (auto simp: dropWhile_append2)
  ultimately show ?thesis
    using c by (simp add: w strtok_all.simps [of "c # cs @ s"])
qed

lemma strtok_all_single: "w \<noteq> [] \<Longrightarrow> CHR '' '' \<notin> set w \<Longrightarrow> strtok_all w = [w]"
  using strtok_all_word [of w "[]"] by simp

lemma strtok_all_tokens: "w \<in> set (strtok_all s) \<Longrightarrow> w \<noteq> [] \<and> CHR '' '' \<notin> set w"
proof (induction s rule: strtok_all.induct)
  case (1 s)
  then show ?case
  proof (cases "dropWhile (\<lambda>c. c = CHR '' '') s")
    case Nil
    then have "strtok_all s = []" by (subst strtok_all.simps) (simp only: list.case)
    then show ?thesis using "1.prems" by simp
  next
    case (Cons c cs)
    have "c \<noteq> CHR '' ''"
      using hd_dropWhile [of "\<lambda>c. c = CHR '' ''" s] Cons by auto
    then show ?thesis
      using "1.prems" "1.IH" [OF Cons] Cons
      by (auto simp: strtok_all.simps [of s] dest: set_takeWhileD)
  qed
qed

subsection \<open>Lemmas: the semaphore\<close>

lemma sem_wait_one [simp]: "sem_wait intr (Suc n) = SemTaken n"
  by (simp add: sem_wait_def)

lemma sem_post_zero [simp]: "sem_post 0 = 1"
  by (simp add: sem_post_def)

lemma strtok_all_chars: "w \<in> set (strtok_all s) \<Longrightarrow> set w \<subseteq> set s"
proof (induction s rule: strtok_all.induct)
  case (1 s)
  show ?case
  proof (cases "dropWhile (\<lambda>c. c = CHR '' '') s")
    case Nil
    then have "strtok_all s = []"
      by (subst strtok_all.simps) (simp only: list.case)
    then show ?thesis
      using 1(2) by simp
  next
    case (Cons c cs)
    have sub: "set (c # cs) \<subseteq> set s"
      using set_dropWhileD [of _ "\<lambda>c. c = CHR '' ''" s] Cons by (metis subsetI)
    have "w \<in> set ((c # takeWhile (\<lambda>c. c \<noteq> CHR '' '') cs) # strtok_all (dropWhile (\<lambda>c. c \<noteq> CHR '' '') cs))"
      using 1(2) Cons by (subst (asm) strtok_all.simps) (simp only: list.case)
    then consider "w = c # takeWhile (\<lambda>c. c \<noteq> CHR '' '') cs"
      | "w \<in> set (strtok_all (dropWhile (\<lambda>c. c \<noteq> CHR '' '') cs))"
      by auto
    then show ?thesis
    proof cases
      case 1
      then show ?thesis
        using sub by (auto dest: set_takeWhileD)
    next
      case 2
      then show ?thesis
        using "1.IH" [OF Cons 2] sub by (auto dest: set_dropWhileD)
    qed
  qed
qed

subsection \<open>Lemmas: bits of words\<close>

lemma set_bit_word_alt: "bit (w OR push_bit n 1 :: 'a::len word) k \<longleftrightarrow> bit w k \<or> (k = n \<and> n < LENGTH('a))"
  by (auto simp: bit_simps)

lemma clear_bit_word_alt: "bit (w AND NOT (push_bit n 1) :: 'a::len word) k \<longleftrightarrow> bit w k \<and> k \<noteq> n"
  by (auto simp: bit_simps dest: bit_imp_le_length)

end
