(* ===== verification/Lm4f_Board.thy ===== *)
theory Lm4f_Board
  imports MyCub_Prelude
begin

text \<open>
  The LM4F120 board as the firmware drivers see it: memory-mapped registers, the interrupt mask
  and the scheduler lock, and the routines of the peripheral driver library
  (\<^verbatim>\<open>configs/lm4f120-launchpad/src/board_driver/{timer,gpio,sysctl}.c\<close>) that the drivers call.  The
  library's \<^verbatim>\<open>ASSERT\<close>s are compiled out in the firmware configuration and are not modelled.
\<close>

unbundle bit_operations_syntax

section \<open>Registers\<close>

type_synonym mmio = "u32 \<Rightarrow> u32"

definition HWREG_write :: "u32 \<Rightarrow> u32 \<Rightarrow> mmio \<Rightarrow> mmio" where
  "HWREG_write a v m = m(a := v)"

definition HWREG_or :: "u32 \<Rightarrow> u32 \<Rightarrow> mmio \<Rightarrow> mmio" where
  "HWREG_or a v m = m(a := m a OR v)"

definition HWREG_and :: "u32 \<Rightarrow> u32 \<Rightarrow> mmio \<Rightarrow> mmio" where
  "HWREG_and a v m = m(a := m a AND v)"

lemmas HWREG_defs = HWREG_write_def HWREG_or_def HWREG_and_def

section \<open>System control\<close>

abbreviation (input) SYSCTL_RCGCBASE :: u32 where "SYSCTL_RCGCBASE \<equiv> 0x400fe600"
abbreviation (input) SYSCTL_GPIOHBCTL :: u32 where "SYSCTL_GPIOHBCTL \<equiv> 0x400FE06C"

text \<open>The array \<^verbatim>\<open>g_pulRCGCRegs\<close>: the three run mode clock gating registers.\<close>

definition g_pulRCGCRegs :: "u32 list" where
  "g_pulRCGCRegs = [0x400FE100, 0x400FE104, 0x400FE108]"

definition SYSCTL_PERIPH_INDEX :: "u32 \<Rightarrow> u32" where
  "SYSCTL_PERIPH_INDEX a = drop_bit 28 a AND 0xf"

definition SYSCTL_PERIPH_MASK :: "u32 \<Rightarrow> u32" where
  "SYSCTL_PERIPH_MASK a = push_bit (unat (drop_bit 16 (a AND 0x001f0000))) (a AND 0xffff)"

text \<open>
  A write of 1 through the bit-band alias \<^verbatim>\<open>HWREGBITW(x, b)\<close> sets bit \<^verbatim>\<open>b\<close> of the word at \<^verbatim>\<open>x\<close>.
\<close>

definition SysCtlPeripheralEnable :: "u32 \<Rightarrow> mmio \<Rightarrow> mmio" where
  "SysCtlPeripheralEnable ulPeripheral m =
    (if ulPeripheral AND 0xf0000000 = 0xf0000000
     then HWREG_or (SYSCTL_RCGCBASE + drop_bit 8 (ulPeripheral AND 0xff00))
            (push_bit (unat (ulPeripheral AND 0xff)) 1) m
     else HWREG_or (g_pulRCGCRegs ! unat (SYSCTL_PERIPH_INDEX ulPeripheral))
            (SYSCTL_PERIPH_MASK ulPeripheral) m)"

definition SysCtlPeripheralDisable :: "u32 \<Rightarrow> mmio \<Rightarrow> mmio" where
  "SysCtlPeripheralDisable ulPeripheral m =
    (if ulPeripheral AND 0xf0000000 = 0xf0000000
     then HWREG_and (SYSCTL_RCGCBASE + drop_bit 8 (ulPeripheral AND 0xff00))
            (NOT (push_bit (unat (ulPeripheral AND 0xff)) 1)) m
     else HWREG_and (g_pulRCGCRegs ! unat (SYSCTL_PERIPH_INDEX ulPeripheral))
            (NOT (SYSCTL_PERIPH_MASK ulPeripheral)) m)"

lemmas sysctl_defs = SysCtlPeripheralEnable_def SysCtlPeripheralDisable_def SYSCTL_PERIPH_INDEX_def
  SYSCTL_PERIPH_MASK_def g_pulRCGCRegs_def

section \<open>Timers\<close>

abbreviation (input) TIMER_O_CFG :: u32 where "TIMER_O_CFG \<equiv> 0x00"
abbreviation (input) TIMER_O_TAMR :: u32 where "TIMER_O_TAMR \<equiv> 0x04"
abbreviation (input) TIMER_O_TBMR :: u32 where "TIMER_O_TBMR \<equiv> 0x08"
abbreviation (input) TIMER_O_CTL :: u32 where "TIMER_O_CTL \<equiv> 0x0C"
abbreviation (input) TIMER_O_TAILR :: u32 where "TIMER_O_TAILR \<equiv> 0x28"
abbreviation (input) TIMER_O_TBILR :: u32 where "TIMER_O_TBILR \<equiv> 0x2C"
abbreviation (input) TIMER_O_TAMATCHR :: u32 where "TIMER_O_TAMATCHR \<equiv> 0x30"
abbreviation (input) TIMER_O_TBMATCHR :: u32 where "TIMER_O_TBMATCHR \<equiv> 0x34"
abbreviation (input) TIMER_O_TAPR :: u32 where "TIMER_O_TAPR \<equiv> 0x38"
abbreviation (input) TIMER_O_TBPR :: u32 where "TIMER_O_TBPR \<equiv> 0x3C"
abbreviation (input) TIMER_O_TAPMR :: u32 where "TIMER_O_TAPMR \<equiv> 0x40"
abbreviation (input) TIMER_O_TBPMR :: u32 where "TIMER_O_TBPMR \<equiv> 0x44"

abbreviation (input) TIMER_CTL_TAEN :: u32 where "TIMER_CTL_TAEN \<equiv> 0x001"
abbreviation (input) TIMER_CTL_TBEN :: u32 where "TIMER_CTL_TBEN \<equiv> 0x100"
abbreviation (input) TIMER_CTL_TAPWML :: u32 where "TIMER_CTL_TAPWML \<equiv> 0x040"

abbreviation (input) TIMER_A :: u32 where "TIMER_A \<equiv> 0x00ff"
abbreviation (input) TIMER_B :: u32 where "TIMER_B \<equiv> 0xff00"

abbreviation (input) TIMER_CFG_SPLIT_PAIR :: u32 where "TIMER_CFG_SPLIT_PAIR \<equiv> 0x04000000"
abbreviation (input) TIMER_CFG_A_PWM :: u32 where "TIMER_CFG_A_PWM \<equiv> 0x0000000A"
abbreviation (input) TIMER_CFG_PERIODIC_UP :: u32 where "TIMER_CFG_PERIODIC_UP \<equiv> 0x00000032"

definition TimerEnable :: "u32 \<Rightarrow> u32 \<Rightarrow> mmio \<Rightarrow> mmio" where
  "TimerEnable ulBase ulTimer =
    HWREG_or (ulBase + TIMER_O_CTL) (ulTimer AND (TIMER_CTL_TAEN OR TIMER_CTL_TBEN))"

definition TimerDisable :: "u32 \<Rightarrow> u32 \<Rightarrow> mmio \<Rightarrow> mmio" where
  "TimerDisable ulBase ulTimer =
    HWREG_and (ulBase + TIMER_O_CTL) (NOT (ulTimer AND (TIMER_CTL_TAEN OR TIMER_CTL_TBEN)))"

definition TimerConfigure :: "u32 \<Rightarrow> u32 \<Rightarrow> mmio \<Rightarrow> mmio" where
  "TimerConfigure ulBase ulConfig m0 =
    (let m1 = HWREG_and (ulBase + TIMER_O_CTL) (NOT (TIMER_CTL_TAEN OR TIMER_CTL_TBEN)) m0;
         m2 = HWREG_write (ulBase + TIMER_O_CFG) (drop_bit 24 ulConfig) m1;
         m3 = HWREG_write (ulBase + TIMER_O_TAMR) ((ulConfig AND 255) OR 0x200) m2
     in HWREG_write (ulBase + TIMER_O_TBMR) ((drop_bit 8 ulConfig AND 255) OR 0x200) m3)"

text \<open>The four setters write the register of each half that \<^verbatim>\<open>ulTimer\<close> selects.\<close>

definition timer_set_half :: "u32 \<Rightarrow> u32 \<Rightarrow> u32 \<Rightarrow> u32 \<Rightarrow> u32 \<Rightarrow> mmio \<Rightarrow> mmio" where
  "timer_set_half ulBase offA offB ulTimer ulValue m0 =
    (let m1 = (if ulTimer AND TIMER_A \<noteq> 0 then HWREG_write (ulBase + offA) ulValue m0 else m0)
     in if ulTimer AND TIMER_B \<noteq> 0 then HWREG_write (ulBase + offB) ulValue m1 else m1)"

definition TimerPrescaleSet :: "u32 \<Rightarrow> u32 \<Rightarrow> u32 \<Rightarrow> mmio \<Rightarrow> mmio" where
  "TimerPrescaleSet ulBase = timer_set_half ulBase TIMER_O_TAPR TIMER_O_TBPR"

definition TimerPrescaleMatchSet :: "u32 \<Rightarrow> u32 \<Rightarrow> u32 \<Rightarrow> mmio \<Rightarrow> mmio" where
  "TimerPrescaleMatchSet ulBase = timer_set_half ulBase TIMER_O_TAPMR TIMER_O_TBPMR"

definition TimerLoadSet :: "u32 \<Rightarrow> u32 \<Rightarrow> u32 \<Rightarrow> mmio \<Rightarrow> mmio" where
  "TimerLoadSet ulBase = timer_set_half ulBase TIMER_O_TAILR TIMER_O_TBILR"

definition TimerMatchSet :: "u32 \<Rightarrow> u32 \<Rightarrow> u32 \<Rightarrow> mmio \<Rightarrow> mmio" where
  "TimerMatchSet ulBase = timer_set_half ulBase TIMER_O_TAMATCHR TIMER_O_TBMATCHR"

lemmas timer_defs = TimerEnable_def TimerDisable_def TimerConfigure_def timer_set_half_def
  TimerPrescaleSet_def TimerPrescaleMatchSet_def TimerLoadSet_def TimerMatchSet_def

section \<open>General purpose pins\<close>

abbreviation (input) GPIO_PORTA_BASE :: u32 where "GPIO_PORTA_BASE \<equiv> 0x40004000"
abbreviation (input) GPIO_PORTB_BASE :: u32 where "GPIO_PORTB_BASE \<equiv> 0x40005000"
abbreviation (input) GPIO_PORTD_BASE :: u32 where "GPIO_PORTD_BASE \<equiv> 0x40007000"
abbreviation (input) GPIO_PORTE_BASE :: u32 where "GPIO_PORTE_BASE \<equiv> 0x40024000"

abbreviation (input) GPIO_O_DIR :: u32 where "GPIO_O_DIR \<equiv> 0x400"
abbreviation (input) GPIO_O_AFSEL :: u32 where "GPIO_O_AFSEL \<equiv> 0x420"
abbreviation (input) GPIO_O_DR2R :: u32 where "GPIO_O_DR2R \<equiv> 0x500"
abbreviation (input) GPIO_O_DR4R :: u32 where "GPIO_O_DR4R \<equiv> 0x504"
abbreviation (input) GPIO_O_DR8R :: u32 where "GPIO_O_DR8R \<equiv> 0x508"
abbreviation (input) GPIO_O_ODR :: u32 where "GPIO_O_ODR \<equiv> 0x50C"
abbreviation (input) GPIO_O_PUR :: u32 where "GPIO_O_PUR \<equiv> 0x510"
abbreviation (input) GPIO_O_PDR :: u32 where "GPIO_O_PDR \<equiv> 0x514"
abbreviation (input) GPIO_O_SLR :: u32 where "GPIO_O_SLR \<equiv> 0x518"
abbreviation (input) GPIO_O_DEN :: u32 where "GPIO_O_DEN \<equiv> 0x51C"
abbreviation (input) GPIO_O_AMSEL :: u32 where "GPIO_O_AMSEL \<equiv> 0x528"
abbreviation (input) GPIO_O_PCTL :: u32 where "GPIO_O_PCTL \<equiv> 0x52C"

text \<open>
  \<^verbatim>\<open>HWREG(r) = c ? (HWREG(r) | pins) : (HWREG(r) & ~pins)\<close>, the update both configuration routines
  repeat for each register.
\<close>

definition gpio_pins_set :: "u32 \<Rightarrow> bool \<Rightarrow> u8 \<Rightarrow> mmio \<Rightarrow> mmio" where
  "gpio_pins_set r c ucPins m =
    (if c then HWREG_or r (ucast ucPins) m else HWREG_and r (NOT (ucast ucPins)) m)"

definition GPIODirModeSet :: "u32 \<Rightarrow> u8 \<Rightarrow> u32 \<Rightarrow> mmio \<Rightarrow> mmio" where
  "GPIODirModeSet ulPort ucPins ulPinIO m0 =
    (let m1 = gpio_pins_set (ulPort + GPIO_O_DIR) (ulPinIO AND 1 \<noteq> 0) ucPins m0
     in gpio_pins_set (ulPort + GPIO_O_AFSEL) (ulPinIO AND 2 \<noteq> 0) ucPins m1)"

definition GPIOPadConfigSet :: "u32 \<Rightarrow> u8 \<Rightarrow> u32 \<Rightarrow> u32 \<Rightarrow> mmio \<Rightarrow> mmio" where
  "GPIOPadConfigSet ulPort ucPins ulStrength ulPinType m0 =
    (let m1 = gpio_pins_set (ulPort + GPIO_O_DR2R) (ulStrength AND 1 \<noteq> 0) ucPins m0;
         m2 = gpio_pins_set (ulPort + GPIO_O_DR4R) (ulStrength AND 2 \<noteq> 0) ucPins m1;
         m3 = gpio_pins_set (ulPort + GPIO_O_DR8R) (ulStrength AND 4 \<noteq> 0) ucPins m2;
         m4 = gpio_pins_set (ulPort + GPIO_O_SLR) (ulStrength AND 8 \<noteq> 0) ucPins m3;
         m5 = gpio_pins_set (ulPort + GPIO_O_ODR) (ulPinType AND 1 \<noteq> 0) ucPins m4;
         m6 = gpio_pins_set (ulPort + GPIO_O_PUR) (ulPinType AND 2 \<noteq> 0) ucPins m5;
         m7 = gpio_pins_set (ulPort + GPIO_O_PDR) (ulPinType AND 4 \<noteq> 0) ucPins m6;
         m8 = gpio_pins_set (ulPort + GPIO_O_DEN) (ulPinType AND 8 \<noteq> 0) ucPins m7
     in gpio_pins_set (ulPort + GPIO_O_AMSEL) (ulPinType = 0) ucPins m8)"

definition GPIOPinTypeTimer :: "u32 \<Rightarrow> u8 \<Rightarrow> mmio \<Rightarrow> mmio" where
  "GPIOPinTypeTimer ulPort ucPins m =
    GPIOPadConfigSet ulPort ucPins 1 8 (GPIODirModeSet ulPort ucPins 2 m)"

definition GPIOPinTypeADC :: "u32 \<Rightarrow> u8 \<Rightarrow> mmio \<Rightarrow> mmio" where
  "GPIOPinTypeADC ulPort ucPins m =
    GPIOPadConfigSet ulPort ucPins 1 0 (GPIODirModeSet ulPort ucPins 0 m)"

definition GPIOPinTypeI2C :: "u32 \<Rightarrow> u8 \<Rightarrow> mmio \<Rightarrow> mmio" where
  "GPIOPinTypeI2C ulPort ucPins m =
    GPIOPadConfigSet ulPort ucPins 1 0xB (GPIODirModeSet ulPort ucPins 2 m)"

text \<open>The two bus addresses of each port; ports K to Q have one only.\<close>

definition g_pulGPIOBaseAddrs :: "u32 list" where
  "g_pulGPIOBaseAddrs =
    [0x40004000, 0x40058000, 0x40005000, 0x40059000, 0x40006000, 0x4005A000,
     0x40007000, 0x4005B000, 0x40024000, 0x4005C000, 0x40025000, 0x4005D000,
     0x40026000, 0x4005E000, 0x40027000, 0x4005F000, 0x4003D000, 0x40060000,
     0x40061000, 0x40061000, 0x40062000, 0x40062000, 0x40063000, 0x40063000,
     0x40064000, 0x40064000, 0x40065000, 0x40065000, 0x40066000, 0x40066000]"

definition GPIOPinConfigure :: "u32 \<Rightarrow> mmio \<Rightarrow> mmio" where
  "GPIOPinConfigure ulPinConfig m =
    (let port = drop_bit 16 ulPinConfig AND 0xff;
         ulBase = (if m SYSCTL_GPIOHBCTL AND push_bit (unat port) 1 \<noteq> 0
                   then g_pulGPIOBaseAddrs ! unat (push_bit 1 port + 1)
                   else g_pulGPIOBaseAddrs ! unat (push_bit 1 port));
         ulShift = unat (drop_bit 8 ulPinConfig AND 0xff)
     in HWREG_write (ulBase + GPIO_O_PCTL)
          ((m (ulBase + GPIO_O_PCTL) AND NOT (push_bit ulShift 0xf))
           OR push_bit ulShift (ulPinConfig AND 0xf)) m)"

lemmas gpio_defs = gpio_pins_set_def GPIODirModeSet_def GPIOPadConfigSet_def GPIOPinTypeTimer_def
  GPIOPinTypeADC_def GPIOPinTypeI2C_def GPIOPinConfigure_def

section \<open>The processor state the drivers touch\<close>

text \<open>
  \<^verbatim>\<open>irq_off\<close> is the interrupt mask that \<^verbatim>\<open>irqsave\<close> returns and sets and \<^verbatim>\<open>irqrestore\<close> puts back;
  \<^verbatim>\<open>lockcount\<close> is the counter of \<^verbatim>\<open>sched_lock\<close> and \<^verbatim>\<open>sched_unlock\<close>; \<^verbatim>\<open>gpio_calls\<close> is the history of
  the calls to the NuttX pin routines \<^verbatim>\<open>lm_configgpio\<close> and \<^verbatim>\<open>lm_gpiowrite\<close>.
\<close>

datatype gpio_call = ConfigGpio u32 | GpioWrite u32 bool

record board =
  regs :: mmio
  irq_off :: bool
  lockcount :: nat
  gpio_calls :: "gpio_call list"

definition irqsave :: "board \<Rightarrow> bool \<times> board" where
  "irqsave b = (irq_off b, b\<lparr>irq_off := True\<rparr>)"

definition irqrestore :: "bool \<Rightarrow> board \<Rightarrow> board" where
  "irqrestore flags b = b\<lparr>irq_off := flags\<rparr>"

definition sched_lock :: "board \<Rightarrow> board" where
  "sched_lock b = b\<lparr>lockcount := lockcount b + 1\<rparr>"

definition sched_unlock :: "board \<Rightarrow> board" where
  "sched_unlock b = b\<lparr>lockcount := lockcount b - 1\<rparr>"

lemmas cpu_defs = irqsave_def irqrestore_def sched_lock_def sched_unlock_def

text \<open>A board with cleared registers, for concrete runs.\<close>

definition board_reset :: board where
  "board_reset = \<lparr>regs = (\<lambda>_. 0), irq_off = False, lockcount = 0, gpio_calls = []\<rparr>"

end
