(* ===== verification/Char_Device.thy ===== *)
theory Char_Device
  imports MyCub_Prelude
begin

text \<open>
  The contract the three upper-half character drivers of the robot share
  (\<^verbatim>\<open>drivers/servo.c\<close>, \<^verbatim>\<open>drivers/sensors/range_srf04.c\<close>, \<^verbatim>\<open>drivers/analog/adc_lm4f.c\<close>): a reference
  count kept in a \<^verbatim>\<open>uint8_t\<close>, a binary semaphore around every operation, the lower half set up by
  the first open and shut down by the last close.  The contract is a locale over the two
  operations; the drivers' theories interpret it on their models of \<^verbatim>\<open>open\<close> and \<^verbatim>\<open>close\<close>.
\<close>

text \<open>
  What a driver call can do: return an \<^verbatim>\<open>int\<close> with the new state, block on a semaphore for ever,
  or call a function pointer the lower half left NULL.
\<close>

datatype 's outcome = Done int 's | Blocked | NullCall

datatype dev_op = DevOpen | DevClose

text \<open>A sequence of opens and closes; each call may find a signal pending (the flag).\<close>

fun run_dev :: "(bool \<Rightarrow> 's \<Rightarrow> 's outcome) \<Rightarrow> (bool \<Rightarrow> 's \<Rightarrow> 's outcome)
    \<Rightarrow> (dev_op \<times> bool) list \<Rightarrow> 's \<Rightarrow> 's option" where
  "run_dev op cl [] s = Some s"
| "run_dev op cl ((DevOpen, i) # ops) s =
    (case op i s of Done r s' \<Rightarrow> run_dev op cl ops s' | _ \<Rightarrow> None)"
| "run_dev op cl ((DevClose, i) # ops) s =
    (case cl i s of Done r s' \<Rightarrow> run_dev op cl ops s' | _ \<Rightarrow> None)"

text \<open>The abstract device: a saturating counter between 0 and 255.\<close>

fun count_dev :: "dev_op \<Rightarrow> nat \<Rightarrow> nat" where
  "count_dev DevOpen n = (if n < 255 then n + 1 else n)"
| "count_dev DevClose n = n - 1"

text \<open>The count of a run: \<^verbatim>\<open>count_dev\<close> folded over the operations.\<close>

definition count_run :: "(dev_op \<times> bool) list \<Rightarrow> nat \<Rightarrow> nat" where
  "count_run ops n = fold (\<lambda>p. count_dev (fst p)) ops n"

lemma count_run_simps [simp]:
  "count_run [] n = n"
  "count_run ((oper, i) # ops) n = count_run ops (count_dev oper n)"
  by (simp_all add: count_run_def)

lemma count_run_le: "n \<le> 255 \<Longrightarrow> count_run ops n \<le> 255"
proof (induction ops arbitrary: n)
  case (Cons a ops)
  then show ?case
    by (cases a; cases "fst a") (auto intro!: Cons.IH)
qed simp

lemma u8_eq_max: "(x :: u8) = 255 \<longleftrightarrow> unat x = 255"
  by (simp add: word_unat_eq_iff)

lemma unat_u8_succ: "(x :: u8) \<noteq> 255 \<Longrightarrow> unat (x + 1) = unat x + 1"
proof -
  assume "x \<noteq> 255"
  then have "unat x + 1 < 256"
    using unsigned_less [of x, where 'a = nat] by (simp add: u8_eq_max)
  then show ?thesis
    by (simp add: unat_word_ariths)
qed

lemma u8_succ_zero_iff: "(x :: u8) + 1 = 0 \<longleftrightarrow> x = 255"
proof -
  have "(255 :: u8) = - 1"
    by simp
  then show ?thesis
    by (simp only: add_eq_0_iff2)
qed

text \<open>
  \<^verbatim>\<open>crefs\<close> and \<^verbatim>\<open>sem\<close> read the driver's fields; \<^verbatim>\<open>idle\<close> says that the hardware of the lower half is
  stopped, \<^verbatim>\<open>ready\<close> that the lower half has been set up.
\<close>

locale refcounted =
  fixes op :: "bool \<Rightarrow> 's \<Rightarrow> 's outcome"
    and cl :: "bool \<Rightarrow> 's \<Rightarrow> 's outcome"
    and crefs :: "'s \<Rightarrow> u8"
    and sem :: "'s \<Rightarrow> nat"
    and idle :: "'s \<Rightarrow> bool"
    and ready :: "'s \<Rightarrow> bool"
  assumes open_full: "sem s = 1 \<Longrightarrow> crefs s = 255 \<Longrightarrow> op i s = Done (- EMFILE) s"
    and open_ok: "sem s = 1 \<Longrightarrow> crefs s \<noteq> 255 \<Longrightarrow>
      \<exists>s'. op i s = Done 0 s' \<and> crefs s' = crefs s + 1 \<and> sem s' = 1
        \<and> (ready s' \<longleftrightarrow> crefs s = 0 \<or> ready s)"
    and close_ok: "sem s = 1 \<Longrightarrow>
      \<exists>s'. cl i s = Done 0 s' \<and> sem s' = 1
        \<and> crefs s' = (if 1 < crefs s then crefs s - 1 else 0)
        \<and> (crefs s \<le> 1 \<longrightarrow> idle s')
        \<and> (1 < crefs s \<longrightarrow> (ready s' \<longleftrightarrow> ready s) \<and> (idle s' \<longleftrightarrow> idle s))"
begin

definition dev_inv :: "'s \<Rightarrow> bool" where
  "dev_inv s \<longleftrightarrow> sem s = 1 \<and> (crefs s = 0 \<longrightarrow> idle s) \<and> (crefs s \<noteq> 0 \<longrightarrow> ready s)"

lemma open_step:
  assumes "dev_inv s"
  shows "\<exists>r s'. op i s = Done r s' \<and> dev_inv s' \<and> unat (crefs s') = count_dev DevOpen (unat (crefs s))"
proof (cases "crefs s = 255")
  case True
  with assms open_full [of s i] show ?thesis
    by (auto simp: dev_inv_def)
next
  case False
  with assms open_ok [of s i] obtain s' where s': "op i s = Done 0 s'"
      "crefs s' = crefs s + 1" "sem s' = 1" "ready s' \<longleftrightarrow> crefs s = 0 \<or> ready s"
    by (auto simp: dev_inv_def)
  have un: "unat (crefs s') = unat (crefs s) + 1"
    using False s'(2) by (simp add: unat_u8_succ)
  have "unat (crefs s) < 255"
    using False unsigned_less [of "crefs s", where 'a = nat] by (simp add: u8_eq_max)
  moreover have "crefs s' \<noteq> 0"
    using un by (metis Suc_eq_plus1 nat.simps(3) unat_0)
  ultimately show ?thesis
    using s' un assms by (auto simp: dev_inv_def)
qed

lemma close_step:
  assumes "dev_inv s"
  shows "\<exists>r s'. cl i s = Done r s' \<and> dev_inv s' \<and> unat (crefs s') = count_dev DevClose (unat (crefs s))"
proof -
  from assms close_ok [of s i] obtain s' where s': "cl i s = Done 0 s'" "sem s' = 1"
      "crefs s' = (if 1 < crefs s then crefs s - 1 else 0)" "crefs s \<le> 1 \<longrightarrow> idle s'"
      "1 < crefs s \<longrightarrow> (ready s' \<longleftrightarrow> ready s) \<and> (idle s' \<longleftrightarrow> idle s)"
    by (auto simp: dev_inv_def)
  show ?thesis
  proof (cases "1 < crefs s")
    case True
    then have g: "1 < unat (crefs s)"
      by (simp add: word_less_nat_alt)
    have un: "unat (crefs s - 1) = unat (crefs s) - 1"
      using True by (intro unat_minus_one) auto
    then have "crefs s' \<noteq> 0"
      using g s'(3) True by (metis less_numeral_extra(3) unat_0 zero_less_diff)
    then show ?thesis
      using s' un True assms g by (auto simp: dev_inv_def)
  next
    case False
    then have "unat (crefs s) \<le> 1"
      by (simp add: word_less_nat_alt)
    then show ?thesis
      using s' False by (auto simp: dev_inv_def)
  qed
qed

text \<open>Every sequence of opens and closes runs to its end and counts like the abstract device.\<close>

lemma run_refines_counter:
  "dev_inv s \<Longrightarrow> \<exists>s'. run_dev op cl ops s = Some s' \<and> dev_inv s'
     \<and> unat (crefs s') = count_run ops (unat (crefs s))"
proof (induction ops arbitrary: s)
  case (Cons a ops)
  obtain k i where a: "a = (k, i)"
    by (cases a)
  show ?case
  proof (cases k)
    case DevOpen
    obtain r s' where "op i s = Done r s'" "dev_inv s'"
        "unat (crefs s') = count_dev DevOpen (unat (crefs s))"
      using open_step [OF Cons.prems] by blast
    then show ?thesis
      using Cons.IH [of s'] a DevOpen by auto
  next
    case DevClose
    obtain r s' where "cl i s = Done r s'" "dev_inv s'"
        "unat (crefs s') = count_dev DevClose (unat (crefs s))"
      using close_step [OF Cons.prems] by blast
    then show ?thesis
      using Cons.IH [of s'] a DevClose by auto
  qed
qed simp

lemma fresh_run:
  assumes "sem s = 1" "crefs s = 0" "idle s"
  shows "\<exists>s'. run_dev op cl ops s = Some s' \<and> unat (crefs s') = count_run ops 0 \<and> sem s' = 1
    \<and> (count_run ops 0 = 0 \<longrightarrow> idle s') \<and> (count_run ops 0 \<noteq> 0 \<longrightarrow> ready s')"
proof -
  have "dev_inv s" "unat (crefs s) = 0"
    using assms by (simp_all add: dev_inv_def)
  then obtain s' where s': "run_dev op cl ops s = Some s'" "dev_inv s'" "unat (crefs s') = count_run ops 0"
    using run_refines_counter [of s ops] by auto
  moreover have "crefs s' = 0 \<longleftrightarrow> count_run ops 0 = 0"
    using s'(3) unat_eq_zero [of "crefs s'"] by simp
  ultimately show ?thesis
    by (auto simp: dev_inv_def)
qed

end

end
