(* ===== verification/Range_Driver.thy ===== *)
theory Range_Driver
  imports Lm4f_Board Char_Device
begin

text \<open>
  The ultrasonic range finder driver: the lower half that times the echo pulse
  (\<^verbatim>\<open>configs/lm4f120-launchpad/src/up_range_srf04.c\<close>) and the upper half
  (\<^verbatim>\<open>drivers/sensors/range_srf04.c\<close>).  What the echo pin and timer 5 show while the driver polls them
  is an argument: the list of pin levels and the list of timer values, one entry per read.  A list
  that runs out stands for a poll that never ends.
\<close>

section \<open>The lower half\<close>

abbreviation (input) RANGE_MAX_COUNT :: nat where "RANGE_MAX_COUNT \<equiv> 4"
abbreviation (input) TIMER5_BASE :: u32 where "TIMER5_BASE \<equiv> 0x40035000"
abbreviation (input) GPIO_FUNC_INPUT :: u32 where "GPIO_FUNC_INPUT \<equiv> 0"
abbreviation (input) GPIO_FUNC_OUTPUT :: u32 where "GPIO_FUNC_OUTPUT \<equiv> 0x20000000"
abbreviation (input) GPIO_VALUE_ONE :: u32 where "GPIO_VALUE_ONE \<equiv> 0x80"

datatype RANGE_STATE = RANGE_STATE_INIT | RANGE_STATE_ENABLED

record range_t =
  trig_port :: u32
  trig_pin :: u8
  echo_port :: u32
  echo_pin :: u8
  range_value :: u16
  range_state :: RANGE_STATE

record range_info_s =
  ri_id :: u16
  ri_trig_port :: u32
  ri_trig_pin :: u8
  ri_echo_port :: u32
  ri_echo_pin :: u8

definition range_zero :: range_t where
  "range_zero = \<lparr>trig_port = 0, trig_pin = 0, echo_port = 0, echo_pin = 0, range_value = 0,
     range_state = RANGE_STATE_INIT\<rparr>"

type_synonym ranges = "range_t list"

definition up_range_setup :: "ranges \<times> board \<Rightarrow> int \<times> ranges \<times> board" where
  "up_range_setup = (\<lambda>(rs, b).
    (let m1 = SysCtlPeripheralEnable 0xf0000405 (regs b);
         m2 = TimerConfigure TIMER5_BASE TIMER_CFG_PERIODIC_UP m1;
         m3 = TimerEnable TIMER5_BASE TIMER_A m2
     in (0, replicate RANGE_MAX_COUNT range_zero, b\<lparr>regs := m3\<rparr>)))"

definition up_range_shutdown :: "ranges \<times> board \<Rightarrow> int \<times> ranges \<times> board" where
  "up_range_shutdown = (\<lambda>(rs, b). (0, rs, b\<lparr>regs := TimerDisable TIMER5_BASE TIMER_A (regs b)\<rparr>))"

definition up_range_attach :: "range_info_s \<Rightarrow> ranges \<times> board \<Rightarrow> int \<times> ranges \<times> board" where
  "up_range_attach info = (\<lambda>(rs, b).
    (if RANGE_MAX_COUNT \<le> unat (ri_id info) then (ERANGE, rs, b)
     else
       let i = unat (ri_id info);
           r = (rs ! i)\<lparr>trig_port := ri_trig_port info, trig_pin := ri_trig_pin info,
                 echo_port := ri_echo_port info, echo_pin := ri_echo_pin info,
                 range_state := RANGE_STATE_ENABLED\<rparr>;
           c1 = ConfigGpio (GPIO_FUNC_OUTPUT OR GPIO_VALUE_ONE OR trig_port r OR ucast (trig_pin r));
           c2 = ConfigGpio (GPIO_FUNC_INPUT OR GPIO_VALUE_ONE OR echo_port r OR ucast (echo_pin r))
       in (0, rs[i := r], b\<lparr>gpio_calls := gpio_calls b @ [c1, c2]\<rparr>)))"

definition up_range_detach :: "range_info_s \<Rightarrow> ranges \<times> board \<Rightarrow> int \<times> ranges \<times> board" where
  "up_range_detach info = (\<lambda>(rs, b).
    (if RANGE_MAX_COUNT \<le> unat (ri_id info) then (ERANGE, rs, b)
     else
       let i = unat (ri_id info)
       in (0, rs[i := (rs ! i)\<lparr>trig_port := 0, trig_pin := 0, echo_port := 0, echo_pin := 0,
                        range_state := RANGE_STATE_INIT\<rparr>], b)))"

subsection \<open>Timing the echo\<close>

text \<open>
  One polling loop: read the pin; leave when it no longer has the level \<^verbatim>\<open>lvl\<close>; otherwise read the
  timer and give up when more than 50,000,000 ticks (unsigned, wrapping) have passed since \<^verbatim>\<open>t\<close>.
  \<^verbatim>\<open>prev\<close> is the timer value read last, which only the third loop keeps (in \<^verbatim>\<open>t2\<close>).
\<close>

datatype poll = Changed "u32 option" "bool list" "u32 list" | TimedOut "bool list" "u32 list" | NeverEnds

fun poll_while :: "bool \<Rightarrow> u32 \<Rightarrow> u32 option \<Rightarrow> bool list \<Rightarrow> u32 list \<Rightarrow> poll" where
  "poll_while lvl t prev [] ts = NeverEnds"
| "poll_while lvl t prev (l # ls) ts =
    (if l \<noteq> lvl then Changed prev ls ts
     else (case ts of
        [] \<Rightarrow> NeverEnds
      | now # ts' \<Rightarrow>
          if 50000000 < now - t then TimedOut ls ts' else poll_while lvl t (Some now) ls ts'))"

text \<open>
  The result of \<^verbatim>\<open>pulse_in\<close>: a width, or the value computed from \<^verbatim>\<open>t2\<close> that was never assigned.
\<close>

datatype pulse = Width u32 | Uninit

definition pulse_in :: "bool list \<Rightarrow> u32 list \<Rightarrow> (pulse \<times> bool list \<times> u32 list) option" where
  "pulse_in ls0 ts0 =
    (case ts0 of [] \<Rightarrow> None | t # ts1 \<Rightarrow>
      (case poll_while True t None ls0 ts1 of
         NeverEnds \<Rightarrow> None
       | TimedOut ls ts \<Rightarrow> Some (Width 0, ls, ts)
       | Changed _ ls1 ts2 \<Rightarrow>
           (case ts2 of [] \<Rightarrow> None | t # ts3 \<Rightarrow>
             (case poll_while False t None ls1 ts3 of
                NeverEnds \<Rightarrow> None
              | TimedOut ls ts \<Rightarrow> Some (Width 0, ls, ts)
              | Changed _ ls2 ts4 \<Rightarrow>
                  (case poll_while True t None ls2 ts4 of
                     NeverEnds \<Rightarrow> None
                   | TimedOut ls ts \<Rightarrow> Some (Width 0, ls, ts)
                   | Changed None ls ts \<Rightarrow> Some (Uninit, ls, ts)
                   | Changed (Some t2) ls ts \<Rightarrow> Some (Width ((t2 - t) div 85), ls, ts))))))"

text \<open>
  \<^verbatim>\<open>(int)(width / 5.2466)\<close>, computed on the exact quotient.  10000 width / 52466 is an integer only
  for multiples of 26233, where it is at least 5000 and the driver prints 0; elsewhere it is at least
  1/26233 away from one, far more than the rounding error of the \<^verbatim>\<open>double\<close> division for the widths
  below 2^32 / 85 that occur.  So the printed number is the one computed here.
\<close>

definition range_dist :: "u32 \<Rightarrow> nat" where
  "range_dist width = unat width * 10000 div 52466"

definition range_shown :: "u32 \<Rightarrow> nat" where
  "range_shown width = (if range_dist width < 4000 then range_dist width else 0)"

definition range_entry :: "nat \<Rightarrow> nat \<Rightarrow> string" where
  "range_entry i dist = ''('' @ show_nat i @ '' '' @ show_nat dist @ '') ''"

text \<open>
  \<^verbatim>\<open>range_read\<close>.  \<^verbatim>\<open>strncpy\<close> is given the room left in the buffer; when the entry and its NUL do not
  fit, the buffer is left without a terminator and the \<^verbatim>\<open>strlen\<close> that follows runs past it
  (\<^verbatim>\<open>RangeOverrun\<close>).  A width computed from the unassigned \<^verbatim>\<open>t2\<close> is \<^verbatim>\<open>RangeUninit\<close>.
\<close>

datatype range_result = RangeText int string | RangeOverrun | RangeUninit | RangeHangs

definition range_trigger :: "range_t \<Rightarrow> board \<Rightarrow> board" where
  "range_trigger r b =
    (let cfg = GPIO_FUNC_OUTPUT OR GPIO_VALUE_ONE OR trig_port r OR ucast (trig_pin r)
     in b\<lparr>gpio_calls := gpio_calls b @ [GpioWrite cfg False, GpioWrite cfg True, GpioWrite cfg False]\<rparr>)"

fun up_range_loop :: "nat \<Rightarrow> (nat \<times> range_t) list \<Rightarrow> string \<Rightarrow> bool list \<Rightarrow> u32 list \<Rightarrow> board
    \<Rightarrow> range_result \<times> board" where
  "up_range_loop buflen [] buff ls ts b =
    (RangeText (if buff = [] then 0 else int (length buff) + 1) buff, sched_unlock b)"
| "up_range_loop buflen ((i, r) # rs) buff ls ts b =
    (if range_state r = RANGE_STATE_ENABLED then
       let b1 = range_trigger r b; (flags, b2) = irqsave b1
       in (case pulse_in ls ts of
             None \<Rightarrow> (RangeHangs, b2)
           | Some (Uninit, _, _) \<Rightarrow> (RangeUninit, b2)
           | Some (Width w, ls', ts') \<Rightarrow>
               let b3 = irqrestore flags b2; dummy = range_entry i (range_shown w)
               in if length buff + length dummy < buflen
                  then up_range_loop buflen rs (buff @ dummy) ls' ts' b3
                  else (RangeOverrun, b3))
     else up_range_loop buflen rs buff ls ts b)"

definition up_range_read :: "nat \<Rightarrow> bool list \<Rightarrow> u32 list \<Rightarrow> ranges \<times> board \<Rightarrow> range_result \<times> board" where
  "up_range_read buflen ls ts = (\<lambda>(rs, b).
    (if buflen = 0 then (RangeOverrun, b)
     else up_range_loop buflen (zip [0..<RANGE_MAX_COUNT] rs) [] ls ts (sched_lock b)))"

section \<open>The upper half\<close>

record range_upperhalf_s =
  range_crefs :: u8
  range_started :: bool
  range_exclsem :: nat
  range_info :: range_info_s

type_synonym range_dev = "range_upperhalf_s \<times> ranges \<times> board"

abbreviation (input) RANGEIOC_ATTACHE :: int where "RANGEIOC_ATTACHE \<equiv> 0x1401"
abbreviation (input) RANGEIOC_DETACH :: int where "RANGEIOC_DETACH \<equiv> 0x1402"

definition range_open :: "bool \<Rightarrow> range_dev \<Rightarrow> range_dev outcome" where
  "range_open intr = (\<lambda>(upper, l).
    (case sem_wait intr (range_exclsem upper) of
       SemBlocked \<Rightarrow> Blocked
     | SemError e \<Rightarrow> Done (- e) (upper, l)
     | SemTaken n \<Rightarrow>
         (let upper = upper\<lparr>range_exclsem := n\<rparr>;
              post = (\<lambda>u. u\<lparr>range_exclsem := sem_post (range_exclsem u)\<rparr>);
              tmp = range_crefs upper + 1
          in if tmp = 0 then Done (- EMFILE) (post upper, l)
             else
               let (ret, l') = (if tmp = 1 then up_range_setup l else (0, l))
               in if ret < 0 then Done ret (post upper, l')
                  else Done 0 (post (upper\<lparr>range_crefs := tmp\<rparr>), l'))))"

definition range_close :: "bool \<Rightarrow> range_dev \<Rightarrow> range_dev outcome" where
  "range_close intr = (\<lambda>(upper, l).
    (case sem_wait intr (range_exclsem upper) of
       SemBlocked \<Rightarrow> Blocked
     | SemError e \<Rightarrow> Done (- e) (upper, l)
     | SemTaken n \<Rightarrow>
         (let upper = upper\<lparr>range_exclsem := n\<rparr>;
              post = (\<lambda>u. u\<lparr>range_exclsem := sem_post (range_exclsem u)\<rparr>)
          in if 1 < range_crefs upper
             then Done 0 (post (upper\<lparr>range_crefs := range_crefs upper - 1\<rparr>), l)
             else Done 0 (post (upper\<lparr>range_crefs := 0\<rparr>), snd (up_range_shutdown l)))))"

text \<open>\<^verbatim>\<open>read\<close> takes no semaphore and passes the result of the lower half on.\<close>

definition range_read :: "nat \<Rightarrow> bool list \<Rightarrow> u32 list \<Rightarrow> range_dev \<Rightarrow> range_result \<times> range_dev" where
  "range_read buflen ls ts = (\<lambda>(upper, rs, b).
    (let (ret, b') = up_range_read buflen ls ts (rs, b) in (ret, upper, rs, b')))"

definition range_write :: "range_dev \<Rightarrow> string \<Rightarrow> int" where
  "range_write d buffer = - ENOSYS"

definition range_ioctl :: "bool \<Rightarrow> int \<Rightarrow> range_info_s \<Rightarrow> range_dev \<Rightarrow> range_dev outcome" where
  "range_ioctl intr cmd arg = (\<lambda>(upper, l).
    (case sem_wait intr (range_exclsem upper) of
       SemBlocked \<Rightarrow> Blocked
     | SemError e \<Rightarrow> Done (- 1) (upper, l)
     | SemTaken n \<Rightarrow>
         (let upper = upper\<lparr>range_exclsem := n\<rparr>;
              post = (\<lambda>u. u\<lparr>range_exclsem := sem_post (range_exclsem u)\<rparr>)
          in if cmd = RANGEIOC_ATTACHE then
               (let (ret, l') = up_range_attach arg l in Done ret (post (upper\<lparr>range_info := arg\<rparr>), l'))
             else if cmd = RANGEIOC_DETACH then
               (let (ret, l') = up_range_detach arg l in Done ret (post (upper\<lparr>range_info := arg\<rparr>), l'))
             else NullCall)))"

definition range_register :: "bool \<Rightarrow> int \<Rightarrow> int \<times> range_upperhalf_s option" where
  "range_register mem_ok registered =
    (if \<not> mem_ok then (- ENOMEM, None)
     else (registered,
       Some \<lparr>range_crefs = 0, range_started = False, range_exclsem = 1,
         range_info = \<lparr>ri_id = 0, ri_trig_port = 0, ri_trig_pin = 0, ri_echo_port = 0, ri_echo_pin = 0\<rparr>\<rparr>))"

definition range_devinit :: "bool \<Rightarrow> int \<Rightarrow> bool \<Rightarrow> int \<times> bool \<times> range_upperhalf_s option" where
  "range_devinit mem_ok registered initialized =
    (if \<not> initialized
     then let (ret, upper) = range_register mem_ok registered
          in if ret < 0 then (ret, False, upper) else (0, True, upper)
     else (0, True, None))"

section \<open>Polling\<close>

text \<open>
  A polling loop ends by the poll at which the timer has passed the time limit, and has seen no
  such value before.
\<close>

lemma poll_while_ends:
  assumes "k < length ls" "k < length ts" "50000000 < ts ! k - t"
  shows "(\<exists>m\<le>k. \<exists>v. poll_while lvl t prev ls ts = Changed v (drop (Suc m) ls) (drop m ts)
           \<and> (\<forall>j<m. ts ! j - t \<le> 50000000))
       \<or> (\<exists>m\<le>k. poll_while lvl t prev ls ts = TimedOut (drop (Suc m) ls) (drop (Suc m) ts))"
  using assms
proof (induction k arbitrary: prev ls ts)
  case 0
  then show ?case
    by (cases ls; cases ts) auto
next
  case (Suc k)
  obtain l ls' x ts' where l: "ls = l # ls'" "ts = x # ts'"
    using Suc.prems(1,2) by (cases ls; cases ts) auto
  show ?case
  proof (cases "l = lvl \<and> x - t \<le> 50000000")
    case True
    have le: "\<not> 50000000 < x - t"
      using True by auto
    from Suc.IH [of ls' ts' "Some x"] Suc.prems l
    consider m v where "m \<le> k" "poll_while lvl t (Some x) ls' ts' = Changed v (drop (Suc m) ls') (drop m ts')"
        "\<forall>j<m. ts' ! j - t \<le> 50000000"
      | m where "m \<le> k" "poll_while lvl t (Some x) ls' ts' = TimedOut (drop (Suc m) ls') (drop (Suc m) ts')"
      by auto
    then show ?thesis
    proof cases
      case 1
      then show ?thesis
        using True le by (intro disjI1 exI [of _ "Suc m"]) (auto simp: l less_Suc_eq_0_disj)
    next
      case 2
      then show ?thesis
        using True le by (intro disjI2 exI [of _ "Suc m"]) (auto simp: l)
    qed
  next
    case False
    then show ?thesis
      by (auto simp: l not_le intro!: exI [of _ 0])
  qed
qed

lemma poll_while_run:
  assumes "length us = n" "\<forall>u\<in>set us. u - t \<le> 50000000"
  shows "poll_while lvl t prev (replicate n lvl @ (\<not> lvl) # ls) (us @ ts) =
    Changed (if n = 0 then prev else Some (last us)) ls ts"
  using assms
proof (induction n arbitrary: us prev)
  case (Suc n)
  then obtain u us' where "us = u # us'" "length us' = n"
    by (cases us) auto
  with Suc show ?case
    by (auto simp: not_less)
qed auto

text \<open>
  The timer has advanced past the limit within \<^verbatim>\<open>n\<close> reads of any read it started from.
\<close>

definition timer_advances :: "nat \<Rightarrow> u32 list \<Rightarrow> bool" where
  "timer_advances n ts \<longleftrightarrow>
    (\<forall>i. i + n < length ts \<longrightarrow> (\<exists>k\<in>{1..n}. 50000000 < ts ! (i + k) - ts ! i))"

lemma timer_advances_drop: "timer_advances n ts \<Longrightarrow> timer_advances n (drop j ts)"
  unfolding timer_advances_def
proof (intro allI impI)
  fix i
  assume adv: "\<forall>i. i + n < length ts \<longrightarrow> (\<exists>k\<in>{1..n}. 50000000 < ts ! (i + k) - ts ! i)"
    and i: "i + n < length (drop j ts)"
  then have "j + i + n < length ts"
    by simp
  with adv obtain k where "k \<in> {1..n}" "50000000 < ts ! (j + i + k) - ts ! (j + i)"
    by blast
  then show "\<exists>k\<in>{1..n}. 50000000 < drop j ts ! (i + k) - drop j ts ! i"
    using i by (intro bexI [of _ k]) (simp_all add: add.assoc)
qed

lemma timer_advances_Cons:
  assumes "timer_advances n (t # ts)" "n \<le> length ts"
  obtains k where "k < n" "50000000 < ts ! k - t"
proof -
  have "0 + n < length (t # ts)"
    using assms(2) by simp
  with assms(1) obtain k where "k \<in> {1..n}" "50000000 < (t # ts) ! (0 + k) - (t # ts) ! 0"
    unfolding timer_advances_def by blast
  then have "k - 1 < n" "50000000 < ts ! (k - 1) - t"
    by (auto simp: nth_Cons')
  then show thesis
    by (rule that)
qed

section \<open>Properties of the echo timing\<close>

text \<open>
  \<^verbatim>\<open>pulse_in\<close> always returns: whatever levels the echo pin shows, if the timer advances by more
  than the limit within any \<^verbatim>\<open>n\<close> reads, then \<^verbatim>\<open>2 n + 2\<close> timer reads and \<^verbatim>\<open>2 n + 1\<close> pin reads are enough.
\<close>

theorem pulse_in_returns:
  assumes adv: "timer_advances n ts" and len: "2 * n + 2 \<le> length ts" "2 * n + 1 \<le> length ls"
  shows "\<exists>p ls' ts'. pulse_in ls ts = Some (p, ls', ts')"
proof -
  obtain t ts1 where ts: "ts = t # ts1"
    using len(1) by (cases ts) auto
  obtain k where k: "k < n" "50000000 < ts1 ! k - t"
    using timer_advances_Cons [of n t ts1] adv len(1) ts by auto
  have kl: "k < length ls" "k < length ts1"
    using k len ts by auto
  from poll_while_ends [OF kl k(2), of True None] consider
      m v where "m \<le> k" "poll_while True t None ls ts1 = Changed v (drop (Suc m) ls) (drop m ts1)"
    | ls' ts' where "poll_while True t None ls ts1 = TimedOut ls' ts'"
    by blast
  then show ?thesis
  proof cases
    case 1
    obtain t' ts3 where ts2: "drop m ts1 = t' # ts3"
      using 1(1) kl(2) by (metis Cons_nth_drop_Suc le_less_trans)
    have l3: "n \<le> length ts3"
      using arg_cong [OF ts2, of length] 1(1) k(1) len(1) ts by simp
    have "timer_advances n (t' # ts3)"
      using timer_advances_drop [OF adv, of "Suc m"] by (simp add: ts flip: ts2)
    then obtain k' where k': "k' < n" "50000000 < ts3 ! k' - t'"
      using l3 by (rule timer_advances_Cons)
    have kl': "k' < length (drop (Suc m) ls)" "k' < length ts3"
      using k k' 1(1) len(2) l3 by auto
    note loop2 = poll_while_ends [OF kl' k'(2), of False None]
    show ?thesis
    proof (cases "\<exists>ls' ts'. poll_while False t' None (drop (Suc m) ls) ts3 = TimedOut ls' ts'")
      case True
      then show ?thesis
        using 1(2) by (auto simp: pulse_in_def ts ts2)
    next
      case False
      with loop2 obtain m' v' where m': "m' \<le> k'"
          "poll_while False t' None (drop (Suc m) ls) ts3 = Changed v' (drop (Suc m') (drop (Suc m) ls)) (drop m' ts3)"
        by blast
      have kl3: "k' - m' < length (drop (Suc m') (drop (Suc m) ls))" "k' - m' < length (drop m' ts3)"
        using k k' 1(1) m'(1) len(2) kl'(2) by auto
      have "50000000 < drop m' ts3 ! (k' - m') - t'"
        using k'(2) m'(1) kl'(2) by simp
      from poll_while_ends [OF kl3 this, of True None] show ?thesis
        using 1(2) m'(2) by (auto simp: pulse_in_def ts ts2 split: option.split)
    qed
  next
    case 2
    then show ?thesis
      by (auto simp: pulse_in_def ts)
  qed
qed

theorem pulse_in_returns_witness:
  "\<exists>p ls' ts'. pulse_in [False, False, True] [0, 60000000, 120000000, 180000000] = Some (p, ls', ts')"
proof (rule pulse_in_returns [of 1])
  show "timer_advances 1 [0, 60000000, 120000000, 180000000]"
    unfolding timer_advances_def
  proof (intro allI impI)
    fix i
    assume "i + 1 < length [0 :: u32, 60000000, 120000000, 180000000]"
    then have "i = 0 \<or> i = 1 \<or> i = 2"
      by auto
    then show "\<exists>k\<in>{1..1}. 50000000 < [0, 60000000, 120000000, 180000000] ! (i + k)
        - [0 :: u32, 60000000, 120000000, 180000000] ! i"
      by auto
  qed
qed simp_all

text \<open>
  For an echo pin that goes low, then high, then low again inside the time limit, \<^verbatim>\<open>pulse_in\<close>
  returns the time from the start of the wait for the pulse to the last high sample, in units of 85
  ticks; a high level that only the second loop sees leaves \<^verbatim>\<open>t2\<close> unassigned.
\<close>

theorem pulse_in_width:
  assumes "length us = a" "length vs = c" "length ws = d"
    and "\<forall>u\<in>set us. u - t0 \<le> 50000000" "\<forall>u\<in>set vs \<union> set ws. u - t \<le> 50000000"
  shows "pulse_in (replicate a True @ False # replicate c False @ True # replicate d True @ False # ls)
      (t0 # us @ t # vs @ ws @ ts)
    = Some (if d = 0 then Uninit else Width ((last ws - t) div 85), ls, ts)"
  using assms poll_while_run [of us a t0 True None _ "t # vs @ ws @ ts"]
    poll_while_run [of vs c t False None _ "ws @ ts"] poll_while_run [of ws d t True None ls ts]
  by (simp add: pulse_in_def)

theorem pulse_in_width_witness:
  "pulse_in [False, False, True, True, True, False] [0, 100, 200, 8000, 8600] = Some (Width 100, [], [])"
  using pulse_in_width [of "[]" 0 "[200]" "Suc 0" "[8000, 8600]" "Suc (Suc 0)" 0 100 "[]" "[]"]
  by simp

section \<open>The text of a reading\<close>

text \<open>The widths \<^verbatim>\<open>n\<close> successive calls of \<^verbatim>\<open>pulse_in\<close> measure, when all of them measure one.\<close>

fun pulse_widths :: "nat \<Rightarrow> bool list \<Rightarrow> u32 list \<Rightarrow> u32 list option" where
  "pulse_widths 0 ls ts = Some []"
| "pulse_widths (Suc n) ls ts =
    (case pulse_in ls ts of
       Some (Width w, ls', ts') \<Rightarrow> map_option ((#) w) (pulse_widths n ls' ts')
     | _ \<Rightarrow> None)"

definition enabled_ranges :: "(nat \<times> range_t) list \<Rightarrow> (nat \<times> range_t) list" where
  "enabled_ranges irs = filter (\<lambda>(i, r). range_state r = RANGE_STATE_ENABLED) irs"

definition range_text :: "(nat \<times> range_t) list \<Rightarrow> u32 list \<Rightarrow> string" where
  "range_text irs ws = concat (map2 (\<lambda>(i, r) w. range_entry i (range_shown w)) irs ws)"

lemma length_pulse_widths: "pulse_widths n ls ts = Some ws \<Longrightarrow> length ws = n"
  by (induction n ls ts arbitrary: ws rule: pulse_widths.induct) (auto split: option.splits pulse.splits)

lemma range_shown_lt: "range_shown w < 4000"
  by (simp add: range_shown_def)

lemma length_range_entry: "i < 4 \<Longrightarrow> d < 4000 \<Longrightarrow> length (range_entry i d) \<le> 9"
  using length_show_nat [of d 4] by (simp add: range_entry_def show_nat.simps [of i])

lemma up_range_loop_text:
  assumes "pulse_widths (length (enabled_ranges irs)) ls ts = Some ws"
    and "\<forall>(i, r) \<in> set irs. i < 4" and "length buff + 9 * length irs < buflen"
  shows "\<exists>b'. up_range_loop buflen irs buff ls ts b =
      (let s = buff @ range_text (enabled_ranges irs) ws
       in (RangeText (if s = [] then 0 else int (length s) + 1) s, b'))
    \<and> irq_off b' = irq_off b \<and> lockcount b' = lockcount b - 1 \<and> regs b' = regs b"
  using assms
proof (induction irs arbitrary: buff ls ts ws b)
  case Nil
  then show ?case
    by (simp add: enabled_ranges_def range_text_def sched_unlock_def)
next
  case (Cons ir irs)
  obtain i r where ir: "ir = (i, r)"
    by (cases ir)
  show ?case
  proof (cases "range_state r = RANGE_STATE_ENABLED")
    case True
    with Cons.prems(1) obtain w ls' ts' ws' where w: "pulse_in ls ts = Some (Width w, ls', ts')"
        "pulse_widths (length (enabled_ranges irs)) ls' ts' = Some ws'" "ws = w # ws'"
      by (auto simp: ir enabled_ranges_def split: option.splits pulse.splits)
    have le: "length (range_entry i (range_shown w)) \<le> 9"
      using Cons.prems(2) ir range_shown_lt by (intro length_range_entry) auto
    define b3 where "b3 = irqrestore (irq_off b) (snd (irqsave (range_trigger r b)))"
    have "irq_off b3 = irq_off b" "lockcount b3 = lockcount b" "regs b3 = regs b"
      by (simp_all add: b3_def cpu_defs range_trigger_def Let_def)
    moreover have "up_range_loop buflen (ir # irs) buff ls ts b =
        up_range_loop buflen irs (buff @ range_entry i (range_shown w)) ls' ts' b3"
      using le Cons.prems(3) True by (simp add: ir w b3_def irqsave_def Let_def range_trigger_def)
    moreover have "range_text (enabled_ranges (ir # irs)) ws =
        range_entry i (range_shown w) @ range_text (enabled_ranges irs) ws'"
      using True by (simp add: ir w enabled_ranges_def range_text_def)
    ultimately show ?thesis
      using Cons.IH [OF w(2), of "buff @ range_entry i (range_shown w)" b3] Cons.prems(2,3) le by simp
  next
    case False
    then show ?thesis
      using Cons.IH [of ls ts ws buff b] Cons.prems by (auto simp: ir enabled_ranges_def)
  qed
qed

text \<open>
  C18.  A read of the range device whose echoes are all measured fills the caller's buffer with one
  entry "(i distance) " per attached sensor, in order, and returns the length with the NUL, or 0
  when no sensor is attached; a buffer of 37 bytes is always large enough, and afterwards the
  interrupt mask, the scheduler lock and the registers are as before.
\<close>

theorem range_read_text:
  assumes "length rs = 4" "36 < buflen"
    and "pulse_widths (length (enabled_ranges (zip [0..<4] rs))) ls ts = Some ws"
  shows "\<exists>b'. range_read buflen ls ts (u, rs, b) =
      (let s = range_text (enabled_ranges (zip [0..<4] rs)) ws
       in (RangeText (if s = [] then 0 else int (length s) + 1) s, u, rs, b'))
    \<and> irq_off b' = irq_off b \<and> lockcount b' = lockcount b \<and> regs b' = regs b"
proof -
  have "\<forall>(i, r) \<in> set (zip [0..<4] rs). i < 4"
    by (auto dest: set_zip_leftD)
  from up_range_loop_text [OF assms(3) this, of "[]" buflen "sched_lock b"] assms(1,2)
  show ?thesis
    by (auto simp: range_read_def up_range_read_def sched_lock_def Let_def)
qed

definition one_range :: ranges where
  "one_range = [range_zero\<lparr>range_state := RANGE_STATE_ENABLED\<rparr>, range_zero, range_zero, range_zero]"

theorem range_read_text_witness:
  "\<exists>b'. range_read 128 [False, False, True, True, False] [0, 100, 200, 40985]
      (the (snd (range_register True 0)), one_range, board_reset) =
    (RangeText 8 ''(0 91) '', the (snd (range_register True 0)), one_range, b')"
proof -
  have en: "enabled_ranges (zip [0..<4] one_range) = [(0, range_zero\<lparr>range_state := RANGE_STATE_ENABLED\<rparr>)]"
    by (simp add: enabled_ranges_def one_range_def range_zero_def upt_rec)
  have "range_entry 0 (range_shown 481) = ''(0 91) ''"
    by (simp add: range_entry_def range_shown_def range_dist_def show_nat.simps)
  then have "range_text (enabled_ranges (zip [0..<4] one_range)) [481] = ''(0 91) ''"
    by (simp add: en range_text_def)
  moreover have "pulse_widths 1 [False, False, True, True, False] [0, 100, 200, 40985] = Some [481]"
    by (simp add: pulse_in_def)
  ultimately show ?thesis
    using range_read_text [of one_range 128 "[False, False, True, True, False]" "[0, 100, 200, 40985]" "[481]"
        "the (snd (range_register True 0))" board_reset]
    by (auto simp: one_range_def en [unfolded one_range_def] Let_def)
qed

section \<open>The device contract\<close>

definition range_idle :: "ranges \<times> board \<Rightarrow> bool" where
  "range_idle l \<longleftrightarrow> \<not> bit (regs (snd l) (TIMER5_BASE + TIMER_O_CTL)) 0"

text \<open>Timer 5 runs in the mode the lower half configures, and the table has its four entries.\<close>

definition range_ready :: "ranges \<times> board \<Rightarrow> bool" where
  "range_ready l \<longleftrightarrow> length (fst l) = 4 \<and> bit (regs (snd l) (TIMER5_BASE + TIMER_O_CTL)) 0
     \<and> regs (snd l) (TIMER5_BASE + TIMER_O_TAMR) = 0x232"

lemma up_range_setup_ready: "range_ready (snd (up_range_setup l))" "fst (up_range_setup l) = 0"
  by (simp_all add: range_ready_def up_range_setup_def timer_defs HWREG_defs split_beta Let_def bit_simps)

lemma up_range_shutdown_idle: "range_idle (snd (up_range_shutdown l))"
  by (simp add: range_idle_def up_range_shutdown_def timer_defs HWREG_defs split_beta bit_simps)

interpretation rg: refcounted range_open range_close "range_crefs \<circ> fst" "range_exclsem \<circ> fst"
    "range_idle \<circ> snd" "range_ready \<circ> snd"
proof (unfold_locales, goal_cases)
  case (1 d i)
  then show ?case
    by (cases d) (simp add: range_open_def Let_def)
next
  case (2 d i)
  then show ?case
    by (cases d) (simp add: range_open_def Let_def u8_succ_zero_iff split_beta up_range_setup_ready
        del: split_paired_Ex)
next
  case (3 d i)
  then show ?case
    by (cases d) (auto simp: range_close_def Let_def up_range_shutdown_idle simp del: split_paired_Ex)
qed

text \<open>
  From registration on, every sequence of opens and closes of the range device runs to its end
  and counts like the saturating counter; timer 5 is stopped whenever nobody has the device open
  and runs with the sensor table set up whenever somebody has.
\<close>

theorem range_device_counts:
  assumes "range_register True r = (r, Some u)" "range_idle l"
  shows "\<exists>u' l'. run_dev range_open range_close ops (u, l) = Some (u', l')
    \<and> unat (range_crefs u') = count_run ops 0 \<and> range_exclsem u' = 1
    \<and> (count_run ops 0 = 0 \<longrightarrow> range_idle l') \<and> (count_run ops 0 \<noteq> 0 \<longrightarrow> range_ready l')"
proof -
  have "range_exclsem u = 1" "range_crefs u = 0"
    using assms(1) by (auto simp: range_register_def)
  then show ?thesis
    using rg.fresh_run [of "(u, l)" ops] assms(2) by (metis comp_apply fst_conv snd_conv surj_pair)
qed

theorem range_device_counts_witness:
  "\<exists>u' l'. run_dev range_open range_close [(DevOpen, False), (DevClose, False)]
     (the (snd (range_register True 0)), [], board_reset) = Some (u', l') \<and> range_idle l'"
  using range_device_counts [of 0 "the (snd (range_register True 0))" "([], board_reset)"
      "[(DevOpen, False), (DevClose, False)]"]
  by (auto simp: range_register_def range_idle_def board_reset_def)

end
