(* ===== verification/Adc_Driver.thy ===== *)
theory Adc_Driver
  imports Lm4f_Board Char_Device
begin

text \<open>
  The analog input driver the battery measurement uses: the routines of the driver library's
  \<^verbatim>\<open>adc.c\<close>, the lower half (\<^verbatim>\<open>configs/lm4f120-launchpad/src/up_adc.c\<close>) and the upper half
  (\<^verbatim>\<open>drivers/analog/adc_lm4f.c\<close>).  What the converter delivers is an argument: for each conversion
  the contents of the result FIFO when the driver drains it; a list that runs out stands for a
  conversion that never completes.
\<close>

section \<open>The converter's registers\<close>

abbreviation (input) ADC0_BASE :: u32 where "ADC0_BASE \<equiv> 0x40038000"
abbreviation (input) ADC_O_ACTSS :: u32 where "ADC_O_ACTSS \<equiv> 0x00"
abbreviation (input) ADC_O_ISC :: u32 where "ADC_O_ISC \<equiv> 0x0C"
abbreviation (input) ADC_O_EMUX :: u32 where "ADC_O_EMUX \<equiv> 0x14"
abbreviation (input) ADC_O_SSPRI :: u32 where "ADC_O_SSPRI \<equiv> 0x20"
abbreviation (input) ADC_O_PSSI :: u32 where "ADC_O_PSSI \<equiv> 0x28"

definition ADCIntClear :: "u32 \<Rightarrow> nat \<Rightarrow> mmio \<Rightarrow> mmio" where
  "ADCIntClear ulBase ulSequenceNum = HWREG_write (ulBase + ADC_O_ISC) (push_bit ulSequenceNum 1)"

definition ADCSequenceEnable :: "u32 \<Rightarrow> nat \<Rightarrow> mmio \<Rightarrow> mmio" where
  "ADCSequenceEnable ulBase ulSequenceNum = HWREG_or (ulBase + ADC_O_ACTSS) (push_bit ulSequenceNum 1)"

definition ADCSequenceConfigure :: "u32 \<Rightarrow> nat \<Rightarrow> u32 \<Rightarrow> u32 \<Rightarrow> mmio \<Rightarrow> mmio" where
  "ADCSequenceConfigure ulBase ulSequenceNum ulTrigger ulPriority m0 =
    (let sh = ulSequenceNum * 4;
         m1 = HWREG_write (ulBase + ADC_O_EMUX)
           ((m0 (ulBase + ADC_O_EMUX) AND NOT (push_bit sh 0xf)) OR push_bit sh (ulTrigger AND 0xf)) m0
     in HWREG_write (ulBase + ADC_O_SSPRI)
          ((m1 (ulBase + ADC_O_SSPRI) AND NOT (push_bit sh 0xf)) OR push_bit sh (ulPriority AND 0x3)) m1)"

text \<open>
  The sequencer registers are 0x20 apart; inside one, \<^verbatim>\<open>SSMUX\<close>, \<^verbatim>\<open>SSCTL\<close>, \<^verbatim>\<open>SSOP\<close>, \<^verbatim>\<open>SSDC\<close> and \<^verbatim>\<open>SSEMUX\<close>
  are at 0, 4, 0x10, 0x14 and 0x18.
\<close>

definition ADCSequenceStepConfigure :: "u32 \<Rightarrow> nat \<Rightarrow> nat \<Rightarrow> u32 \<Rightarrow> mmio \<Rightarrow> mmio" where
  "ADCSequenceStepConfigure base ulSequenceNum ulStep ulConfig m0 =
    (let ulBase = base + (0x40 + 0x20 * of_nat ulSequenceNum);
         sh = ulStep * 4;
         m1 = HWREG_write ulBase
           ((m0 ulBase AND NOT (push_bit sh 0xf)) OR push_bit sh (ulConfig AND 0x0f)) m0;
         m2 = HWREG_write (ulBase + 0x18)
           ((m1 (ulBase + 0x18) AND NOT (push_bit sh 0xf)) OR push_bit sh (drop_bit 8 (ulConfig AND 0xf00))) m1;
         m3 = HWREG_write (ulBase + 4)
           ((m2 (ulBase + 4) AND NOT (push_bit sh 0xf)) OR push_bit sh (drop_bit 4 (ulConfig AND 0xf0))) m2
     in if ulConfig AND 0x000F0000 \<noteq> 0 then
          let m4 = HWREG_write (ulBase + 0x14)
                ((m3 (ulBase + 0x14) AND NOT (push_bit sh 0xf))
                 OR push_bit sh (drop_bit 16 (ulConfig AND 0x00070000))) m3
          in HWREG_or (ulBase + 0x10) (push_bit sh 1) m4
        else HWREG_and (ulBase + 0x10) (NOT (push_bit sh 1)) m3)"

definition ADCProcessorTrigger :: "u32 \<Rightarrow> u32 \<Rightarrow> mmio \<Rightarrow> mmio" where
  "ADCProcessorTrigger ulBase ulSequenceNum =
    HWREG_or (ulBase + ADC_O_PSSI)
      ((ulSequenceNum AND 0xffff0000) OR push_bit (unat (ulSequenceNum AND 0xf)) 1)"

lemmas adc_defs = ADCIntClear_def ADCSequenceEnable_def ADCSequenceConfigure_def
  ADCSequenceStepConfigure_def ADCProcessorTrigger_def

section \<open>The lower half\<close>

abbreviation (input) CHANNEL_MAX_COUNT :: nat where "CHANNEL_MAX_COUNT \<equiv> 12"

record adclm4f_info_s =
  adc_channel :: u8
  adc_nsamples :: u32
  adc_freq :: u32

type_synonym adc_lower = "adclm4f_info_s \<times> board"

definition g_adcchannels :: "u32 list" where
  "g_adcchannels = [0, 1, 2, 3, 4, 5, 6, 7, 8, 9, 10, 11]"

definition up_adclm4f_setup :: "adc_lower \<Rightarrow> int \<times> adc_lower" where
  "up_adclm4f_setup = (\<lambda>(g, b).
    (0, \<lparr>adc_channel = 0, adc_nsamples = 1, adc_freq = 1000\<rparr>,
     b\<lparr>regs := SysCtlPeripheralEnable 0x00100001 (regs b)\<rparr>))"

definition up_adclm4f_shutdown :: "adc_lower \<Rightarrow> int \<times> adc_lower" where
  "up_adclm4f_shutdown = (\<lambda>(g, b).
    (0, g, b\<lparr>regs := SysCtlPeripheralDisable 0x00100001 (regs b)\<rparr>))"

text \<open>The switch of \<^verbatim>\<open>adclm4f_configure\<close>: the port's clock, its base and the pin of each channel.\<close>

definition adc_pin :: "nat \<Rightarrow> (u32 \<times> u32 \<times> u8) option" where
  "adc_pin channel =
    (if channel = 0 then Some (0x20000010, GPIO_PORTE_BASE, 0x08)
     else if channel = 1 then Some (0x20000010, GPIO_PORTE_BASE, 0x04)
     else if channel = 2 then Some (0x20000010, GPIO_PORTE_BASE, 0x02)
     else if channel = 3 then Some (0x20000010, GPIO_PORTE_BASE, 0x01)
     else if channel = 4 then Some (0x20000008, GPIO_PORTD_BASE, 0x08)
     else if channel = 5 then Some (0x20000008, GPIO_PORTD_BASE, 0x04)
     else if channel = 6 then Some (0x20000008, GPIO_PORTD_BASE, 0x02)
     else if channel = 7 then Some (0x20000008, GPIO_PORTD_BASE, 0x01)
     else if channel = 8 then Some (0x20000010, GPIO_PORTE_BASE, 0x20)
     else if channel = 9 then Some (0x20000010, GPIO_PORTE_BASE, 0x10)
     else if channel = 10 then Some (0x20000002, GPIO_PORTB_BASE, 0x10)
     else if channel = 11 then Some (0x20000002, GPIO_PORTB_BASE, 0x20)
     else None)"

definition up_adclm4f_configure :: "adclm4f_info_s \<Rightarrow> adc_lower \<Rightarrow> int \<times> adc_lower" where
  "up_adclm4f_configure info = (\<lambda>(g, b).
    (if CHANNEL_MAX_COUNT \<le> unat (adc_channel info) then (ERANGE, g, b)
     else
       let m1 = (case adc_pin (unat (adc_channel info)) of
                   None \<Rightarrow> regs b
                 | Some (periph, port, pin) \<Rightarrow>
                     GPIOPinTypeADC port pin (SysCtlPeripheralEnable periph (regs b)));
           m2 = ADCSequenceConfigure ADC0_BASE 3 0 0 m1;
           m3 = ADCSequenceStepConfigure ADC0_BASE 3 0
                  (g_adcchannels ! unat (adc_channel info) OR 0x40 OR 0x20) m2;
           m4 = ADCSequenceEnable ADC0_BASE 3 m3;
           m5 = ADCIntClear ADC0_BASE 3 m4
       in (0, info, b\<lparr>regs := m5\<rparr>)))"

text \<open>
  Undefined results of \<^verbatim>\<open>adclm4f_read\<close>: a division by a zero frequency, a conversion that never
  completes, a value read from the one-word array \<^verbatim>\<open>ulADC0_Value\<close> before anything was stored there,
  a store past that array (more than one FIFO word) or past the caller's buffer.
\<close>

datatype adc_result = AdcSamples int "u16 list" | AdcDivZero | AdcHangs | AdcUninit | AdcOverrun

fun up_adclm4f_loop :: "nat \<Rightarrow> nat \<Rightarrow> nat \<Rightarrow> u32 option \<Rightarrow> u16 list \<Rightarrow> u32 list list \<Rightarrow> mmio
    \<Rightarrow> adc_result \<times> mmio" where
  "up_adclm4f_loop nsamples buflen i cur out [] m =
    (if i < nsamples \<and> i * 2 < buflen then (AdcHangs, ADCProcessorTrigger ADC0_BASE 3 m)
     else (AdcSamples (int i) out, m))"
| "up_adclm4f_loop nsamples buflen i cur out (fifo # fifos) m =
    (if i < nsamples \<and> i * 2 < buflen then
       let m1 = ADCIntClear ADC0_BASE 3 (ADCProcessorTrigger ADC0_BASE 3 m)
       in if 1 < length fifo then (AdcOverrun, m1)
          else (case (case fifo of [] \<Rightarrow> cur | w # _ \<Rightarrow> Some w) of
             None \<Rightarrow> (AdcUninit, m1)
           | Some w \<Rightarrow>
               if buflen < i * 2 + 2 then (AdcOverrun, m1)
               else up_adclm4f_loop nsamples buflen (i + 1) (Some w) (out @ [ucast w]) fifos m1)
     else (AdcSamples (int i) out, m))"

definition up_adclm4f_read :: "nat \<Rightarrow> u32 list list \<Rightarrow> adc_lower \<Rightarrow> adc_result \<times> adc_lower" where
  "up_adclm4f_read buflen fifos = (\<lambda>(g, b).
    (if adc_freq g = 0 then (AdcDivZero, g, b)
     else
       let b1 = sched_lock b;
           (flags, b2) = irqsave b1;
           (r, m) = up_adclm4f_loop (unat (adc_nsamples g)) buflen 0 None [] fifos (regs b2);
           b3 = b2\<lparr>regs := m\<rparr>
       in (case r of
             AdcSamples n out \<Rightarrow> (r, g, sched_unlock (irqrestore flags b3))
           | _ \<Rightarrow> (r, g, b3))))"

section \<open>The upper half\<close>

record adclm4f_upperhalf_s =
  adc_crefs :: u8
  adc_started :: bool
  adc_exclsem :: nat
  adc_info :: adclm4f_info_s

type_synonym adc_dev = "adclm4f_upperhalf_s \<times> adc_lower"

abbreviation (input) ADCIOC_SETCONF :: int where "ADCIOC_SETCONF \<equiv> 0x1501"

definition adclm4f_open :: "bool \<Rightarrow> adc_dev \<Rightarrow> adc_dev outcome" where
  "adclm4f_open intr = (\<lambda>(upper, l).
    (case sem_wait intr (adc_exclsem upper) of
       SemBlocked \<Rightarrow> Blocked
     | SemError e \<Rightarrow> Done (- e) (upper, l)
     | SemTaken n \<Rightarrow>
         (let upper = upper\<lparr>adc_exclsem := n\<rparr>;
              post = (\<lambda>u. u\<lparr>adc_exclsem := sem_post (adc_exclsem u)\<rparr>);
              tmp = adc_crefs upper + 1
          in if tmp = 0 then Done (- EMFILE) (post upper, l)
             else
               let (ret, l') = (if tmp = 1 then up_adclm4f_setup l else (0, l))
               in if ret < 0 then Done ret (post upper, l')
                  else Done 0 (post (upper\<lparr>adc_crefs := tmp\<rparr>), l'))))"

definition adclm4f_close :: "bool \<Rightarrow> adc_dev \<Rightarrow> adc_dev outcome" where
  "adclm4f_close intr = (\<lambda>(upper, l).
    (case sem_wait intr (adc_exclsem upper) of
       SemBlocked \<Rightarrow> Blocked
     | SemError e \<Rightarrow> Done (- e) (upper, l)
     | SemTaken n \<Rightarrow>
         (let upper = upper\<lparr>adc_exclsem := n\<rparr>;
              post = (\<lambda>u. u\<lparr>adc_exclsem := sem_post (adc_exclsem u)\<rparr>)
          in if 1 < adc_crefs upper
             then Done 0 (post (upper\<lparr>adc_crefs := adc_crefs upper - 1\<rparr>), l)
             else Done 0 (post (upper\<lparr>adc_crefs := 0\<rparr>), snd (up_adclm4f_shutdown l)))))"

definition adclm4f_read :: "nat \<Rightarrow> u32 list list \<Rightarrow> adc_dev \<Rightarrow> adc_result \<times> adc_dev" where
  "adclm4f_read buflen fifos = (\<lambda>(upper, l).
    (let (r, l') = up_adclm4f_read buflen fifos l in (r, upper, l')))"

definition adclm4f_write :: "adc_dev \<Rightarrow> string \<Rightarrow> int" where
  "adclm4f_write d buffer = - ENOSYS"

definition adclm4f_ioctl :: "bool \<Rightarrow> int \<Rightarrow> adclm4f_info_s \<Rightarrow> adc_dev \<Rightarrow> adc_dev outcome" where
  "adclm4f_ioctl intr cmd arg = (\<lambda>(upper, l).
    (case sem_wait intr (adc_exclsem upper) of
       SemBlocked \<Rightarrow> Blocked
     | SemError e \<Rightarrow> Done (- 1) (upper, l)
     | SemTaken n \<Rightarrow>
         (let upper = upper\<lparr>adc_exclsem := n\<rparr>;
              post = (\<lambda>u. u\<lparr>adc_exclsem := sem_post (adc_exclsem u)\<rparr>)
          in if cmd = ADCIOC_SETCONF then
               (let (ret, l') = up_adclm4f_configure arg l
                in Done ret (post (upper\<lparr>adc_info := arg\<rparr>), l'))
             else NullCall)))"

definition adclm4f_register :: "bool \<Rightarrow> int \<Rightarrow> int \<times> adclm4f_upperhalf_s option" where
  "adclm4f_register mem_ok registered =
    (if \<not> mem_ok then (- ENOMEM, None)
     else (registered,
       Some \<lparr>adc_crefs = 0, adc_started = False, adc_exclsem = 1,
         adc_info = \<lparr>adc_channel = 0, adc_nsamples = 0, adc_freq = 0\<rparr>\<rparr>))"

definition adclm4f_devinit :: "bool \<Rightarrow> int \<Rightarrow> bool \<Rightarrow> int \<times> bool \<times> adclm4f_upperhalf_s option" where
  "adclm4f_devinit mem_ok registered initialized =
    (if \<not> initialized
     then let (ret, upper) = adclm4f_register mem_ok registered
          in if ret < 0 then (ret, False, upper) else (0, True, upper)
     else (0, True, None))"

section \<open>Configuration\<close>

lemma gpio_pin_adc_regs:
  "GPIOPinTypeADC port pin m (port + GPIO_O_AMSEL) = m (port + GPIO_O_AMSEL) OR ucast pin"
  "GPIOPinTypeADC port pin m (port + GPIO_O_DEN) = m (port + GPIO_O_DEN) AND NOT (ucast pin)"
  "GPIOPinTypeADC port pin m (port + GPIO_O_DIR) = m (port + GPIO_O_DIR) AND NOT (ucast pin)"
  "GPIOPinTypeADC port pin m (port + GPIO_O_AFSEL) = m (port + GPIO_O_AFSEL) AND NOT (ucast pin)"
  by (simp_all add: gpio_defs HWREG_defs Let_def)

definition adc_sequencer_regs :: "u32 set" where
  "adc_sequencer_regs = {0x40038000, 0x4003800C, 0x40038014, 0x40038020, 0x400380A0, 0x400380A4, 0x400380B0,
     0x400380B4, 0x400380B8}"

text \<open>The four driver-library calls after the pin setup touch the converter's registers only.\<close>

definition adc_sequence_setup :: "u32 \<Rightarrow> mmio \<Rightarrow> mmio" where
  "adc_sequence_setup ch m =
    ADCIntClear ADC0_BASE 3 (ADCSequenceEnable ADC0_BASE 3
      (ADCSequenceStepConfigure ADC0_BASE 3 0 (ch OR 0x40 OR 0x20) (ADCSequenceConfigure ADC0_BASE 3 0 0 m)))"

lemma adc_sequence_setup_frame:
  "a \<notin> adc_sequencer_regs \<Longrightarrow> adc_sequence_setup ch m a = m a"
  by (simp add: adc_sequence_setup_def adc_defs HWREG_defs Let_def adc_sequencer_regs_def)

lemma adc_channel_cases:
  "c < 12 \<Longrightarrow> c = 0 \<or> c = 1 \<or> c = 2 \<or> c = 3 \<or> c = 4 \<or> c = 5 \<or> c = 6 \<or> c = 7 \<or> c = 8 \<or> c = 9
     \<or> c = 10 \<or> c = (11 :: nat)"
  by arith

lemma adc_sequence_setup_channel:
  assumes "c < 12"
  shows "adc_sequence_setup (g_adcchannels ! c) m 0x400380A0 AND 0xf = of_nat c
    \<and> adc_sequence_setup (g_adcchannels ! c) m 0x400380A4 AND 0xf = 6
    \<and> bit (adc_sequence_setup (g_adcchannels ! c) m ADC0_BASE) 3"
proof -
  have nib: "(x AND - 16) AND 15 = 0" for x :: u32
    by (simp add: and.assoc)
  show ?thesis
    using adc_channel_cases [OF assms]
    by (elim disjE) (simp_all add: g_adcchannels_def adc_sequence_setup_def adc_defs HWREG_defs Let_def
        bit.conj_disj_distrib2 nib bit_simps)
qed

lemma up_adclm4f_configure_regs:
  assumes "unat (adc_channel info) < 12" "adc_pin (unat (adc_channel info)) = Some (periph, port, pin)"
  shows "up_adclm4f_configure info (g, b) =
    (0, info, b\<lparr>regs := adc_sequence_setup (g_adcchannels ! unat (adc_channel info))
       (GPIOPinTypeADC port pin (SysCtlPeripheralEnable periph (regs b)))\<rparr>)"
  using assms by (simp add: up_adclm4f_configure_def adc_sequence_setup_def)

lemma adc_pin_ports:
  assumes "c < 12"
  obtains periph port pin where "adc_pin c = Some (periph, port, pin)"
    "port \<in> {GPIO_PORTB_BASE, GPIO_PORTD_BASE, GPIO_PORTE_BASE}"
  using adc_channel_cases [OF assms] that by (elim disjE) (simp_all add: adc_pin_def)

text \<open>
  Configuring one of the twelve channels succeeds, stores the request, turns the channel's pin
  into an analog input (analog mode on, digital input, output and alternate function off) and makes
  sequencer 3 convert that channel, with an interrupt at the end of the one-step sequence; a channel
  outside the table is refused and nothing changes.
\<close>

theorem adc_configure_channel:
  "if unat (adc_channel info) < 12
   then \<exists>periph port pin b'. adc_pin (unat (adc_channel info)) = Some (periph, port, pin)
     \<and> up_adclm4f_configure info (g, b) = (0, info, b')
     \<and> regs b' (port + GPIO_O_AMSEL) AND ucast pin = ucast pin
     \<and> regs b' (port + GPIO_O_DEN) AND ucast pin = 0
     \<and> regs b' (port + GPIO_O_DIR) AND ucast pin = 0
     \<and> regs b' (port + GPIO_O_AFSEL) AND ucast pin = 0
     \<and> regs b' 0x400380A0 AND 0xf = ucast (adc_channel info)
     \<and> regs b' 0x400380A4 AND 0xf = 6 \<and> bit (regs b' ADC0_BASE) 3
   else up_adclm4f_configure info (g, b) = (ERANGE, g, b)"
proof (cases "unat (adc_channel info) < 12")
  case True
  obtain periph port pin where pin: "adc_pin (unat (adc_channel info)) = Some (periph, port, pin)"
      "port \<in> {GPIO_PORTB_BASE, GPIO_PORTD_BASE, GPIO_PORTE_BASE}"
    by (rule adc_pin_ports [OF True])
  have fr: "port + GPIO_O_AMSEL \<notin> adc_sequencer_regs" "port + GPIO_O_DEN \<notin> adc_sequencer_regs"
      "port + GPIO_O_DIR \<notin> adc_sequencer_regs" "port + GPIO_O_AFSEL \<notin> adc_sequencer_regs"
    using pin(2) by (auto simp: adc_sequencer_regs_def)
  have ch: "of_nat (unat (adc_channel info)) = (ucast (adc_channel info) :: u32)"
    by simp
  have cl: "(x AND NOT y) AND y = 0" "(x OR y) AND y = y" for x y :: u32
    by (auto simp: bit_eq_iff bit_simps)
  show ?thesis
    using True pin(1) adc_sequence_setup_channel [OF True]
    by (simp add: up_adclm4f_configure_regs [OF True pin(1)] adc_sequence_setup_frame [OF fr(1)]
        adc_sequence_setup_frame [OF fr(2)] adc_sequence_setup_frame [OF fr(3)]
        adc_sequence_setup_frame [OF fr(4)] gpio_pin_adc_regs cl ch)
next
  case False
  then show ?thesis
    by (simp add: up_adclm4f_configure_def)
qed

section \<open>Sampling\<close>

lemma up_adclm4f_loop_samples:
  assumes "2 * len = buflen" "i \<le> min nsamples len" "length ws = min nsamples len - i"
  shows "\<exists>m'. up_adclm4f_loop nsamples buflen i cur out (map (\<lambda>w. [w]) ws) m =
    (AdcSamples (int (min nsamples len)) (out @ map ucast ws), m')"
  using assms
proof (induction ws arbitrary: i cur out m)
  case Nil
  then show ?case
    by auto
next
  case (Cons w ws)
  then have "i < nsamples" "i < len"
    by auto
  then show ?case
    using Cons.IH [of "Suc i" "Some w" "out @ [ucast w]"] Cons.prems by (simp add: Let_def)
qed

text \<open>
  C19.  A read into a buffer of \<^verbatim>\<open>len\<close> 16-bit values with a non-zero sampling frequency returns as many
  samples as were configured, at most \<^verbatim>\<open>len\<close>, each the low 16 bits of the converted value, in order;
  the interrupt mask and the scheduler lock are restored.  With a zero frequency the delay
  computation divides by zero.
\<close>

theorem adc_read_samples:
  assumes "length ws = min (unat (adc_nsamples g)) len"
  shows "\<exists>b'. adclm4f_read (2 * len) (map (\<lambda>w. [w]) ws) (u, g, b) =
      (if adc_freq g = 0 then (AdcDivZero, u, g, b)
       else (AdcSamples (int (length ws)) (map ucast ws), u, g, b'))
    \<and> irq_off b' = irq_off b \<and> lockcount b' = lockcount b"
  using up_adclm4f_loop_samples [of len "2 * len" 0 "unat (adc_nsamples g)" ws None "[]" "regs b"] assms
  by (auto simp: adclm4f_read_def up_adclm4f_read_def cpu_defs Let_def)

theorem adc_read_samples_witness:
  "\<exists>b'. adclm4f_read 20 [[0x812], [0x815]]
      (the (snd (adclm4f_register True 0)), \<lparr>adc_channel = 6, adc_nsamples = 2, adc_freq = 1000\<rparr>, board_reset) =
    (AdcSamples 2 [0x812, 0x815], the (snd (adclm4f_register True 0)),
     \<lparr>adc_channel = 6, adc_nsamples = 2, adc_freq = 1000\<rparr>, b')"
  using adc_read_samples [of "[0x812, 0x815]" "\<lparr>adc_channel = 6, adc_nsamples = 2, adc_freq = 1000\<rparr>" 10
      "the (snd (adclm4f_register True 0))" board_reset]
  by auto

section \<open>The device contract\<close>

definition adc_clocked :: "adc_lower \<Rightarrow> bool" where
  "adc_clocked l = bit (regs (snd l) 0x400FE100) 16"

lemma up_adclm4f_setup_clocked: "adc_clocked (snd (up_adclm4f_setup l))" "fst (up_adclm4f_setup l) = 0"
  by (simp_all add: adc_clocked_def up_adclm4f_setup_def sysctl_defs HWREG_defs split_beta bit_simps)

lemma up_adclm4f_shutdown_clocked: "\<not> adc_clocked (snd (up_adclm4f_shutdown l))"
  by (simp add: adc_clocked_def up_adclm4f_shutdown_def sysctl_defs HWREG_defs split_beta bit_simps)

interpretation ad: refcounted adclm4f_open adclm4f_close "adc_crefs \<circ> fst" "adc_exclsem \<circ> fst"
    "\<lambda>d. \<not> adc_clocked (snd d)" "adc_clocked \<circ> snd"
proof (unfold_locales, goal_cases)
  case (1 d i)
  then show ?case
    by (cases d) (simp add: adclm4f_open_def Let_def)
next
  case (2 d i)
  then show ?case
    by (cases d) (simp add: adclm4f_open_def Let_def u8_succ_zero_iff split_beta up_adclm4f_setup_clocked
        del: split_paired_Ex)
next
  case (3 d i)
  then show ?case
    by (cases d) (auto simp: adclm4f_close_def Let_def up_adclm4f_shutdown_clocked simp del: split_paired_Ex)
qed

text \<open>
  From registration on, every sequence of opens and closes of the analog device runs to its end
  and counts like the saturating counter, and the converter is clocked exactly while somebody has
  the device open.
\<close>

theorem adc_device_counts:
  assumes "adclm4f_register True r = (r, Some u)" "\<not> adc_clocked l"
  shows "\<exists>u' l'. run_dev adclm4f_open adclm4f_close ops (u, l) = Some (u', l')
    \<and> unat (adc_crefs u') = count_run ops 0 \<and> adc_exclsem u' = 1
    \<and> (adc_clocked l' \<longleftrightarrow> count_run ops 0 \<noteq> 0)"
proof -
  have "adc_exclsem u = 1" "adc_crefs u = 0"
    using assms(1) by (auto simp: adclm4f_register_def)
  then show ?thesis
    using ad.fresh_run [of "(u, l)" ops] assms(2) by (metis comp_apply fst_conv snd_conv surj_pair)
qed

theorem adc_device_counts_witness:
  "\<exists>u' l'. run_dev adclm4f_open adclm4f_close [(DevOpen, False)]
     (the (snd (adclm4f_register True 0)), \<lparr>adc_channel = 0, adc_nsamples = 0, adc_freq = 0\<rparr>, board_reset) =
       Some (u', l') \<and> adc_clocked l'"
  using adc_device_counts [of 0 "the (snd (adclm4f_register True 0))"
      "(\<lparr>adc_channel = 0, adc_nsamples = 0, adc_freq = 0\<rparr>, board_reset)" "[(DevOpen, False)]"]
  by (auto simp: adclm4f_register_def adc_clocked_def board_reset_def)

end
