(* ===== verification/Sensors.thy ===== *)
theory Sensors
  imports Range_Driver Adc_Driver
begin

text \<open>
  The sensor methods of \<^verbatim>\<open>MyCubInterface\<close> (\<^verbatim>\<open>apps/system/myCub/lib/mycub_interface.cpp\<close>) over the range and
  analog drivers: the distance is parsed out of the text the range driver writes, the battery
  voltage and current are averages of ten converter samples.
\<close>

section \<open>The distance\<close>

text \<open>
  \<^verbatim>\<open>getRange\<close>: None stands for the overflow of its 32-byte buffer.  The copy loop starts after the
  blank and includes the closing parenthesis, which the NUL then replaces.
\<close>

definition getRange :: "int \<Rightarrow> string \<Rightarrow> int option" where
  "getRange i str =
    (let dummy = ''('' @ show_int i @ '' ''
     in case strstr str dummy of
          None \<Rightarrow> Some 0
        | Some match \<Rightarrow>
            (let ptr = drop (length dummy - 1) match
             in if CHR '')'' \<notin> set ptr then Some 0
                else
                  let body = takeWhile (\<lambda>c. c \<noteq> CHR '')'') (tl ptr)
                  in if 32 < length body + 1 then None else Some (atoi body)))"

definition getDistance :: "int \<Rightarrow> bool list \<Rightarrow> u32 list \<Rightarrow> range_dev \<Rightarrow> int option \<times> range_dev" where
  "getDistance i ls ts d =
    (case range_read 128 ls ts d of
       (RangeText ret data, d') \<Rightarrow> (if 0 < ret then getRange i data else Some (- 1), d')
     | (_, d') \<Rightarrow> (None, d'))"

section \<open>The battery\<close>

text \<open>
  \<^verbatim>\<open>getRawAnalogData\<close>: the result of the ioctl is ignored, the read follows.
\<close>

definition getRawAnalogData :: "int \<Rightarrow> u32 \<Rightarrow> nat \<Rightarrow> u32 list list \<Rightarrow> adc_dev \<Rightarrow> (adc_result \<times> adc_dev) outcome" where
  "getRawAnalogData channel freq len fifos d =
    (case adclm4f_ioctl False ADCIOC_SETCONF
            \<lparr>adc_channel = word_of_int channel, adc_nsamples = of_nat len, adc_freq = freq\<rparr> d of
       Done ret d' \<Rightarrow> Done ret (adclm4f_read (len * 2) fifos d')
     | Blocked \<Rightarrow> Blocked
     | NullCall \<Rightarrow> NullCall)"

text \<open>
  The voltage in millivolts as the callers truncate it: sum / 10 * 0.00080586 * 11 * 1000, which is
  sum * 886446 / 1000000.  For the sums of ten 12-bit samples (at most 40950) this is an integer only
  at 0 and otherwise at least 1/500000 away from one, so the truncation of the \<^verbatim>\<open>double\<close> is this one.
\<close>

definition volt_mV :: "nat \<Rightarrow> int" where
  "volt_mV tot = int tot * 886446 div 1000000"

text \<open>
  The current in milliampere: (sum / 10 * 0.00080586 - 2.5) * 10 * 1000, truncated toward zero; again
  an integer only at 0 for these sums.
\<close>

definition current_mA :: "nat \<Rightarrow> int" where
  "current_mA tot = (int tot * 40293 - 25000 * 50000) sdiv 50000"

definition battery_samples :: "int \<Rightarrow> u32 list list \<Rightarrow> adc_dev \<Rightarrow> (nat option \<times> adc_dev) option" where
  "battery_samples channel fifos d =
    (case getRawAnalogData channel 1000 10 fifos d of
       Done ret (AdcSamples n out, d') \<Rightarrow>
         (if n \<le> 0 then Some (None, d')
          else if length out = 10 then Some (Some (sum_list (map unat out)), d')
          else None)
     | _ \<Rightarrow> None)"

text \<open>
  \<^verbatim>\<open>getBatteryVolt\<close> and \<^verbatim>\<open>getBatteryCurrent\<close> in thousandths; a failed read gives -1.0.  None stands for
  fewer than ten stored samples, where the code adds up uninitialised values, and for a read that
  does not return.
\<close>

definition getBatteryVolt :: "u32 list list \<Rightarrow> adc_dev \<Rightarrow> (int \<times> adc_dev) option" where
  "getBatteryVolt fifos d =
    (case battery_samples 6 fifos d of
       None \<Rightarrow> None
     | Some (None, d') \<Rightarrow> Some (- 1000, d')
     | Some (Some tot, d') \<Rightarrow> Some (volt_mV tot, d'))"

definition getBatteryCurrent :: "u32 list list \<Rightarrow> adc_dev \<Rightarrow> (int \<times> adc_dev) option" where
  "getBatteryCurrent fifos d =
    (case battery_samples 5 fifos d of
       None \<Rightarrow> None
     | Some (None, d') \<Rightarrow> Some (- 1000, d')
     | Some (Some tot, d') \<Rightarrow> Some (current_mA tot, d'))"

section \<open>Finding a reading in the text\<close>

lemma strstr_skip: "c \<notin> set xs \<Longrightarrow> strstr (xs @ ys) (c # needle) = strstr ys (c # needle)"
proof (induction xs)
  case (Cons x xs)
  then have "take (length (c # needle)) ((x # xs) @ ys) \<noteq> c # needle"
    by auto
  then show ?case
    using Cons by (auto simp: strstr.simps [of "x # xs @ ys"])
qed simp

lemma strstr_here: "strstr (needle @ ys) needle = Some (needle @ ys)"
  by (simp add: strstr.simps)

lemma show_nat_small: "i < 10 \<Longrightarrow> show_nat i = [digit_char i]"
  by (simp add: show_nat.simps)

lemma digit_char_inj: "i < 10 \<Longrightarrow> j < 10 \<Longrightarrow> digit_char i = digit_char j \<Longrightarrow> i = j"
  by (metis digit_val_digit_char)

lemma show_nat_plain: "c \<in> set (show_nat n) \<Longrightarrow> c \<noteq> CHR ''('' \<and> c \<noteq> CHR '')''"
  using show_nat_digits [of c n] by (auto simp: is_digit_def)

lemma strstr_entry_skip:
  assumes "i < 10" "k < 10" "i \<noteq> k"
  shows "strstr (range_entry k d @ ys) (''('' @ show_nat i @ '' '') = strstr ys (''('' @ show_nat i @ '' '')"
proof -
  let ?n = "''('' @ show_nat i @ '' ''"
  have "digit_char k \<noteq> digit_char i"
    using assms digit_char_inj by blast
  then have "strstr (range_entry k d @ ys) ?n = strstr (show_nat k @ '' '' @ show_nat d @ '') '' @ ys) ?n"
    using assms by (simp add: range_entry_def show_nat_small strstr.simps [of "CHR ''('' # _"])
  also have "\<dots> = strstr ((show_nat k @ '' '' @ show_nat d @ '') '') @ ys) ?n"
    by simp
  also have "\<dots> = strstr ys ?n"
    unfolding append_Cons append_Nil
    by (rule strstr_skip) (auto dest: show_nat_plain)
  finally show ?thesis .
qed

lemma getRange_entry:
  assumes "i < 4" "d < 4000"
  shows "getRange (int i) (range_entry i d @ ys) = Some (int d)"
proof -
  let ?n = "''('' @ show_nat i @ '' ''"
  have si: "show_int (int i) = show_nat i" "show_int (int d) = show_nat d"
    by (simp_all add: show_int_def)
  have "range_entry i d @ ys = ?n @ (show_nat d @ '') '' @ ys)"
    by (simp add: range_entry_def)
  then have m: "strstr (range_entry i d @ ys) ?n = Some (?n @ (show_nat d @ '') '' @ ys))"
    using strstr_here [of ?n] by simp
  have body: "takeWhile (\<lambda>c. c \<noteq> CHR '')'') (show_nat d @ '') '' @ ys) = show_nat d"
    by (subst takeWhile_append2) (auto dest: show_nat_plain)
  have "length (show_nat d) \<le> 4"
    using assms(2) length_show_nat [of d 4] by simp
  moreover have "atoi (show_nat d) = int d"
    using atoi_show_int_Nil [of "int d"] assms(2) by (simp add: si int32_def)
  moreover have "length (''('' @ show_nat i @ '' '') - 1 = 2"
    using assms(1) by (simp add: show_nat_small)
  moreover have "strstr (range_entry i d @ ys) [CHR ''('', digit_char i, CHR '' ''] =
      Some ([CHR ''('', digit_char i, CHR '' ''] @ (show_nat d @ '') '' @ ys))"
    using m assms(1) by (simp add: show_nat_small)
  ultimately show ?thesis
    using body assms(1) by (simp add: getRange_def si Let_def show_nat_small)
qed

lemma getRange_skip:
  assumes "i < 10" "k < 10" "i \<noteq> k"
  shows "getRange (int i) (range_entry k d @ ys) = getRange (int i) ys"
  using strstr_entry_skip [OF assms, of d ys] by (simp add: getRange_def show_int_def Let_def)

lemma getRange_Nil: "getRange i [] = Some 0"
  by (simp add: getRange_def strstr.simps Let_def)

text \<open>The reading of sensor \<^verbatim>\<open>i\<close> in a list of enabled sensors and their widths.\<close>

fun reading_of :: "nat \<Rightarrow> (nat \<times> range_t) list \<Rightarrow> u32 list \<Rightarrow> nat" where
  "reading_of i ((k, r) # irs) (w # ws) = (if i = k then range_shown w else reading_of i irs ws)"
| "reading_of i _ _ = 0"

lemma getRange_text:
  assumes "i < 4" "\<forall>(k, r) \<in> set irs. k < 4" "length ws = length irs"
  shows "getRange (int i) (range_text irs ws) = Some (int (reading_of i irs ws))"
  using assms
proof (induction i irs ws rule: reading_of.induct)
  case (1 i k r irs w ws)
  have "range_text ((k, r) # irs) (w # ws) = range_entry k (range_shown w) @ range_text irs ws"
    by (simp add: range_text_def)
  then show ?case
    using 1 getRange_entry [of i "range_shown w"] getRange_skip [of i k] range_shown_lt
    by (cases "i = k") auto
qed (auto simp: range_text_def getRange_Nil)

lemma range_text_empty: "length ws = length irs \<Longrightarrow> range_text irs ws = [] \<longleftrightarrow> irs = []"
  by (cases irs; cases ws) (auto simp: range_text_def range_entry_def)

lemma range_read_128:
  assumes "length rs = 4" "pulse_widths (length (enabled_ranges (zip [0..<4] rs))) ls ts = Some ws"
  shows "\<exists>b'. range_read 128 ls ts (u, rs, b) =
      (let s = range_text (enabled_ranges (zip [0..<4] rs)) ws
       in (RangeText (if s = [] then 0 else int (length s) + 1) s, u, rs, b'))"
proof -
  have "\<forall>(i, r) \<in> set (zip [0..<4] rs). i < 4"
    by (auto dest: set_zip_leftD)
  from up_range_loop_text [OF assms(2) this, of "[]" 128 "sched_lock b"] assms(1)
  show ?thesis
    by (auto simp: range_read_def up_range_read_def Let_def)
qed

section \<open>Properties\<close>

text \<open>
  C24.  The distance the application reports is the one the driver measured: for every set of attached
  sensors whose echoes are all measured, \<^verbatim>\<open>getDistance\<close> of sensor \<^verbatim>\<open>i\<close> returns the reading of that very
  sensor (0 when it is not attached, or farther than the limit), and -1 when no sensor is attached.
\<close>

theorem getDistance_reading:
  assumes "length rs = 4" "i < 4"
    and "pulse_widths (length (enabled_ranges (zip [0..<4] rs))) ls ts = Some ws"
  shows "fst (getDistance (int i) ls ts (u, rs, b)) =
    Some (if enabled_ranges (zip [0..<4] rs) = [] then - 1
          else int (reading_of i (enabled_ranges (zip [0..<4] rs)) ws))"
proof -
  have len: "length ws = length (enabled_ranges (zip [0..<4] rs))"
    by (rule length_pulse_widths [OF assms(3)])
  have lt: "\<forall>(k, r) \<in> set (enabled_ranges (zip [0..<4] rs)). k < 4"
    by (auto simp: enabled_ranges_def dest: set_zip_leftD)
  obtain b' where "range_read 128 ls ts (u, rs, b) =
      (let s = range_text (enabled_ranges (zip [0..<4] rs)) ws
       in (RangeText (if s = [] then 0 else int (length s) + 1) s, u, rs, b'))"
    using range_read_128 [OF assms(1,3)] by blast
  then show ?thesis
    using getRange_text [OF assms(2) lt len] range_text_empty [OF len]
    by (simp add: getDistance_def Let_def)
qed

theorem getDistance_reading_witness:
  "fst (getDistance 0 [False, False, True, True, False] [0, 100, 200, 40985]
      (the (snd (range_register True 0)), one_range, board_reset)) = Some 91"
proof -
  have en: "enabled_ranges (zip [0..<4] one_range) = [(0, range_zero\<lparr>range_state := RANGE_STATE_ENABLED\<rparr>)]"
    by (simp add: enabled_ranges_def one_range_def range_zero_def upt_rec)
  have "pulse_widths 1 [False, False, True, True, False] [0, 100, 200, 40985] = Some [481]"
    by (simp add: pulse_in_def)
  then show ?thesis
    using getDistance_reading [of one_range 0 "[False, False, True, True, False]" "[0, 100, 200, 40985]" "[481]"
        "the (snd (range_register True 0))" board_reset]
    by (simp add: en) (simp add: one_range_def range_shown_def range_dist_def)
qed

section \<open>The battery measurement\<close>

lemma getRawAnalogData_samples:
  assumes "adc_exclsem u = 1" "unat (word_of_int channel :: u8) < 12" "freq \<noteq> 0" "len < 2 ^ 32" "length ws = len"
  shows "\<exists>d'. getRawAnalogData channel freq len (map (\<lambda>w. [w]) ws) (u, l) =
    Done 0 (AdcSamples (int len) (map ucast ws), d')"
proof -
  define info :: adclm4f_info_s where
    "info = \<lparr>adc_channel = word_of_int channel, adc_nsamples = of_nat len, adc_freq = freq\<rparr>"
  obtain g b where l: "l = (g, b)"
    by (cases l)
  obtain b1 where cfg: "up_adclm4f_configure info (g, b) = (0, info, b1)"
    using assms(2) by (simp add: up_adclm4f_configure_def info_def Let_def)
  have "unat (adc_nsamples info) = len"
    using assms(4) by (simp add: info_def unat_of_nat)
  then obtain m' where "up_adclm4f_loop (unat (adc_nsamples info)) (len * 2) 0 None [] (map (\<lambda>w. [w]) ws) (regs b1) =
      (AdcSamples (int len) (map ucast ws), m')"
    using up_adclm4f_loop_samples [of len "len * 2" 0 len ws None "[]" "regs b1"] assms(5) by auto
  then show ?thesis
    using assms(1,3) cfg
    by (simp add: getRawAnalogData_def adclm4f_ioctl_def adclm4f_read_def up_adclm4f_read_def l cpu_defs Let_def
        flip: info_def) (simp add: info_def)
qed

lemma unat_ucast_sample: "w \<le> 4095 \<Longrightarrow> unat (ucast w :: u16) = unat (w :: u32)"
  by (simp add: unsigned_ucast_eq take_bit_nat_eq_self_iff word_le_nat_alt)

lemma sum_samples:
  "\<forall>w\<in>set ws. w \<le> 4095 \<Longrightarrow> sum_list (map unat (map ucast ws :: u16 list)) = sum_list (map unat (ws :: u32 list))"
  by (induction ws) (auto simp: unat_ucast_sample)

lemma sum_samples_le:
  "\<forall>w\<in>set ws. w \<le> 4095 \<Longrightarrow> sum_list (map unat (ws :: u32 list)) \<le> 4095 * length ws"
  by (induction ws) (auto simp: word_le_nat_alt)

lemma battery_samples_ok:
  assumes "adc_exclsem u = 1" "channel \<in> {5, 6}" "length ws = 10" "\<forall>w\<in>set ws. w \<le> 4095"
  shows "\<exists>d'. battery_samples channel (map (\<lambda>w. [w]) ws) (u, l) = Some (Some (sum_list (map unat ws)), d')"
proof -
  obtain d' where "getRawAnalogData channel 1000 10 (map (\<lambda>w. [w]) ws) (u, l) =
      Done 0 (AdcSamples (int 10) (map ucast ws), d')"
    using getRawAnalogData_samples [OF assms(1) _ _ _ assms(3), of channel 1000 l] assms(2) by auto
  then show ?thesis
    using sum_samples [OF assms(4)] assms(3) by (simp add: battery_samples_def del: split_paired_Ex)
qed

text \<open>
  The battery measurement: from ten 12-bit samples the voltage in millivolts is the average times
  0.80586 mV times the divider's 11, rounded down, between 0 and 36.3 V; the current in milliampere is
  10 times the average's distance from 2.5 V, between -25 A and 8 A.
\<close>

theorem battery_measurement:
  assumes "adc_exclsem u = 1" "length ws = 10" "\<forall>w\<in>set ws. w \<le> 4095"
  shows "\<exists>v i d1 d2. getBatteryVolt (map (\<lambda>w. [w]) ws) (u, l) = Some (v, d1)
    \<and> getBatteryCurrent (map (\<lambda>w. [w]) ws) (u, l) = Some (i, d2)
    \<and> 1000000 * v \<le> 886446 * int (sum_list (map unat ws)) \<and> 886446 * int (sum_list (map unat ws)) < 1000000 * (v + 1)
    \<and> \<bar>50000 * i - (40293 * int (sum_list (map unat ws)) - 25000 * 50000)\<bar> < 50000
    \<and> 0 \<le> v \<and> v < 36300 \<and> - 25000 \<le> i \<and> i < 8000"
proof -
  define n where "n = int (sum_list (map unat ws))"
  have n: "0 \<le> n" "n \<le> 40950"
    using sum_samples_le [OF assms(3)] assms(2) by (simp_all add: n_def)
  obtain d1 where v: "getBatteryVolt (map (\<lambda>w. [w]) ws) (u, l) = Some (n * 886446 div 1000000, d1)"
    using battery_samples_ok [OF assms(1) _ assms(2,3), of 6 l]
    by (auto simp: getBatteryVolt_def volt_mV_def n_def)
  obtain d2 where i: "getBatteryCurrent (map (\<lambda>w. [w]) ws) (u, l) = Some ((n * 40293 - 25000 * 50000) sdiv 50000, d2)"
    using battery_samples_ok [OF assms(1) _ assms(2,3), of 5 l]
    by (auto simp: getBatteryCurrent_def current_mA_def n_def)
  define c where "c = (n * 40293 - 25000 * 50000 :: int)"
  have sd: "c sdiv 50000 = (if 0 \<le> c then c div 50000 else - ((- c) div 50000))"
    by (auto simp: signed_divide_int_def sgn_if)
  have "\<bar>50000 * (c sdiv 50000) - c\<bar> < 50000" "- 25000 \<le> c sdiv 50000" "c sdiv 50000 < 8000"
    unfolding sd using n by (auto simp: c_def)
  moreover have "1000000 * (n * 886446 div 1000000) \<le> 886446 * n" "886446 * n < 1000000 * (n * 886446 div 1000000 + 1)"
      "0 \<le> n * 886446 div 1000000" "n * 886446 div 1000000 < 36300"
    using n by auto
  ultimately show ?thesis
    using v i unfolding n_def [symmetric] c_def by (intro exI conjI) (auto simp: mult.commute)
qed

theorem battery_measurement_witness:
  "\<exists>v i d1 d2. getBatteryVolt (replicate 10 [900]) (the (snd (adclm4f_register True 0)),
      \<lparr>adc_channel = 0, adc_nsamples = 0, adc_freq = 0\<rparr>, board_reset) = Some (v, d1)
    \<and> getBatteryCurrent (replicate 10 [900]) (the (snd (adclm4f_register True 0)),
      \<lparr>adc_channel = 0, adc_nsamples = 0, adc_freq = 0\<rparr>, board_reset) = Some (i, d2)
    \<and> v = 7978"
proof -
  have "replicate 10 [900] = map (\<lambda>w. [w]) (replicate 10 (900 :: u32))" "sum_list (map unat (replicate 10 (900 :: u32))) = 9000"
    by (simp_all add: map_replicate sum_list_replicate)
  then show ?thesis
    using battery_measurement [of "the (snd (adclm4f_register True 0))" "replicate 10 900"
        "(\<lparr>adc_channel = 0, adc_nsamples = 0, adc_freq = 0\<rparr>, board_reset)"]
    by (force simp: adclm4f_register_def)
qed

end
