(* ===== verification/I2c_Driver.thy ===== *)
theory I2c_Driver
  imports Lm4f_Board
begin

text \<open>
  The I2C master driver (\<^verbatim>\<open>configs/lm4f120-launchpad/src/up_i2c.c\<close>, configured with port 1 only) and
  the routines of the driver library's \<^verbatim>\<open>i2c.c\<close> it calls.  A transfer is described by the writes it
  makes to the master's address, data and control registers, in order, and by what the hardware
  answers: for each wait for the end of a transfer, the values of the status and data registers.
  A list of answers that runs out stands for a bus that stays busy.
\<close>

section \<open>The master's registers\<close>

abbreviation (input) I2C1_MASTER_BASE :: u32 where "I2C1_MASTER_BASE \<equiv> 0x40021000"
abbreviation (input) I2C_O_MTPR :: u32 where "I2C_O_MTPR \<equiv> 0x0C"
abbreviation (input) I2C_O_MCR :: u32 where "I2C_O_MCR \<equiv> 0x20"
abbreviation (input) I2C_O_PP :: u32 where "I2C_O_PP \<equiv> 0xFC0"

abbreviation (input) I2C_MASTER_CMD_SINGLE_SEND :: u32 where "I2C_MASTER_CMD_SINGLE_SEND \<equiv> 0x07"
abbreviation (input) I2C_MASTER_CMD_SINGLE_RECEIVE :: u32 where "I2C_MASTER_CMD_SINGLE_RECEIVE \<equiv> 0x07"
abbreviation (input) I2C_MASTER_CMD_BURST_SEND_START :: u32 where "I2C_MASTER_CMD_BURST_SEND_START \<equiv> 0x03"
abbreviation (input) I2C_MASTER_CMD_BURST_SEND_CONT :: u32 where "I2C_MASTER_CMD_BURST_SEND_CONT \<equiv> 0x01"
abbreviation (input) I2C_MASTER_CMD_BURST_SEND_FINISH :: u32 where "I2C_MASTER_CMD_BURST_SEND_FINISH \<equiv> 0x05"
abbreviation (input) I2C_MASTER_CMD_BURST_RECEIVE_START :: u32 where "I2C_MASTER_CMD_BURST_RECEIVE_START \<equiv> 0x0b"
abbreviation (input) I2C_MASTER_CMD_BURST_RECEIVE_CONT :: u32 where "I2C_MASTER_CMD_BURST_RECEIVE_CONT \<equiv> 0x09"
abbreviation (input) I2C_MASTER_CMD_BURST_RECEIVE_FINISH :: u32 where "I2C_MASTER_CMD_BURST_RECEIVE_FINISH \<equiv> 0x05"

datatype i2c_op = MSA u32 | MDR u32 | MCS u32

definition I2CMasterSlaveAddrSet :: "u8 \<Rightarrow> bool \<Rightarrow> i2c_op" where
  "I2CMasterSlaveAddrSet ucSlaveAddr bReceive =
    MSA (push_bit 1 (ucast ucSlaveAddr) OR (if bReceive then 1 else 0))"

definition I2CMasterDataPut :: "u8 \<Rightarrow> i2c_op" where
  "I2CMasterDataPut ucData = MDR (ucast ucData)"

definition I2CMasterControl :: "u32 \<Rightarrow> i2c_op" where
  "I2CMasterControl ulCmd = MCS ulCmd"

text \<open>The error code in a value of the status register: BUSY 1, ERROR 2, ADRACK 4, DATACK 8, ARBLST 16.\<close>

definition I2CMasterErr :: "u32 \<Rightarrow> u32" where
  "I2CMasterErr ulErr =
    (if ulErr AND 0x01 \<noteq> 0 then 0
     else if ulErr AND (0x02 OR 0x10) \<noteq> 0 then ulErr AND (0x10 OR 0x08 OR 0x04)
     else 0)"

definition I2CMasterEnable :: "u32 \<Rightarrow> mmio \<Rightarrow> mmio" where
  "I2CMasterEnable ulBase = HWREG_or (ulBase + I2C_O_MCR) 0x10"

definition I2CMasterInitExpClk :: "u32 \<Rightarrow> u32 \<Rightarrow> bool \<Rightarrow> mmio \<Rightarrow> mmio" where
  "I2CMasterInitExpClk ulBase ulI2CClk bFast m0 =
    (let m1 = I2CMasterEnable ulBase m0;
         ulSCLFreq = (if bFast then 400000 else 100000);
         ulTPR = ((ulI2CClk + (2 * 10 * ulSCLFreq) - 1) div (2 * 10 * ulSCLFreq)) - 1;
         m2 = HWREG_write (ulBase + I2C_O_MTPR) ulTPR m1
     in if m2 (ulBase + I2C_O_PP) AND 0x01 \<noteq> 0
        then HWREG_write (ulBase + I2C_O_MTPR)
               (0x80 OR (((ulI2CClk + (2 * 3 * 3400000) - 1) div (2 * 3 * 3400000)) - 1)) m2
        else m2)"

section \<open>The driver\<close>

record lm4f_i2cdev_s =
  i2c_base :: u32
  i2c_address :: u8
  i2c_nbits :: u8

definition i2c_setfrequency :: "u32 \<Rightarrow> lm4f_i2cdev_s \<Rightarrow> u32 \<Rightarrow> mmio \<Rightarrow> u32 \<times> mmio" where
  "i2c_setfrequency clk priv frequency m =
    (if frequency = 400 then (400, I2CMasterInitExpClk (i2c_base priv) clk True m)
     else (frequency, I2CMasterInitExpClk (i2c_base priv) clk False m))"

definition i2c_setaddress :: "lm4f_i2cdev_s \<Rightarrow> int \<Rightarrow> int \<Rightarrow> lm4f_i2cdev_s" where
  "i2c_setaddress priv addr nbits =
    priv\<lparr>i2c_address := word_of_int addr, i2c_nbits := word_of_int nbits\<rparr>"

text \<open>
  The result of a transfer: the return value with the bytes received and the register writes made,
  or the writes made before the bus stayed busy for ever.
\<close>

datatype transfer = Transfer int "u8 list" "i2c_op list" | BusHangs "i2c_op list"

type_synonym i2c_answers = "(u32 \<times> u32) list"

text \<open>
  The loop of \<^verbatim>\<open>i2c_write\<close>.  The counter is a \<^verbatim>\<open>uint8_t\<close> compared with an \<^verbatim>\<open>int\<close>; \<^verbatim>\<open>cmd\<close> is
  \<^verbatim>\<open>MasterOptionCommand\<close>, which keeps its value from one round to the next.
\<close>

definition send_command :: "u8 \<Rightarrow> int \<Rightarrow> u32 \<Rightarrow> u32" where
  "send_command n buflen cmd0 =
    (let cmd1 = (if n = 1 then I2C_MASTER_CMD_BURST_SEND_CONT else cmd0);
         cmd2 = (if uint n = buflen - 1 then I2C_MASTER_CMD_BURST_SEND_FINISH else cmd1)
     in if buflen = 1 then I2C_MASTER_CMD_SINGLE_SEND else cmd2)"

fun i2c_write_loop :: "u8 list \<Rightarrow> u8 \<Rightarrow> u32 \<Rightarrow> i2c_answers \<Rightarrow> i2c_op list \<Rightarrow> transfer" where
  "i2c_write_loop buffer n cmd [] ops =
    (if uint n < int (length buffer)
     then BusHangs (ops @ [I2CMasterDataPut (buffer ! unat n),
                           I2CMasterControl (send_command n (int (length buffer)) cmd)])
     else Transfer 0 [] ops)"
| "i2c_write_loop buffer n cmd ((mcs, mdr) # as) ops =
    (if uint n < int (length buffer) then
       let cmd' = send_command n (int (length buffer)) cmd;
           ops' = ops @ [I2CMasterDataPut (buffer ! unat n), I2CMasterControl cmd']
       in if I2CMasterErr mcs \<noteq> 0 then Transfer (- ETIMEDOUT) [] ops'
          else i2c_write_loop buffer (n + 1) cmd' as ops'
     else Transfer 0 [] ops)"

text \<open>The first answer is to the wait for an idle bus, the second to the register byte.\<close>

definition i2c_write :: "lm4f_i2cdev_s \<Rightarrow> u8 list \<Rightarrow> i2c_answers \<Rightarrow> transfer" where
  "i2c_write priv buffer answers =
    (case answers of
       [] \<Rightarrow> BusHangs []
     | _ # answers1 \<Rightarrow>
         (let ops = [I2CMasterSlaveAddrSet (i2c_address priv) False, I2CMasterDataPut (i2c_nbits priv),
                     I2CMasterControl I2C_MASTER_CMD_BURST_SEND_START]
          in case answers1 of
               [] \<Rightarrow> BusHangs ops
             | (mcs, mdr) # answers2 \<Rightarrow>
                 if I2CMasterErr mcs \<noteq> 0 then Transfer (- ETIMEDOUT) [] ops
                 else i2c_write_loop buffer 0 I2C_MASTER_CMD_BURST_SEND_CONT answers2 ops))"

definition receive_command :: "u8 \<Rightarrow> int \<Rightarrow> u32 \<Rightarrow> u32" where
  "receive_command n buflen cmd0 =
    (let cmd1 = (if n = 1 then I2C_MASTER_CMD_BURST_RECEIVE_CONT else cmd0);
         cmd2 = (if uint n = buflen - 1 then I2C_MASTER_CMD_BURST_RECEIVE_FINISH else cmd1)
     in if buflen = 1 then I2C_MASTER_CMD_SINGLE_RECEIVE else cmd2)"

text \<open>
  \<^verbatim>\<open>buffer[n] = v\<close>, where the list holds the bytes stored so far; the counter wraps at 256, and then
  overwrites them from the start.
\<close>

definition store_byte :: "nat \<Rightarrow> u8 \<Rightarrow> u8 list \<Rightarrow> u8 list" where
  "store_byte n v got = (if n < length got then got[n := v] else got @ [v])"

fun i2c_read_loop :: "int \<Rightarrow> u8 \<Rightarrow> u32 \<Rightarrow> i2c_answers \<Rightarrow> u8 list \<Rightarrow> i2c_op list \<Rightarrow> transfer" where
  "i2c_read_loop buflen n cmd [] got ops =
    (if uint n < buflen then BusHangs (ops @ [I2CMasterControl (receive_command n buflen cmd)])
     else Transfer 0 got ops)"
| "i2c_read_loop buflen n cmd ((mcs, mdr) # as) got ops =
    (if uint n < buflen then
       let cmd' = receive_command n buflen cmd; ops' = ops @ [I2CMasterControl cmd']
       in if I2CMasterErr mcs \<noteq> 0 then Transfer (- ETIMEDOUT) got ops'
          else i2c_read_loop buflen (n + 1) cmd' as (store_byte (unat n) (ucast mdr) got) ops'
     else Transfer 0 got ops)"

definition i2c_read :: "lm4f_i2cdev_s \<Rightarrow> int \<Rightarrow> i2c_answers \<Rightarrow> transfer" where
  "i2c_read priv buflen answers =
    (case answers of
       [] \<Rightarrow> BusHangs []
     | _ # answers1 \<Rightarrow>
         (let ops = [I2CMasterSlaveAddrSet (i2c_address priv) False, I2CMasterDataPut (i2c_nbits priv),
                     I2CMasterControl I2C_MASTER_CMD_SINGLE_SEND]
          in case answers1 of
               [] \<Rightarrow> BusHangs ops
             | (mcs, mdr) # answers2 \<Rightarrow>
                 if I2CMasterErr mcs \<noteq> 0 then Transfer (- ETIMEDOUT) [] ops
                 else i2c_read_loop buflen 0 I2C_MASTER_CMD_BURST_RECEIVE_START answers2 []
                        (ops @ [I2CMasterSlaveAddrSet (i2c_address priv) True])))"

text \<open>
  \<^verbatim>\<open>up_i2cinitialize\<close> with \<^verbatim>\<open>CONFIG_LMM4F_I2C1\<close> only; the part is not of one of the classes whose SCL pin
  \<^verbatim>\<open>GPIOPinTypeI2CSCL\<close> makes open drain.
\<close>

definition GPIOPinTypeI2CSCL :: "u32 \<Rightarrow> u8 \<Rightarrow> mmio \<Rightarrow> mmio" where
  "GPIOPinTypeI2CSCL ulPort ucPins m =
    GPIOPadConfigSet ulPort ucPins 1 8 (GPIODirModeSet ulPort ucPins 2 m)"

definition up_i2cinitialize :: "int \<Rightarrow> lm4f_i2cdev_s \<Rightarrow> mmio \<Rightarrow> lm4f_i2cdev_s option \<times> mmio" where
  "up_i2cinitialize port g_i2c1dev m0 =
    (if 3 < port then (None, m0)
     else if port = 1 then
       (let m1 = SysCtlPeripheralEnable 0x20000001 m0;
            m2 = GPIOPinTypeI2CSCL GPIO_PORTA_BASE 0x40 m1;
            m3 = GPIOPinTypeI2C GPIO_PORTA_BASE 0x80 m2;
            m4 = GPIOPinConfigure 0x00001803 m3;
            m5 = GPIOPinConfigure 0x00001C03 m4;
            m6 = SysCtlPeripheralEnable 0x10004000 m5
        in (Some (g_i2c1dev\<lparr>i2c_base := I2C1_MASTER_BASE\<rparr>), m6))
     else (None, m0))"

definition up_i2cuninitialize :: "lm4f_i2cdev_s \<Rightarrow> int" where
  "up_i2cuninitialize dev = 0"

section \<open>The transactions on the bus\<close>

text \<open>
  What the master puts on the wire for a sequence of register writes: a control word with the START
  bit (2) sends a (repeated) start condition with the address register, the RUN bit (1) moves one
  byte in the direction the address register gives, the STOP bit (4) ends the transaction.
\<close>

datatype bus_event = Start u32 | Send u32 | Receive | Stop

fun bus :: "u32 \<Rightarrow> u32 \<Rightarrow> i2c_op list \<Rightarrow> bus_event list" where
  "bus msa mdr [] = []"
| "bus msa mdr (MSA v # ops) = bus v mdr ops"
| "bus msa mdr (MDR v # ops) = bus msa v ops"
| "bus msa mdr (MCS c # ops) =
    (if bit c 1 then [Start msa] else []) @ (if bit c 0 then [if bit msa 0 then Receive else Send mdr] else [])
    @ (if bit c 2 then [Stop] else []) @ bus msa mdr ops"

definition write_addr :: "lm4f_i2cdev_s \<Rightarrow> u32" where
  "write_addr priv = push_bit 1 (ucast (i2c_address priv))"

definition read_addr :: "lm4f_i2cdev_s \<Rightarrow> u32" where
  "read_addr priv = push_bit 1 (ucast (i2c_address priv)) OR 1"

definition no_errors :: "i2c_answers \<Rightarrow> bool" where
  "no_errors as \<longleftrightarrow> (\<forall>a\<in>set as. I2CMasterErr (fst a) = 0)"

lemma no_errors_Cons [simp]: "no_errors (a # as) \<longleftrightarrow> I2CMasterErr (fst a) = 0 \<and> no_errors as"
  by (simp add: no_errors_def)

lemma cmd_bits [simp]:
  "bit (7 :: u32) 0" "bit (7 :: u32) (Suc 0)" "bit (7 :: u32) 2"
  "bit (5 :: u32) 0" "\<not> bit (5 :: u32) (Suc 0)" "bit (5 :: u32) 2"
  "bit (3 :: u32) 0" "bit (3 :: u32) (Suc 0)" "\<not> bit (3 :: u32) 2"
  "bit (11 :: u32) 0" "bit (11 :: u32) (Suc 0)" "\<not> bit (11 :: u32) 2"
  "bit (9 :: u32) 0" "\<not> bit (9 :: u32) (Suc 0)" "\<not> bit (9 :: u32) 2"
  "bit (1 :: u32) 0" "\<not> bit (1 :: u32) (Suc 0)" "\<not> bit (1 :: u32) 2"
  by (simp_all add: bit_iff_odd)

lemma i2c_addr_bits [simp]: "\<not> bit (write_addr priv) 0" "bit (read_addr priv) 0"
  by (simp add: write_addr_def bit_0) (simp add: read_addr_def bit_or_iff)

lemma u8_of_nat: "k \<le> 255 \<Longrightarrow> unat (of_nat k :: u8) = k" "k \<le> 255 \<Longrightarrow> uint (of_nat k :: u8) = int k"
  by (simp_all add: unat_of_nat uint_nat)

text \<open>The control words of a burst of at least two bytes.\<close>

lemma send_command_burst:
  "2 \<le> len \<Longrightarrow> k < len \<Longrightarrow> len \<le> 255 \<Longrightarrow> send_command (of_nat k) (int len) 1 = (if k = len - 1 then 5 else 1)"
  by (auto simp: send_command_def Let_def u8_of_nat)

definition burst_ops :: "u8 list \<Rightarrow> nat \<Rightarrow> i2c_op list" where
  "burst_ops buffer k = concat (map (\<lambda>i. [MDR (ucast (buffer ! i)), MCS (if i = length buffer - 1 then 5 else 1)])
     [k..<length buffer])"

lemma i2c_write_loop_burst:
  assumes "2 \<le> length buffer" "length buffer \<le> 255" "no_errors as" "length as = length buffer - k"
    and "k \<le> length buffer" "k < length buffer \<longrightarrow> cmd = 1"
  shows "i2c_write_loop buffer (of_nat k) cmd as ops = Transfer 0 [] (ops @ burst_ops buffer k)"
  using assms
proof (induction as arbitrary: k cmd ops)
  case Nil
  then show ?case
    by (simp add: u8_of_nat burst_ops_def)
next
  case (Cons a as)
  obtain mcs mdr where a: "a = (mcs, mdr)"
    by (cases a)
  define c where "c = (if k = length buffer - 1 then 5 else 1 :: u32)"
  have k: "k < length buffer"
    using Cons.prems by auto
  have "i2c_write_loop buffer (of_nat (Suc k)) c as ops' = Transfer 0 [] (ops' @ burst_ops buffer (Suc k))" for ops'
    by (rule Cons.IH) (use Cons.prems k in \<open>auto simp: c_def\<close>)
  moreover have "burst_ops buffer k = [MDR (ucast (buffer ! k)), MCS c] @ burst_ops buffer (Suc k)"
    by (simp add: burst_ops_def upt_conv_Cons [OF k] c_def)
  moreover have "i2c_write_loop buffer (of_nat k) cmd (a # as) ops =
      i2c_write_loop buffer (of_nat k + 1) c as (ops @ [MDR (ucast (buffer ! k)), MCS c])"
    using Cons.prems k
    by (simp add: a u8_of_nat send_command_burst c_def I2CMasterDataPut_def I2CMasterControl_def Let_def)
  ultimately show ?case
    by (simp add: add.commute)
qed

lemma bus_burst:
  assumes "\<not> bit msa 0"
  shows "k \<le> length buffer \<Longrightarrow> bus msa mdr (burst_ops buffer k) =
    map (\<lambda>b. Send (ucast b)) (drop k buffer) @ (if k < length buffer then [Stop] else [])"
proof (induction "length buffer - k" arbitrary: k mdr)
  case 0
  then show ?case
    by (simp add: burst_ops_def)
next
  case (Suc n)
  then have k: "k < length buffer"
    by simp
  have burst: "burst_ops buffer k = [MDR (ucast (buffer ! k)), MCS (if k = length buffer - 1 then 5 else 1)]
      @ burst_ops buffer (Suc k)"
    by (simp add: burst_ops_def upt_conv_Cons [OF k])
  have "bus msa (ucast (buffer ! k)) (burst_ops buffer (Suc k)) =
      map (\<lambda>b. Send (ucast b)) (drop (Suc k) buffer) @ (if Suc k < length buffer then [Stop] else [])"
    using Suc k by simp
  moreover have "drop k buffer = buffer ! k # drop (Suc k) buffer"
    using k by (simp add: Cons_nth_drop_Suc)
  ultimately show ?case
    using k assms by (auto simp: burst)
qed

text \<open>The receiving loop.\<close>

lemma u8_of_nat_eq_1: "k \<le> 255 \<Longrightarrow> (of_nat k :: u8) = 1 \<longleftrightarrow> k = 1"
  by (simp add: word_unat_eq_iff u8_of_nat)

definition receive_ops :: "nat \<Rightarrow> nat \<Rightarrow> i2c_op list" where
  "receive_ops len k = map (\<lambda>i. MCS (if i = 0 then 11 else if i = len - 1 then 5 else 9)) [k..<len]"

lemma i2c_read_loop_burst:
  assumes "2 \<le> len" "len \<le> 255" "no_errors as" "length as = len - k" "k \<le> len" "length got = k"
    and "k < len \<longrightarrow> cmd = (if k \<le> 1 then 11 else 9)"
  shows "i2c_read_loop (int len) (of_nat k) cmd as got ops =
    Transfer 0 (got @ map (\<lambda>a. ucast (snd a)) as) (ops @ receive_ops len k)"
  using assms
proof (induction as arbitrary: k cmd got ops)
  case Nil
  then show ?case
    by (simp add: u8_of_nat receive_ops_def)
next
  case (Cons a as)
  obtain mcs mdr where a: "a = (mcs, mdr)"
    by (cases a)
  define c where "c = (if k = 0 then 11 else if k = len - 1 then 5 else 9 :: u32)"
  have k: "k < len"
    using Cons.prems by auto
  have "receive_command (of_nat k) (int len) cmd = c"
    using Cons.prems k by (auto simp: receive_command_def Let_def u8_of_nat u8_of_nat_eq_1 c_def)
  then have "i2c_read_loop (int len) (of_nat k) cmd (a # as) got ops =
      i2c_read_loop (int len) (of_nat k + 1) c as (got @ [ucast mdr]) (ops @ [MCS c])"
    using Cons.prems k by (simp add: a u8_of_nat I2CMasterControl_def Let_def store_byte_def)
  moreover have "i2c_read_loop (int len) (of_nat (Suc k)) c as (got @ [ucast mdr]) (ops @ [MCS c]) =
      Transfer 0 ((got @ [ucast mdr]) @ map (\<lambda>a. ucast (snd a)) as) ((ops @ [MCS c]) @ receive_ops len (Suc k))"
    by (rule Cons.IH) (use Cons.prems k in \<open>auto simp: c_def\<close>)
  moreover have "receive_ops len k = MCS c # receive_ops len (Suc k)"
    by (simp add: receive_ops_def upt_conv_Cons [OF k] c_def)
  ultimately show ?case
    by (simp add: a add.commute)
qed

lemma bus_receive:
  assumes "bit msa 0" "2 \<le> len"
  shows "bus msa mdr (receive_ops len 0) = Start msa # replicate len Receive @ [Stop]"
proof -
  have "bus msa mdr (receive_ops len k) = replicate (len - k) Receive @ (if k < len then [Stop] else [])"
    if "1 \<le> k" "k \<le> len" for k
    using that
  proof (induction "len - k" arbitrary: k)
    case 0
    then show ?case
      by (simp add: receive_ops_def)
  next
    case (Suc n)
    then have k: "k < len"
      by simp
    have "receive_ops len k = MCS (if k = len - 1 then 5 else 9) # receive_ops len (Suc k)"
      using Suc.prems by (simp add: receive_ops_def upt_conv_Cons [OF k])
    moreover have "len - k = Suc (len - Suc k)"
      using k by simp
    ultimately show ?case
      using Suc.hyps(1) [of "Suc k"] Suc.hyps(2) Suc.prems assms(1) k by auto
  qed
  from this [of 1] have "bus msa mdr (receive_ops len 1) = replicate (len - 1) Receive @ [Stop]"
    using assms(2) by simp
  moreover have "receive_ops len 0 = MCS 11 # receive_ops len 1"
    using assms(2) by (simp add: receive_ops_def upt_conv_Cons)
  moreover have "replicate len Receive = Receive # replicate (len - 1) Receive"
    using assms(2) by (cases len) auto
  ultimately show ?thesis
    using assms(1) by simp
qed

lemma i2c_read_burst:
  assumes "2 \<le> n" "n \<le> 255" "length answers = n" "no_errors (r # answers)"
  shows "i2c_read priv (int n) (idle # r # answers) = Transfer 0 (map (\<lambda>a. ucast (snd a)) answers)
      ([MSA (write_addr priv), MDR (ucast (i2c_nbits priv)), MCS 7, MSA (read_addr priv)] @ receive_ops n 0)"
proof -
  obtain mcs mdr where r: "r = (mcs, mdr)"
    by (cases r)
  have "i2c_read_loop (int n) (of_nat 0) 11 answers [] ops0 =
      Transfer 0 ([] @ map (\<lambda>a. ucast (snd a)) answers) (ops0 @ receive_ops n 0)" for ops0
    by (rule i2c_read_loop_burst) (use assms in auto)
  then show ?thesis
    using assms(4) by (simp add: i2c_read_def r I2CMasterSlaveAddrSet_def I2CMasterDataPut_def
        I2CMasterControl_def write_addr_def read_addr_def)
qed

text \<open>The first error ends the receiving loop, with the bytes stored so far.\<close>

lemma i2c_read_loop_error:
  assumes "no_errors as" "I2CMasterErr (fst e) \<noteq> 0" "k + length as < len" "len \<le> 255" "length got = k"
  shows "\<exists>ops'. i2c_read_loop (int len) (of_nat k) cmd (as @ e # rest) got ops =
    Transfer (- ETIMEDOUT) (got @ map (\<lambda>a. ucast (snd a)) as) ops'"
  using assms
proof (induction as arbitrary: k cmd got ops)
  case Nil
  then show ?case
    by (cases e) (simp add: u8_of_nat Let_def)
next
  case (Cons a as)
  have "\<exists>ops'. i2c_read_loop (int len) (of_nat (Suc k)) c (as @ e # rest) (got @ [ucast (snd a)]) ops0 =
      Transfer (- ETIMEDOUT) ((got @ [ucast (snd a)]) @ map (\<lambda>a. ucast (snd a)) as) ops'" for c ops0
    by (rule Cons.IH) (use Cons.prems in auto)
  then show ?case
    using Cons.prems by (cases a) (simp add: u8_of_nat Let_def store_byte_def add.commute)
qed

section \<open>Properties\<close>

text \<open>
  C15.  Reading 2 to 255 bytes from a device that acknowledges everything succeeds and stores the bytes
  in the order they arrive; on the bus it is the register number in one transaction and then one
  transaction that receives exactly that many bytes between one start and one stop condition.
\<close>

theorem i2c_read_bytes:
  assumes "2 \<le> n" "n \<le> 255" "length answers = n" "no_errors (r # answers)"
  shows "\<exists>ops. i2c_read priv (int n) (idle # r # answers) = Transfer 0 (map (\<lambda>a. ucast (snd a)) answers) ops
    \<and> bus x y ops = [Start (write_addr priv), Send (ucast (i2c_nbits priv)), Stop, Start (read_addr priv)]
        @ replicate n Receive @ [Stop]"
  using i2c_read_burst [OF assms, of priv idle] assms(1) by (simp add: bus_receive)

definition compass_dev :: lm4f_i2cdev_s where
  "compass_dev = \<lparr>i2c_base = I2C1_MASTER_BASE, i2c_address = 0x1E, i2c_nbits = 3\<rparr>"

theorem i2c_read_bytes_witness:
  "\<exists>ops. i2c_read compass_dev 2 [(0x20, 0), (0x20, 0), (0x20, 0x01), (0x20, 0xFE)] = Transfer 0 [0x01, 0xFE] ops
    \<and> bus 0 0 ops = [Start 0x3C, Send 3, Stop, Start 0x3D, Receive, Receive, Stop]"
  using i2c_read_bytes [of "Suc (Suc 0)" "[(0x20, 0x01), (0x20, 0xFE)]" "(0x20, 0)" compass_dev "(0x20, 0)" 0 0]
  by (simp add: no_errors_def I2CMasterErr_def write_addr_def read_addr_def compass_dev_def)

text \<open>
  Writing 2 to 255 bytes to a device that acknowledges everything succeeds and is one transaction:
  a start condition, the register number, the bytes in order, a stop condition.
\<close>

theorem i2c_write_bytes:
  assumes "2 \<le> length buffer" "length buffer \<le> 255" "length answers = length buffer"
    and "no_errors (r # answers)"
  shows "\<exists>ops. i2c_write priv buffer (idle # r # answers) = Transfer 0 [] ops
    \<and> bus x y ops = [Start (write_addr priv), Send (ucast (i2c_nbits priv))]
        @ map (\<lambda>b. Send (ucast b)) buffer @ [Stop]"
proof -
  obtain mcs mdr where r: "r = (mcs, mdr)"
    by (cases r)
  have "i2c_write_loop buffer (of_nat 0) 1 answers ops0 = Transfer 0 [] (ops0 @ burst_ops buffer 0)" for ops0
    by (rule i2c_write_loop_burst) (use assms in auto)
  then have "i2c_write priv buffer (idle # r # answers) = Transfer 0 []
      ([MSA (write_addr priv), MDR (ucast (i2c_nbits priv)), MCS 3] @ burst_ops buffer 0)"
    using assms(4) by (simp add: i2c_write_def r I2CMasterSlaveAddrSet_def I2CMasterDataPut_def
        I2CMasterControl_def write_addr_def)
  then show ?thesis
    using bus_burst [of "write_addr priv" 0 buffer] assms(1) by auto
qed

theorem i2c_write_bytes_witness:
  "\<exists>ops. i2c_write compass_dev [1, 2] [(0x20, 0), (0x20, 0), (0x20, 0), (0x20, 0)] = Transfer 0 [] ops
    \<and> bus 0 0 ops = [Start 0x3C, Send 3, Send 1, Send 2, Stop]"
  using i2c_write_bytes [of "[1, 2]" "[(0x20, 0), (0x20, 0)]" "(0x20, 0)" compass_dev "(0x20, 0)" 0 0]
  by (simp add: no_errors_def I2CMasterErr_def write_addr_def compass_dev_def)

text \<open>
  Writing a single byte breaks the transaction in two: the byte is sent with the single-send
  command, which puts a repeated start condition between the register number and the value.
\<close>

theorem i2c_write_single_byte_split:
  assumes "no_errors [r, a]"
  shows "\<exists>ops. i2c_write priv [v] [idle, r, a] = Transfer 0 [] ops
    \<and> bus x y ops = [Start (write_addr priv), Send (ucast (i2c_nbits priv)),
         Start (write_addr priv), Send (ucast v), Stop]"
proof -
  obtain mcs mdr mcs' mdr' where "r = (mcs, mdr)" "a = (mcs', mdr')"
    by (metis surj_pair)
  then have "i2c_write priv [v] [idle, r, a] = Transfer 0 []
      [MSA (write_addr priv), MDR (ucast (i2c_nbits priv)), MCS 3, MDR (ucast v), MCS 7]"
    using assms by (simp add: i2c_write_def I2CMasterSlaveAddrSet_def I2CMasterDataPut_def
        I2CMasterControl_def write_addr_def send_command_def Let_def)
  then show ?thesis
    by simp
qed

theorem i2c_write_single_byte_split_witness:
  "\<exists>ops. i2c_write (i2c_setaddress compass_dev 0x1E 2) [0] [(0x20, 0), (0x20, 0), (0x20, 0)] = Transfer 0 [] ops
    \<and> bus 0 0 ops = [Start 0x3C, Send 2, Start 0x3C, Send 0, Stop]"
  using i2c_write_single_byte_split [of "(0x20, 0)" "(0x20, 0)" "i2c_setaddress compass_dev 0x1E 2" 0 "(0x20, 0)" 0 0]
  by (simp add: no_errors_def I2CMasterErr_def write_addr_def compass_dev_def i2c_setaddress_def)

end
