(* ===== verification/Compass.thy ===== *)
theory Compass
  imports I2c_Driver Complex_Main
begin

text \<open>
  The magnetometer class of the application (\<^verbatim>\<open>apps/system/myCub/lib/mycub_compass.{h,cpp}\<close>) over the I2C
  driver.  The sensor's raw axes are 16-bit integers, which a \<^verbatim>\<open>float\<close> holds exactly; the heading is
  computed over the reals, with the C library's \<^verbatim>\<open>atan2\<close> as a parameter.
\<close>

datatype hmc5883MagGain = HMC5883_MAGGAIN_1_3 | HMC5883_MAGGAIN_1_9 | HMC5883_MAGGAIN_2_5
  | HMC5883_MAGGAIN_4_0 | HMC5883_MAGGAIN_4_7 | HMC5883_MAGGAIN_5_6 | HMC5883_MAGGAIN_8_1

fun gain_code :: "hmc5883MagGain \<Rightarrow> u8" where
  "gain_code HMC5883_MAGGAIN_1_3 = 0x20"
| "gain_code HMC5883_MAGGAIN_1_9 = 0x40"
| "gain_code HMC5883_MAGGAIN_2_5 = 0x60"
| "gain_code HMC5883_MAGGAIN_4_0 = 0x80"
| "gain_code HMC5883_MAGGAIN_4_7 = 0xA0"
| "gain_code HMC5883_MAGGAIN_5_6 = 0xC0"
| "gain_code HMC5883_MAGGAIN_8_1 = 0xE0"

text \<open>The counts per gauss of the horizontal axes and of the vertical one.\<close>

fun gain_lsb :: "hmc5883MagGain \<Rightarrow> real \<times> real" where
  "gain_lsb HMC5883_MAGGAIN_1_3 = (1100, 980)"
| "gain_lsb HMC5883_MAGGAIN_1_9 = (855, 760)"
| "gain_lsb HMC5883_MAGGAIN_2_5 = (670, 600)"
| "gain_lsb HMC5883_MAGGAIN_4_0 = (450, 400)"
| "gain_lsb HMC5883_MAGGAIN_4_7 = (400, 255)"
| "gain_lsb HMC5883_MAGGAIN_5_6 = (330, 295)"
| "gain_lsb HMC5883_MAGGAIN_8_1 = (230, 205)"

abbreviation (input) HMC5883_ADDRESS_MAG :: int where "HMC5883_ADDRESS_MAG \<equiv> 0x1E"
abbreviation (input) HMC5883_REGISTER_MAG_CRB_REG_M :: int where "HMC5883_REGISTER_MAG_CRB_REG_M \<equiv> 0x01"
abbreviation (input) HMC5883_REGISTER_MAG_MR_REG_M :: int where "HMC5883_REGISTER_MAG_MR_REG_M \<equiv> 0x02"
abbreviation (input) HMC5883_REGISTER_MAG_OUT_X_H_M :: int where "HMC5883_REGISTER_MAG_OUT_X_H_M \<equiv> 0x03"

record MyCubCompass =
  hmc_dev :: "lm4f_i2cdev_s option"
  magGain :: "hmc5883MagGain option"
  mag_x :: int
  mag_y :: int
  mag_z :: int
  lsb_xy :: real
  lsb_z :: real

definition compass_new :: MyCubCompass where
  "compass_new = \<lparr>hmc_dev = None, magGain = None, mag_x = 0, mag_y = 0, mag_z = 0,
     lsb_xy = 1100, lsb_z = 980\<rparr>"

text \<open>
  A call can dereference the NULL device pointer, wait for ever for the bus, or use bytes of its
  buffer that the failed transfer never stored.
\<close>

datatype 'a compass_result = CompassOk 'a | CompassNull | CompassHangs | CompassUninit

definition compass_setGain :: "hmc5883MagGain \<Rightarrow> i2c_answers \<Rightarrow> MyCubCompass
    \<Rightarrow> (MyCubCompass \<times> i2c_op list) compass_result" where
  "compass_setGain gain answers c =
    (case hmc_dev c of
       None \<Rightarrow> CompassNull
     | Some dev \<Rightarrow>
         (let dev = i2c_setaddress dev HMC5883_ADDRESS_MAG HMC5883_REGISTER_MAG_CRB_REG_M
          in case i2c_write dev [gain_code gain] answers of
               BusHangs ops \<Rightarrow> CompassHangs
             | Transfer ret got ops \<Rightarrow>
                 CompassOk (c\<lparr>hmc_dev := Some dev, magGain := Some gain,
                   lsb_xy := fst (gain_lsb gain), lsb_z := snd (gain_lsb gain)\<rparr>, ops)))"

definition compass_init :: "u32 \<Rightarrow> int \<Rightarrow> lm4f_i2cdev_s \<Rightarrow> i2c_answers \<Rightarrow> i2c_answers \<Rightarrow> MyCubCompass \<Rightarrow> mmio
    \<Rightarrow> (bool \<times> MyCubCompass \<times> mmio \<times> i2c_op list) compass_result" where
  "compass_init clk i2c_port g_i2c1dev answers1 answers2 c m =
    (case up_i2cinitialize i2c_port g_i2c1dev m of
       (None, m1) \<Rightarrow> CompassNull
     | (Some dev, m1) \<Rightarrow>
         (let (f, m2) = i2c_setfrequency clk dev 100 m1;
              dev = i2c_setaddress dev HMC5883_ADDRESS_MAG HMC5883_REGISTER_MAG_MR_REG_M
          in case i2c_write dev [0x00] answers1 of
               BusHangs ops \<Rightarrow> CompassHangs
             | Transfer ret got ops \<Rightarrow>
                 (case compass_setGain HMC5883_MAGGAIN_1_3 answers2 (c\<lparr>hmc_dev := Some dev\<rparr>) of
                    CompassOk (c', ops') \<Rightarrow> CompassOk (True, c', m2, ops @ ops')
                  | CompassNull \<Rightarrow> CompassNull
                  | CompassHangs \<Rightarrow> CompassHangs
                  | CompassUninit \<Rightarrow> CompassUninit)))"

text \<open>\<^verbatim>\<open>(int16_t)(lo | ((int16_t)hi << 8))\<close>\<close>

definition mag_decode :: "u8 \<Rightarrow> u8 \<Rightarrow> int" where
  "mag_decode hi lo = sint (ucast lo OR push_bit 8 (ucast hi) :: u16)"

definition compass_read :: "i2c_answers \<Rightarrow> MyCubCompass \<Rightarrow> (bool \<times> MyCubCompass) compass_result" where
  "compass_read answers c =
    (case hmc_dev c of
       None \<Rightarrow> CompassOk (False, c)
     | Some dev \<Rightarrow>
         (let dev = i2c_setaddress dev HMC5883_ADDRESS_MAG HMC5883_REGISTER_MAG_OUT_X_H_M
          in case i2c_read dev 6 answers of
               BusHangs ops \<Rightarrow> CompassHangs
             | Transfer ret buf ops \<Rightarrow>
                 if length buf < 6 then CompassUninit
                 else CompassOk (True, c\<lparr>hmc_dev := Some dev,
                   mag_x := mag_decode (buf ! 0) (buf ! 1), mag_y := mag_decode (buf ! 4) (buf ! 5),
                   mag_z := mag_decode (buf ! 2) (buf ! 3)\<rparr>)))"

abbreviation (input) SENSORS_GAUSS_TO_MICROTESLA :: real where "SENSORS_GAUSS_TO_MICROTESLA \<equiv> 100"

definition compass_getEvent :: "i2c_answers \<Rightarrow> MyCubCompass
    \<Rightarrow> (bool \<times> (real \<times> real \<times> real) \<times> MyCubCompass) compass_result" where
  "compass_getEvent answers c =
    (case hmc_dev c of
       None \<Rightarrow> CompassOk (False, (0, 0, 0), c)
     | Some dev \<Rightarrow>
         (case compass_read answers c of
            CompassOk (r, c') \<Rightarrow>
              CompassOk (True,
                (real_of_int (mag_x c') / lsb_xy c' * SENSORS_GAUSS_TO_MICROTESLA,
                 real_of_int (mag_y c') / lsb_xy c' * SENSORS_GAUSS_TO_MICROTESLA,
                 real_of_int (mag_z c') / lsb_z c' * SENSORS_GAUSS_TO_MICROTESLA), c')
          | CompassNull \<Rightarrow> CompassNull
          | CompassHangs \<Rightarrow> CompassHangs
          | CompassUninit \<Rightarrow> CompassUninit))"

text \<open>The correction of the angle: declination, then one turn up or down into the first turn.\<close>

definition heading_correct :: "real \<Rightarrow> real" where
  "heading_correct a =
    (let h1 = a + 0.92;
         h2 = (if h1 < 0 then h1 + 2 * pi else h1);
         h3 = (if 2 * pi < h2 then h2 - 2 * pi else h2)
     in h3 * 180 / pi)"

definition compass_getHeading :: "(real \<Rightarrow> real \<Rightarrow> real) \<Rightarrow> i2c_answers \<Rightarrow> MyCubCompass
    \<Rightarrow> (real \<times> MyCubCompass) compass_result" where
  "compass_getHeading atan2 answers c =
    (case hmc_dev c of
       None \<Rightarrow> CompassOk (- 1, c)
     | Some dev \<Rightarrow>
         (case compass_getEvent answers c of
            CompassOk (r, (x, y, z), c') \<Rightarrow> CompassOk (heading_correct (atan2 y x), c')
          | CompassNull \<Rightarrow> CompassNull
          | CompassHangs \<Rightarrow> CompassHangs
          | CompassUninit \<Rightarrow> CompassUninit))"

section \<open>Decoding the axes\<close>

definition mag_hi :: "int \<Rightarrow> u8" where
  "mag_hi n = ucast (drop_bit 8 (word_of_int n :: u16))"

definition mag_lo :: "int \<Rightarrow> u8" where
  "mag_lo n = ucast (word_of_int n :: u16)"

lemma mag_decode_encode:
  assumes "- 32768 \<le> n" "n < 32768"
  shows "mag_decode (mag_hi n) (mag_lo n) = n"
proof -
  have "ucast (mag_lo n) OR push_bit 8 (ucast (mag_hi n)) = (word_of_int n :: u16)"
    by (rule bit_word_eqI) (auto simp: mag_lo_def mag_hi_def bit_simps)
  then show ?thesis
    using assms by (simp add: mag_decode_def signed_of_int signed_take_bit_int_eq_self)
qed

text \<open>The six bytes the sensor sends for three axes: x, z, y, the high byte of each first.\<close>

definition hmc_bytes :: "int \<Rightarrow> int \<Rightarrow> int \<Rightarrow> u8 list" where
  "hmc_bytes x y z = [mag_hi x, mag_lo x, mag_hi z, mag_lo z, mag_hi y, mag_lo y]"

definition hmc_answers :: "u8 list \<Rightarrow> i2c_answers" where
  "hmc_answers bytes = (0x20, 0) # (0x20, 0) # map (\<lambda>b. (0x20, ucast b)) bytes"

lemma compass_read_bytes:
  assumes "hmc_dev c = Some dev" "bytes = [b0, b1, b2, b3, b4, b5]"
  shows "compass_read (hmc_answers bytes) c =
    CompassOk (True, c\<lparr>hmc_dev := Some (i2c_setaddress dev HMC5883_ADDRESS_MAG HMC5883_REGISTER_MAG_OUT_X_H_M),
      mag_x := mag_decode b0 b1, mag_y := mag_decode b4 b5, mag_z := mag_decode b2 b3\<rparr>)"
proof -
  have uu: "ucast (ucast b :: u32) = b" for b :: u8
    by (rule bit_word_eqI) (simp add: bit_simps)
  have "no_errors ((0x20, 0) # map (\<lambda>b. (0x20, ucast b)) bytes)"
    by (auto simp: no_errors_def I2CMasterErr_def)
  from i2c_read_burst [OF _ _ _ this, of 6] show ?thesis
    using assms by (simp add: compass_read_def hmc_answers_def Let_def uu)
qed

section \<open>Properties\<close>

text \<open>
  C16.  Whatever field the sensor measures, if it sends the three signed 16-bit axes in its register
  order (x, z, y, high byte first) over an error-free bus, the compass object holds exactly these
  values afterwards.
\<close>

theorem compass_read_axes:
  assumes "hmc_dev c = Some dev" "\<forall>n\<in>{x, y, z}. - 32768 \<le> n \<and> n < 32768"
  shows "\<exists>c'. compass_read (hmc_answers (hmc_bytes x y z)) c = CompassOk (True, c')
    \<and> mag_x c' = x \<and> mag_y c' = y \<and> mag_z c' = z"
  using compass_read_bytes [OF assms(1) hmc_bytes_def] assms(2)
  by (simp add: mag_decode_encode)

theorem compass_read_axes_witness:
  "\<exists>c'. compass_read (hmc_answers (hmc_bytes (- 300) 17 2047)) (compass_new\<lparr>hmc_dev := Some compass_dev\<rparr>) =
     CompassOk (True, c') \<and> mag_x c' = - 300 \<and> mag_y c' = 17 \<and> mag_z c' = 2047"
  using compass_read_axes [of "compass_new\<lparr>hmc_dev := Some compass_dev\<rparr>" compass_dev "- 300" 17 2047] by simp

lemma heading_correct_range:
  assumes "- pi \<le> a" "a \<le> pi"
  shows "0 \<le> heading_correct a \<and> heading_correct a \<le> 360
    \<and> (\<exists>k\<in>{- 1, 0, 1 :: int}. heading_correct a = (a + 0.92) * 180 / pi + 360 * real_of_int k)"
proof -
  define h where "h = a + 0.92"
  have h: "- pi + 23 / 25 \<le> h" "h \<le> pi + 23 / 25"
    using assms by (simp_all add: h_def)
  have pi: "23 / 25 < pi" "0 < pi"
    using pi_ge_two by auto
  have deg: "0 \<le> r * 180 / pi \<and> r * 180 / pi \<le> 360" if "0 \<le> r" "r \<le> 2 * pi" for r
    using that pi by (simp add: divide_simps)
  consider "h < 0" | "0 \<le> h" "h \<le> 2 * pi"
    using h pi by linarith
  then show ?thesis
  proof cases
    case 1
    then have "heading_correct a = (h + 2 * pi) * 180 / pi"
      by (simp add: heading_correct_def h_def Let_def)
    moreover have "0 \<le> h + 2 * pi" "h + 2 * pi \<le> 2 * pi"
      using 1 h pi by linarith+
    moreover have "(h + 2 * pi) * 180 / pi = (a + 0.92) * 180 / pi + 360 * real_of_int 1"
      using pi by (simp add: h_def field_simps)
    ultimately show ?thesis
      using deg [of "h + 2 * pi"] by (metis insertI1 insertI2)
  next
    case 2
    then have "heading_correct a = (a + 0.92) * 180 / pi + 360 * real_of_int 0"
      by (simp add: heading_correct_def h_def Let_def)
    moreover have "0 \<le> (a + 0.92) * 180 / pi \<and> (a + 0.92) * 180 / pi \<le> 360"
      using deg [OF 2] by (simp add: h_def)
    ultimately show ?thesis
      by (intro conjI bexI [of _ 0]) auto
  qed
qed

text \<open>
  C17.  With an \<^verbatim>\<open>atan2\<close> that returns angles between minus and plus pi, every heading the compass reports
  from a completed reading lies between 0 and 360 degrees and is the field angle plus the
  declination of 0.92 rad, up to a whole turn; without a device the result is -1.
\<close>

theorem compass_heading_range:
  assumes "\<forall>y x. - pi \<le> atan2 y x \<and> atan2 y x \<le> pi"
    and "compass_getHeading atan2 answers c = CompassOk (h, c')"
  shows "if hmc_dev c = None then h = - 1
    else 0 \<le> h \<and> h \<le> 360 \<and>
      (\<exists>k\<in>{- 1, 0, 1 :: int}. h = (atan2 (real_of_int (mag_y c') / lsb_xy c' * 100)
         (real_of_int (mag_x c') / lsb_xy c' * 100) + 0.92) * 180 / pi + 360 * real_of_int k)"
proof (cases "hmc_dev c")
  case None
  then show ?thesis
    using assms(2) by (simp add: compass_getHeading_def)
next
  case (Some dev)
  then have "h = heading_correct (atan2 (real_of_int (mag_y c') / lsb_xy c' * 100)
      (real_of_int (mag_x c') / lsb_xy c' * 100))"
    using assms(2) by (auto simp: compass_getHeading_def compass_getEvent_def split: compass_result.splits)
  then show ?thesis
    using Some heading_correct_range assms(1) by auto
qed

theorem compass_heading_range_witness:
  "\<exists>h c'. compass_getHeading (\<lambda>y x. Arg (Complex x y)) (hmc_answers (hmc_bytes 100 0 0))
     (compass_new\<lparr>hmc_dev := Some compass_dev\<rparr>) = CompassOk (h, c') \<and> 0 \<le> h \<and> h \<le> 360"
proof -
  define c where "c = compass_new\<lparr>hmc_dev := Some compass_dev\<rparr>"
  have dev: "hmc_dev c = Some compass_dev"
    by (simp add: c_def)
  obtain h c' where h: "compass_getHeading (\<lambda>y x. Arg (Complex x y)) (hmc_answers (hmc_bytes 100 0 0)) c
      = CompassOk (h, c')"
    using compass_read_bytes [OF dev hmc_bytes_def]
    by (simp add: compass_getHeading_def compass_getEvent_def dev)
  moreover have "\<forall>y x. - pi \<le> Arg (Complex x y) \<and> Arg (Complex x y) \<le> pi"
    using Arg_bounded by (auto simp: less_eq_real_def)
  ultimately have "0 \<le> h \<and> h \<le> 360"
    using compass_heading_range [of "\<lambda>y x. Arg (Complex x y)" _ c h c'] dev by simp
  then show ?thesis
    using h by (auto simp: c_def)
qed

text \<open>
  The compass does not check the result of its bus transfer: when the register byte or one of the
  six data bytes is answered with an error, \<^verbatim>\<open>read\<close> goes on to decode bytes of its buffer that were
  never stored.
\<close>

theorem compass_read_ignores_error:
  assumes "hmc_dev c = Some dev" "no_errors as" "I2CMasterErr (fst e) \<noteq> 0" "length as < 7"
  shows "compass_read (idle # as @ e # rest) c = CompassUninit"
proof (cases as)
  case Nil
  then show ?thesis
    using assms by (cases e) (simp add: compass_read_def i2c_read_def Let_def)
next
  case (Cons a as')
  define dev' where "dev' = i2c_setaddress dev HMC5883_ADDRESS_MAG HMC5883_REGISTER_MAG_OUT_X_H_M"
  have "\<exists>ops. i2c_read_loop (int 6) (of_nat 0) 0x0b (as' @ e # rest) [] ops0 =
      Transfer (- ETIMEDOUT) ([] @ map (\<lambda>a. ucast (snd a)) as') ops" for ops0
    by (rule i2c_read_loop_error) (use assms Cons in auto)
  then obtain ops where "i2c_read dev' 6 (idle # as @ e # rest) =
      Transfer (- ETIMEDOUT) (map (\<lambda>a. ucast (snd a)) as') ops"
    using assms(2) Cons by (cases a) (auto simp: i2c_read_def Let_def)
  then show ?thesis
    using assms(1,4) Cons by (simp add: compass_read_def dev'_def)
qed

theorem compass_read_ignores_error_witness:
  "compass_read [(0x20, 0), (0x20, 0), (0x20, 0x01), (0x0A, 0)] (compass_new\<lparr>hmc_dev := Some compass_dev\<rparr>)
     = CompassUninit"
  using compass_read_ignores_error [of "compass_new\<lparr>hmc_dev := Some compass_dev\<rparr>" compass_dev
      "[(0x20, 0), (0x20, 0x01)]" "(0x0A, 0)" "(0x20, 0)" "[]"]
  by (simp add: no_errors_def I2CMasterErr_def)

end
