(* ===== verification/Servo_Driver.thy ===== *)
theory Servo_Driver
  imports Lm4f_Board Char_Device
begin

text \<open>
  The servo driver: the PWM lower half (\<^verbatim>\<open>configs/lm4f120-launchpad/src/up_servo.c\<close>), which turns a
  servo angle into the match value of a 50 Hz timer, and the upper half (\<^verbatim>\<open>drivers/servo.c\<close>), the
  character device the application opens and calls \<^verbatim>\<open>ioctl\<close> on.  \<^verbatim>\<open>SysCtlClockGet()\<close> is the parameter
  \<^verbatim>\<open>clk\<close>; the board runs at 80 MHz.
\<close>

section \<open>The lower half\<close>

abbreviation (input) SERVO_MAX_COUNT :: nat where "SERVO_MAX_COUNT \<equiv> 4"
abbreviation (input) SERVO_MIN_PULSE :: u32 where "SERVO_MIN_PULSE \<equiv> 544"
abbreviation (input) SERVO_MAX_PULSE :: u32 where "SERVO_MAX_PULSE \<equiv> 2400"
abbreviation (input) SERVO_PERIOD :: u32 where "SERVO_PERIOD \<equiv> 20000"

record servo_info_s =
  servo_id :: u16
  servo_port :: u32
  servo_pin :: u8
  servo_pos :: u16

definition g_servo_timers :: "u32 list" where
  "g_servo_timers = [0x40032000, 0x40033000, 0x40031000, 0x40030000]"

definition g_servo_peripherals :: "u32 list" where
  "g_servo_peripherals = [0x10100004, 0x10100008, 0x10100002, 0x10100001]"

text \<open>One round of the loop of \<^verbatim>\<open>servo_setup\<close>.\<close>

definition up_servo_setup_timer :: "u32 \<Rightarrow> u32 \<times> u32 \<Rightarrow> mmio \<Rightarrow> mmio" where
  "up_servo_setup_timer clk = (\<lambda>(timer, periph) m0.
    (let m1 = SysCtlPeripheralEnable periph m0;
         m2 = TimerConfigure timer (TIMER_CFG_SPLIT_PAIR OR TIMER_CFG_A_PWM) m1;
         m3 = HWREG_or (timer + TIMER_O_CTL) TIMER_CTL_TAPWML m2;
         period1 = clk div 50;
         extender1 = (ucast (drop_bit 16 period1) :: u8);
         period1' = period1 AND 0xFFFF;
         m4 = TimerPrescaleSet timer TIMER_A (ucast extender1) m3
     in TimerLoadSet timer TIMER_A period1' m4))"

definition up_servo_setup :: "u32 \<Rightarrow> board \<Rightarrow> int \<times> board" where
  "up_servo_setup clk b =
    (let m0 = SysCtlPeripheralEnable 0x20000002 (regs b);
         m1 = GPIOPinTypeTimer GPIO_PORTB_BASE 0x01 (GPIOPinConfigure 0x00010007 m0);
         m2 = GPIOPinTypeTimer GPIO_PORTB_BASE 0x04 (GPIOPinConfigure 0x00010807 m1);
         m3 = GPIOPinTypeTimer GPIO_PORTB_BASE 0x10 (GPIOPinConfigure 0x00011007 m2);
         m4 = GPIOPinTypeTimer GPIO_PORTB_BASE 0x40 (GPIOPinConfigure 0x00011807 m3)
     in (0, b\<lparr>regs := fold (up_servo_setup_timer clk) (zip g_servo_timers g_servo_peripherals) m4\<rparr>))"

definition up_servo_shutdown :: "board \<Rightarrow> int \<times> board" where
  "up_servo_shutdown b =
    (0, b\<lparr>regs := fold (\<lambda>timer. TimerDisable timer TIMER_A) g_servo_timers (regs b)\<rparr>)"

definition up_servo_attach :: "servo_info_s \<Rightarrow> board \<Rightarrow> int \<times> board" where
  "up_servo_attach info b = (- ENODEV, b)"

text \<open>
  The pulse width in microseconds, clamped, and the match value in timer ticks.  \<^verbatim>\<open>info->pos\<close> is
  promoted to \<^verbatim>\<open>int\<close>: the sum is at most 656,000 and is stored in a \<^verbatim>\<open>uint32_t\<close>.
\<close>

definition servo_pulse :: "u16 \<Rightarrow> u32" where
  "servo_pulse pos =
    (let value = SERVO_MIN_PULSE + ((SERVO_MAX_PULSE - SERVO_MIN_PULSE) div 180) * ucast pos;
         value = (if value \<le> SERVO_MAX_PULSE then value else SERVO_MAX_PULSE)
     in if SERVO_MIN_PULSE \<le> value then value else SERVO_MIN_PULSE)"

definition servo_match :: "u32 \<Rightarrow> u16 \<Rightarrow> u32" where
  "servo_match clk pos = (clk div 50) * servo_pulse pos div SERVO_PERIOD"

definition up_servo_setpos :: "u32 \<Rightarrow> servo_info_s \<Rightarrow> board \<Rightarrow> int \<times> board" where
  "up_servo_setpos clk info b =
    (let (flags, b1) = irqsave b;
         b2 = sched_lock b1
     in if SERVO_MAX_COUNT \<le> unat (servo_id info) then (ERANGE, b2)
        else
          let timer = g_servo_timers ! unat (servo_id info);
              period2 = servo_match clk (servo_pos info);
              extender2 = (ucast (drop_bit 16 period2) :: u8);
              period2' = period2 AND 0xFFFF;
              m1 = TimerPrescaleMatchSet timer TIMER_A (ucast extender2) (regs b2);
              m2 = TimerMatchSet timer TIMER_A period2' m1;
              m3 = TimerEnable timer TIMER_A m2
          in (0, sched_unlock (irqrestore flags (b2\<lparr>regs := m3\<rparr>))))"

section \<open>The upper half\<close>

record servo_upperhalf_s =
  servo_crefs :: u8
  servo_started :: bool
  servo_exclsem :: nat
  servo_info :: servo_info_s

type_synonym servo_dev = "servo_upperhalf_s \<times> board"

abbreviation (input) SERVOIOC_SETPINCONFIG :: int where "SERVOIOC_SETPINCONFIG \<equiv> 0x1301"
abbreviation (input) SERVOIOC_GETPINCONFIG :: int where "SERVOIOC_GETPINCONFIG \<equiv> 0x1302"
abbreviation (input) SERVOIOC_SETPOS :: int where "SERVOIOC_SETPOS \<equiv> 0x1303"

definition servo_open :: "u32 \<Rightarrow> bool \<Rightarrow> servo_dev \<Rightarrow> servo_dev outcome" where
  "servo_open clk intr = (\<lambda>(upper, b).
    (case sem_wait intr (servo_exclsem upper) of
       SemBlocked \<Rightarrow> Blocked
     | SemError e \<Rightarrow> Done (- e) (upper, b)
     | SemTaken n \<Rightarrow>
         (let upper = upper\<lparr>servo_exclsem := n\<rparr>;
              post = (\<lambda>u. u\<lparr>servo_exclsem := sem_post (servo_exclsem u)\<rparr>);
              tmp = servo_crefs upper + 1
          in if tmp = 0 then Done (- EMFILE) (post upper, b)
             else
               let (ret, b') = (if tmp = 1 then up_servo_setup clk b else (0, b))
               in if ret < 0 then Done ret (post upper, b')
                  else Done 0 (post (upper\<lparr>servo_crefs := tmp\<rparr>), b'))))"

definition servo_close :: "bool \<Rightarrow> servo_dev \<Rightarrow> servo_dev outcome" where
  "servo_close intr = (\<lambda>(upper, b).
    (case sem_wait intr (servo_exclsem upper) of
       SemBlocked \<Rightarrow> Blocked
     | SemError e \<Rightarrow> Done (- e) (upper, b)
     | SemTaken n \<Rightarrow>
         (let upper = upper\<lparr>servo_exclsem := n\<rparr>;
              post = (\<lambda>u. u\<lparr>servo_exclsem := sem_post (servo_exclsem u)\<rparr>)
          in if 1 < servo_crefs upper
             then Done 0 (post (upper\<lparr>servo_crefs := servo_crefs upper - 1\<rparr>), b)
             else Done 0 (post (upper\<lparr>servo_crefs := 0\<rparr>), snd (up_servo_shutdown b)))))"

definition servo_read :: "servo_dev \<Rightarrow> nat \<Rightarrow> int" where
  "servo_read d buflen = 0"

definition servo_write :: "servo_dev \<Rightarrow> string \<Rightarrow> int" where
  "servo_write d buffer = 0"

text \<open>
  \<^verbatim>\<open>arg\<close> is the structure the caller's pointer refers to; the second component of the state after
  the call is that structure, which \<^verbatim>\<open>SERVOIOC_GETPINCONFIG\<close> overwrites.  A failed \<^verbatim>\<open>sem_wait\<close> returns
  -1, the value of the call, and the \<^verbatim>\<open>ioctl\<close> entry of the lower half is NULL.  After
  \<^verbatim>\<open>SERVOIOC_GETPINCONFIG\<close> the return value is that of \<^verbatim>\<open>sem_wait\<close>, 0.
\<close>

definition servo_ioctl :: "u32 \<Rightarrow> bool \<Rightarrow> int \<Rightarrow> servo_info_s \<Rightarrow> servo_dev
    \<Rightarrow> (servo_dev \<times> servo_info_s) outcome" where
  "servo_ioctl clk intr cmd arg = (\<lambda>(upper, b).
    (case sem_wait intr (servo_exclsem upper) of
       SemBlocked \<Rightarrow> Blocked
     | SemError e \<Rightarrow> Done (- 1) ((upper, b), arg)
     | SemTaken n \<Rightarrow>
         (let upper = upper\<lparr>servo_exclsem := n\<rparr>;
              post = (\<lambda>u. u\<lparr>servo_exclsem := sem_post (servo_exclsem u)\<rparr>)
          in if cmd = SERVOIOC_SETPINCONFIG then
               (let (ret, b') = up_servo_attach arg b
                in Done ret ((post (upper\<lparr>servo_info := arg\<rparr>), b'), arg))
             else if cmd = SERVOIOC_GETPINCONFIG then
               Done 0 ((post upper, b), servo_info upper)
             else if cmd = SERVOIOC_SETPOS then
               (let (ret, b') = up_servo_setpos clk arg b
                in Done ret ((post (upper\<lparr>servo_info := arg\<rparr>), b'), arg))
             else NullCall)))"

text \<open>
  \<^verbatim>\<open>servo_register\<close>: \<^verbatim>\<open>kzalloc\<close> may fail (\<^verbatim>\<open>mem_ok\<close>), \<^verbatim>\<open>register_driver\<close> is a parameter with its result.
\<close>

definition servo_register :: "bool \<Rightarrow> int \<Rightarrow> int \<times> servo_upperhalf_s option" where
  "servo_register mem_ok registered =
    (if \<not> mem_ok then (- ENOMEM, None)
     else (registered,
       Some \<lparr>servo_crefs = 0, servo_started = False, servo_exclsem = 1,
             servo_info = \<lparr>servo_id = 0, servo_port = 0, servo_pin = 0, servo_pos = 0\<rparr>\<rparr>))"

text \<open>The static flag \<^verbatim>\<open>servo_initialized\<close> is threaded; \<^verbatim>\<open>lm4f_servoinitialize\<close> never returns NULL.\<close>

definition servo_devinit :: "bool \<Rightarrow> int \<Rightarrow> bool \<Rightarrow> int \<times> bool \<times> servo_upperhalf_s option" where
  "servo_devinit mem_ok registered initialized =
    (if \<not> initialized
     then let (ret, upper) = servo_register mem_ok registered
          in if ret < 0 then (ret, False, upper) else (0, True, upper)
     else (0, True, None))"

section \<open>The pulse\<close>

lemma unat_servo_pulse: "unat (servo_pulse pos) = min 2400 (544 + 10 * unat pos)"
proof -
  have b: "unat pos < 65536"
    using unsigned_less [of pos, where 'a = nat] by simp
  have u: "unat (ucast pos :: u32) = unat pos"
    by (simp add: unsigned_ucast_eq take_bit_nat_eq_self_iff b order_less_trans [OF b])
  have "unat (10 * ucast pos :: u32) = 10 * unat pos"
    using b u by (simp add: unat_word_ariths)
  then have "unat (544 + 10 * ucast pos :: u32) = 544 + 10 * unat pos"
    using b by (simp add: unat_word_ariths)
  then show ?thesis
    by (simp add: servo_pulse_def word_le_nat_alt min_def Let_def)
qed

lemma unat_servo_match:
  assumes "clk \<le> 80000000"
  shows "unat (servo_match clk pos) = unat clk div 50 * min 2400 (544 + 10 * unat pos) div 20000"
proof -
  define p where "p = unat (servo_pulse pos)"
  have p: "p \<le> 2400" "p = min 2400 (544 + 10 * unat pos)"
    by (simp_all add: p_def unat_servo_pulse)
  have c: "unat clk div 50 \<le> 1600000"
    using assms by (simp add: word_le_nat_alt)
  have "unat clk div 50 * p \<le> 1600000 * 2400"
    using c p by (intro mult_le_mono) auto
  then have "unat ((clk div 50) * servo_pulse pos) = unat clk div 50 * p"
    using c by (simp add: unat_word_ariths p_def)
  then show ?thesis
    using p by (simp add: servo_match_def unat_div)
qed

lemma servo_match_bound:
  assumes "clk \<le> 80000000"
  shows "unat (servo_match clk pos) \<le> 192000"
proof -
  have "unat clk div 50 \<le> 1600000"
    using assms by (simp add: word_le_nat_alt)
  then have "unat clk div 50 * min 2400 (544 + 10 * unat pos) \<le> 1600000 * 2400"
    by (intro mult_le_mono) auto
  then have "unat clk div 50 * min 2400 (544 + 10 * unat pos) div 20000 \<le> (1600000 * 2400) div 20000"
    by (rule div_le_mono)
  then show ?thesis
    by (simp add: unat_servo_match [OF assms])
qed

text \<open>A 24-bit count split over a prescale register and a 16-bit register.\<close>

lemma split24:
  assumes "unat (x :: u32) < 2 ^ 24"
  shows "unat (ucast (ucast (drop_bit 16 x) :: u8) :: u32) * 65536 + unat (x AND 0xFFFF) = unat x"
proof -
  have "unat (drop_bit 16 x) = unat x div 65536"
    by (simp add: drop_bit_eq_div unat_div)
  moreover from this have "unat (drop_bit 16 x) < 256"
    using assms by simp
  ultimately have "unat (ucast (ucast (drop_bit 16 x) :: u8) :: u32) = unat x div 65536"
    by (simp add: unsigned_ucast_eq unsigned_take_bit_eq take_bit_nat_eq_self_iff)
  moreover have "x AND 0xFFFF = take_bit 16 x"
    by (simp add: take_bit_eq_mask mask_eq_exp_minus_1)
  then have "unat (x AND 0xFFFF) = unat x mod 65536"
    by (simp add: take_bit_eq_mod unat_mod)
  ultimately show ?thesis
    by simp
qed

section \<open>The registers after each operation\<close>

text \<open>The PWM counts a timer holds: the period it was loaded with and the match it was set to.\<close>

definition timer_period :: "mmio \<Rightarrow> u32 \<Rightarrow> nat" where
  "timer_period m t = unat (m (t + TIMER_O_TAPR)) * 65536 + unat (m (t + TIMER_O_TAILR))"

definition timer_match :: "mmio \<Rightarrow> u32 \<Rightarrow> nat" where
  "timer_match m t = unat (m (t + TIMER_O_TAPMR)) * 65536 + unat (m (t + TIMER_O_TAMATCHR))"

definition timer_on :: "mmio \<Rightarrow> u32 \<Rightarrow> bool" where
  "timer_on m t = bit (m (t + TIMER_O_CTL)) 0"

definition timer_pwm :: "mmio \<Rightarrow> u32 \<Rightarrow> bool" where
  "timer_pwm m t \<longleftrightarrow> m (t + TIMER_O_CFG) = 4 \<and> m (t + TIMER_O_TAMR) AND 0xF = 0xA
     \<and> bit (m (t + TIMER_O_CTL)) 6"

lemmas timer_views = timer_period_def timer_match_def timer_on_def timer_pwm_def

lemma servo_timer_cases:
  assumes "i < 4"
  obtains "i = 0" "g_servo_timers ! i = 0x40032000" | "i = 1" "g_servo_timers ! i = 0x40033000"
    | "i = 2" "g_servo_timers ! i = 0x40031000" | "i = 3" "g_servo_timers ! i = 0x40030000"
proof -
  have "i = 0 \<or> i = 1 \<or> i = 2 \<or> i = 3"
    using assms by arith
  then show thesis
    using that by (auto simp: g_servo_timers_def)
qed

lemma bit0_numeral_32: "bit (1 :: u32) 0" "\<not> bit (64 :: u32) 0" "bit (64 :: u32) 6"
  by (simp_all add: bit_simps)

text \<open>\<^verbatim>\<open>servo_setpos\<close> on a valid channel: only three registers of that channel's timer change.\<close>

lemma up_servo_setpos_valid:
  assumes "unat (servo_id info) < 4"
  shows "up_servo_setpos clk info b =
    (0, b\<lparr>regs :=
      (let t = g_servo_timers ! unat (servo_id info);
           p = servo_match clk (servo_pos info);
           m = (regs b)(t + 0x40 := ucast (ucast (drop_bit 16 p) :: u8), t + 0x30 := p AND 0xFFFF)
       in m(t + 0xC := m (t + 0xC) OR 1))\<rparr>)"
  using assms by (simp add: up_servo_setpos_def cpu_defs timer_defs HWREG_defs Let_def)

text \<open>The registers of the servo timers are pairwise distinct.\<close>

lemma servo_setpos_regs:
  assumes "unat (servo_id info) < 4" "clk \<le> 80000000"
    and t: "t = g_servo_timers ! unat (servo_id info)"
    and m: "m = regs (snd (up_servo_setpos clk info b))"
  shows "timer_match m t = unat (servo_match clk (servo_pos info)) \<and> timer_on m t"
proof -
  have "unat (servo_match clk (servo_pos info)) < 2 ^ 24"
    using servo_match_bound [OF assms(2), of "servo_pos info"] by simp
  note sp = split24 [OF this]
  show ?thesis
    using assms(1)
    by (cases rule: servo_timer_cases)
      (simp_all add: t m up_servo_setpos_valid [OF assms(1)] Let_def timer_views sp bit_simps)
qed

lemma servo_setpos_frame:
  assumes "unat (servo_id info) < 4" "i < 4"
    and t: "t = g_servo_timers ! i"
    and m: "m = regs (snd (up_servo_setpos clk info b))"
  shows "timer_period m t = timer_period (regs b) t" "timer_pwm m t = timer_pwm (regs b) t"
    and "i \<noteq> unat (servo_id info) \<Longrightarrow>
      timer_match m t = timer_match (regs b) t \<and> timer_on m t = timer_on (regs b) t"
proof -
  show "timer_period m t = timer_period (regs b) t"
    using assms(1) by (cases rule: servo_timer_cases; use assms(2) in \<open>cases rule: servo_timer_cases\<close>)
      (simp_all add: t m up_servo_setpos_valid [OF assms(1)] Let_def timer_views)
  show "timer_pwm m t = timer_pwm (regs b) t"
    using assms(1) by (cases rule: servo_timer_cases; use assms(2) in \<open>cases rule: servo_timer_cases\<close>)
      (simp_all add: t m up_servo_setpos_valid [OF assms(1)] Let_def timer_views bit_simps)
  show "timer_match m t = timer_match (regs b) t \<and> timer_on m t = timer_on (regs b) t"
    if "i \<noteq> unat (servo_id info)"
    using assms(1) by (cases rule: servo_timer_cases; use assms(2) in \<open>cases rule: servo_timer_cases\<close>)
      (use that in \<open>simp_all add: t m up_servo_setpos_valid [OF assms(1)] Let_def timer_views\<close>)
qed

text \<open>One round of the setup loop, with the addresses of a timer kept symbolic.\<close>

lemma up_servo_setup_timer_regs:
  "up_servo_setup_timer clk (t, p) m =
    (let m1 = SysCtlPeripheralEnable p m;
         m2 = m1(t + 0xC := m1 (t + 0xC) AND NOT (1 OR 0x100));
         m3 = m2(t := 4, t + 4 := 0x20A, t + 8 := 0x200);
         m4 = m3(t + 0xC := m3 (t + 0xC) OR 0x40)
     in m4(t + 0x38 := ucast (ucast (drop_bit 16 (clk div 50)) :: u8), t + 0x28 := (clk div 50) AND 0xFFFF))"
  by (simp add: up_servo_setup_timer_def timer_defs HWREG_defs Let_def)

lemma periph_enable_servo:
  "p \<in> set g_servo_peripherals \<Longrightarrow> SysCtlPeripheralEnable p m = m(0x400FE104 := m 0x400FE104 OR SYSCTL_PERIPH_MASK p)"
  by (auto simp: g_servo_peripherals_def SysCtlPeripheralEnable_def SYSCTL_PERIPH_INDEX_def
      g_pulRCGCRegs_def HWREG_defs)

lemma servo_setup_loop:
  assumes "clk \<le> 80000000" "i < 4" and t: "t = g_servo_timers ! i"
    and m: "m' = fold (up_servo_setup_timer clk) (zip g_servo_timers g_servo_peripherals) m"
  shows "timer_period m' t = unat clk div 50 \<and> timer_pwm m' t \<and> \<not> timer_on m' t"
proof -
  have "unat (clk div 50) < 2 ^ 24"
    using assms(1) by (simp add: unat_div word_le_nat_alt)
  note sp = split24 [OF this]
  show ?thesis
    using assms(2)
    by (cases rule: servo_timer_cases)
      (simp_all add: t m g_servo_timers_def g_servo_peripherals_def up_servo_setup_timer_regs
        periph_enable_servo [unfolded g_servo_peripherals_def] Let_def timer_views sp bit_simps unat_div)
qed

lemma servo_shutdown_off:
  "i < 4 \<Longrightarrow> \<not> timer_on (regs (snd (up_servo_shutdown b))) (g_servo_timers ! i)"
  by (erule servo_timer_cases)
    (simp_all add: up_servo_shutdown_def g_servo_timers_def timer_defs HWREG_defs timer_views bit_simps)

section \<open>The device contract\<close>

abbreviation (input) SYSCLK_FREQUENCY :: u32 where "SYSCLK_FREQUENCY \<equiv> 80000000"

definition servo_idle :: "board \<Rightarrow> bool" where
  "servo_idle b \<longleftrightarrow> (\<forall>i<4. \<not> timer_on (regs b) (g_servo_timers ! i))"

definition servo_ready :: "u32 \<Rightarrow> board \<Rightarrow> bool" where
  "servo_ready clk b \<longleftrightarrow> (\<forall>i<4. timer_pwm (regs b) (g_servo_timers ! i)
     \<and> timer_period (regs b) (g_servo_timers ! i) = unat clk div 50)"

lemma up_servo_setup_ready: "clk \<le> 80000000 \<Longrightarrow> servo_ready clk (snd (up_servo_setup clk b))"
  using servo_setup_loop by (simp add: servo_ready_def up_servo_setup_def Let_def)

lemma up_servo_setup_ret: "fst (up_servo_setup clk b) = 0"
  by (simp add: up_servo_setup_def Let_def)

lemma up_servo_shutdown_idle: "servo_idle (snd (up_servo_shutdown b))"
  by (simp add: servo_idle_def servo_shutdown_off)

lemma servo_dev_contract:
  "refcounted (servo_open SYSCLK_FREQUENCY) servo_close (servo_crefs \<circ> fst) (servo_exclsem \<circ> fst)
     (servo_idle \<circ> snd) (servo_ready SYSCLK_FREQUENCY \<circ> snd)"
proof (unfold_locales, goal_cases)
  case (1 d i)
  then show ?case
    by (cases d) (simp add: servo_open_def Let_def)
next
  case (2 d i)
  then show ?case
    by (cases d) (simp add: servo_open_def Let_def u8_succ_zero_iff split_beta up_servo_setup_ret
        up_servo_setup_ready)
next
  case (3 d i)
  then show ?case
    by (cases d) (auto simp: servo_close_def Let_def up_servo_shutdown_idle)
qed

interpretation sv: refcounted "servo_open SYSCLK_FREQUENCY" servo_close "servo_crefs \<circ> fst"
    "servo_exclsem \<circ> fst" "servo_idle \<circ> snd" "servo_ready SYSCLK_FREQUENCY \<circ> snd"
  by (rule servo_dev_contract)

lemma servo_setpos_effect:
  assumes "unat (servo_id info) < 4" "clk \<le> 80000000" "servo_ready clk b"
  shows "\<exists>b'. up_servo_setpos clk info b = (0, b')
    \<and> irq_off b' = irq_off b \<and> lockcount b' = lockcount b \<and> servo_ready clk b'
    \<and> timer_on (regs b') (g_servo_timers ! unat (servo_id info))
    \<and> timer_match (regs b') (g_servo_timers ! unat (servo_id info)) =
        timer_period (regs b') (g_servo_timers ! unat (servo_id info))
          * min 2400 (544 + 10 * unat (servo_pos info)) div 20000
    \<and> (\<forall>i<4. i \<noteq> unat (servo_id info) \<longrightarrow>
          timer_match (regs b') (g_servo_timers ! i) = timer_match (regs b) (g_servo_timers ! i)
          \<and> timer_on (regs b') (g_servo_timers ! i) = timer_on (regs b) (g_servo_timers ! i))"
proof -
  define b' where "b' = snd (up_servo_setpos clk info b)"
  have eq: "up_servo_setpos clk info b = (0, b')" "irq_off b' = irq_off b" "lockcount b' = lockcount b"
    by (simp_all add: b'_def up_servo_setpos_valid [OF assms(1)])
  have ready: "servo_ready clk b'"
    using servo_setpos_frame(1,2) [OF assms(1) _ refl] assms(3) by (simp add: servo_ready_def b'_def)
  have "timer_match (regs b') (g_servo_timers ! unat (servo_id info)) = unat (servo_match clk (servo_pos info))"
      "timer_on (regs b') (g_servo_timers ! unat (servo_id info))"
    using servo_setpos_regs [OF assms(1,2) refl] by (simp_all add: b'_def)
  moreover have "timer_period (regs b') (g_servo_timers ! unat (servo_id info)) = unat clk div 50"
    using ready assms(1) by (simp add: servo_ready_def)
  moreover have "\<forall>i<4. i \<noteq> unat (servo_id info) \<longrightarrow>
      timer_match (regs b') (g_servo_timers ! i) = timer_match (regs b) (g_servo_timers ! i)
      \<and> timer_on (regs b') (g_servo_timers ! i) = timer_on (regs b) (g_servo_timers ! i)"
    using servo_setpos_frame(3) [OF assms(1) _ refl] by (simp add: b'_def)
  ultimately show ?thesis
    using eq ready by (intro exI [of _ b']) (simp add: unat_servo_match [OF assms(2)])
qed

section \<open>Properties\<close>

definition servo_pose :: "u16 \<Rightarrow> u16 \<Rightarrow> servo_info_s" where
  "servo_pose i p = \<lparr>servo_id = i, servo_port = 0, servo_pin = 0, servo_pos = p\<rparr>"

text \<open>
  C5.  On a set-up board with a system clock of at most 80 MHz, \<^verbatim>\<open>servo_setpos\<close> on a valid channel
  succeeds and programs exactly the intended pulse: the 24-bit match value of the channel's timer
  is the period times the pulse width (544 + 10 pos microseconds, at most 2400) over the 20000
  microseconds of the period, with no loss in the 32-bit product or in the split over the two
  registers; the output is running, the interrupt mask and the scheduler lock are as before, every
  timer keeps its period and PWM mode, and no other channel changes.
\<close>

theorem servo_setpos_pwm:
  assumes "unat (servo_id info) < 4" "clk \<le> 80000000" "servo_ready clk b"
  shows "\<exists>b'. up_servo_setpos clk info b = (0, b')
    \<and> irq_off b' = irq_off b \<and> lockcount b' = lockcount b \<and> servo_ready clk b'
    \<and> timer_on (regs b') (g_servo_timers ! unat (servo_id info))
    \<and> timer_match (regs b') (g_servo_timers ! unat (servo_id info)) =
        timer_period (regs b') (g_servo_timers ! unat (servo_id info))
          * min 2400 (544 + 10 * unat (servo_pos info)) div 20000
    \<and> (\<forall>i<4. i \<noteq> unat (servo_id info) \<longrightarrow>
          timer_match (regs b') (g_servo_timers ! i) = timer_match (regs b) (g_servo_timers ! i)
          \<and> timer_on (regs b') (g_servo_timers ! i) = timer_on (regs b) (g_servo_timers ! i))"
  using assms by (rule servo_setpos_effect)

theorem servo_setpos_pwm_witness:
  "\<exists>b'. up_servo_setpos 80000000 (servo_pose 0 90) (snd (up_servo_setup 80000000 board_reset)) = (0, b')
     \<and> timer_match (regs b') 0x40032000 = 115520"
proof -
  have ready: "servo_ready 80000000 (snd (up_servo_setup 80000000 board_reset))"
    by (rule up_servo_setup_ready) simp
  obtain b' where "up_servo_setpos 80000000 (servo_pose 0 90) (snd (up_servo_setup 80000000 board_reset)) = (0, b')"
      "servo_ready 80000000 b'"
      "timer_match (regs b') 0x40032000 = timer_period (regs b') 0x40032000 * 1444 div 20000"
    using servo_setpos_pwm [OF _ _ ready, of "servo_pose 0 90"]
    by (auto simp: servo_pose_def g_servo_timers_def)
  moreover from this(2) have "timer_period (regs b') 0x40032000 = 1600000"
    by (auto simp: servo_ready_def g_servo_timers_def dest: spec [where x = 0])
  ultimately show ?thesis
    by simp
qed

text \<open>
  From registration on, every sequence of opens and closes of the servo device, with or without
  pending signals, runs to its end and counts like a counter that saturates at 0 and 255; the
  semaphore is free after every call, the servo timers are all off whenever nobody has the device
  open, and are configured for 50 Hz PWM whenever somebody has.
\<close>

theorem servo_device_counts:
  assumes "servo_register True r = (r, Some u)" "servo_idle b"
  shows "\<exists>u' b'. run_dev (servo_open SYSCLK_FREQUENCY) servo_close ops (u, b) = Some (u', b')
    \<and> unat (servo_crefs u') = count_run ops 0 \<and> servo_exclsem u' = 1
    \<and> (count_run ops 0 = 0 \<longrightarrow> servo_idle b')
    \<and> (count_run ops 0 \<noteq> 0 \<longrightarrow> servo_ready SYSCLK_FREQUENCY b')"
proof -
  have "servo_exclsem u = 1" "servo_crefs u = 0"
    using assms(1) by (auto simp: servo_register_def)
  then show ?thesis
    using sv.fresh_run [of "(u, b)" ops] assms(2) by (metis comp_apply fst_conv snd_conv surj_pair)
qed

theorem servo_device_counts_witness:
  "\<exists>u' b'. run_dev (servo_open SYSCLK_FREQUENCY) servo_close
     [(DevOpen, False), (DevOpen, True), (DevClose, False)] (the (snd (servo_register True 0)), board_reset)
       = Some (u', b') \<and> unat (servo_crefs u') = 1 \<and> servo_ready SYSCLK_FREQUENCY b'"
  using servo_device_counts [of 0 "the (snd (servo_register True 0))" board_reset
      "[(DevOpen, False), (DevOpen, True), (DevClose, False)]"]
  by (auto simp: servo_register_def servo_idle_def board_reset_def timer_views)

text \<open>
  C36.  A position request for a channel outside the table is refused with a positive \<^verbatim>\<open>ERANGE\<close> and
  changes no register, but the early return leaves the interrupts masked and the scheduler locked
  once more than before.
\<close>

theorem servo_setpos_bad_channel:
  assumes "4 \<le> unat (servo_id info)" "servo_exclsem u = 1"
  shows "servo_ioctl clk intr SERVOIOC_SETPOS info (u, b) =
    Done ERANGE ((u\<lparr>servo_info := info\<rparr>, b\<lparr>irq_off := True, lockcount := lockcount b + 1\<rparr>), info)"
  using assms by (simp add: servo_ioctl_def up_servo_setpos_def cpu_defs Let_def)

theorem servo_setpos_bad_channel_witness:
  "servo_ioctl SYSCLK_FREQUENCY False SERVOIOC_SETPOS (servo_pose 4 90)
     (the (snd (servo_register True 0)), board_reset) =
   Done ERANGE (((the (snd (servo_register True 0)))\<lparr>servo_info := servo_pose 4 90\<rparr>,
     board_reset\<lparr>irq_off := True, lockcount := 1\<rparr>), servo_pose 4 90)"
  using servo_setpos_bad_channel [of "servo_pose 4 90" "the (snd (servo_register True 0))"]
  by (simp add: servo_pose_def servo_register_def board_reset_def)

text \<open>
  The ioctl dispatcher on a free device: a pin configuration is stored and answered with
  \<^verbatim>\<open>-ENODEV\<close>, the configuration query returns the structure of the last request, and every command
  outside the three known ones calls the NULL \<^verbatim>\<open>ioctl\<close> entry of the lower half.
\<close>

theorem servo_ioctl_dispatch:
  assumes "servo_exclsem u = 1"
  shows "servo_ioctl clk intr SERVOIOC_SETPINCONFIG info (u, b) =
      Done (- ENODEV) ((u\<lparr>servo_info := info\<rparr>, b), info)
    \<and> servo_ioctl clk intr SERVOIOC_SETPOS info (u, b) =
      Done (fst (up_servo_setpos clk info b)) ((u\<lparr>servo_info := info\<rparr>, snd (up_servo_setpos clk info b)), info)
    \<and> servo_ioctl clk intr SERVOIOC_GETPINCONFIG info (u, b) = Done 0 ((u, b), servo_info u)
    \<and> (cmd \<notin> {SERVOIOC_SETPINCONFIG, SERVOIOC_GETPINCONFIG, SERVOIOC_SETPOS} \<longrightarrow>
      servo_ioctl clk intr cmd info (u, b) = NullCall)"
  using assms by (simp add: servo_ioctl_def up_servo_attach_def Let_def split_beta)

theorem servo_ioctl_dispatch_witness:
  "servo_ioctl SYSCLK_FREQUENCY False 0x1304 (servo_pose 0 0)
     (the (snd (servo_register True 0)), board_reset) = NullCall"
  using servo_ioctl_dispatch [of "the (snd (servo_register True 0))" SYSCLK_FREQUENCY False
      "servo_pose 0 0" board_reset "0x1304"]
  by (simp add: servo_register_def)

end
