(* ===== verification/Joint_Control.thy ===== *)
theory Joint_Control
  imports MyCub_Prelude Complex_Main
begin

text \<open>
  The joint controller of the application (\<^verbatim>\<open>apps/system/myCub/lib/mycub_interface.cpp\<close>): one thread per
  joint that waits on a condition variable and moves its servo degree by degree, and the methods of
  \<^verbatim>\<open>MyCubInterface\<close> the main thread calls.  Each section under a mutex is one atomic step, as is each
  unprotected read or write; the steps of the threads and the calls of the main thread interleave in
  any order.  The calls to the devices are recorded in a list of events.
\<close>

section \<open>The state\<close>

abbreviation (input) CTRLSTATE_STOP :: nat where "CTRLSTATE_STOP \<equiv> 1"
abbreviation (input) CTRLSTATE_GOPOS :: nat where "CTRLSTATE_GOPOS \<equiv> 2"
abbreviation (input) CTRLSTATE_WAITING :: nat where "CTRLSTATE_WAITING \<equiv> 3"
abbreviation (input) CTRLSTATE_STOPPING :: nat where "CTRLSTATE_STOPPING \<equiv> 4"

text \<open>
  Where a controller thread is: not created; at the head of its loop; inside \<^verbatim>\<open>pthread_cond_wait\<close>;
  woken; about to read its parameters; in the motion loop with loop variable, target and delay, going
  up or down; after the command for the loop variable was sent; about to call the callback; after
  the loop; terminated.
\<close>

datatype pc = NotStarted | Head | CondWait | Woken | Load
  | Move int int "nat option" bool | Sent int int "nat option" bool | Callback | Finish | Exited

record controlparam_t =
  targetPos :: int
  ctl_time :: rat
  status :: nat
  has_callback :: bool
  ctl_pc :: pc

text \<open>The main thread is free to call a method, waits in \<^verbatim>\<open>gotoPoseSync\<close>, or is in \<^verbatim>\<open>stopController\<close> at one
  of the four controllers, about to read its status or about to signal it, called from \<^verbatim>\<open>fini\<close> or not.\<close>

datatype main_pc = MainIdle | SyncWait nat | Stopping nat bool | StopSignal nat bool

datatype io_event = SetPos nat int | USleep nat "nat option" | AttachRange nat | ReadRange
  | CloseServo | CloseRange | CloseAdc

record MyCubInterface =
  fd_servo :: int
  fd_range :: int
  fd_adc :: int
  joints_pos :: "nat \<Rightarrow> int"
  ctrl :: "nat \<Rightarrow> controlparam_t"
  main :: main_pc
  io :: "io_event list"

definition cub_new :: MyCubInterface where
  "cub_new = \<lparr>fd_servo = - 1, fd_range = - 1, fd_adc = - 1, joints_pos = (\<lambda>_. 8),
     ctrl = (\<lambda>_. \<lparr>targetPos = 0, ctl_time = 0, status = 0, has_callback = False, ctl_pc = NotStarted\<rparr>),
     main = MainIdle, io = []\<rparr>"

section \<open>The controller thread\<close>

text \<open>
  \<^verbatim>\<open>(t * 1000000) / abs(pos - curPos)\<close> converted to \<^verbatim>\<open>unsigned long\<close>; the division by zero and the
  conversion of a negative or too large value are undefined.
\<close>

definition delay_step :: "rat \<Rightarrow> int \<Rightarrow> int \<Rightarrow> nat option" where
  "delay_step t pos curPos =
    (if pos = curPos then None
     else
       let d = \<lfloor>t * 1000000 / of_int \<bar>pos - curPos\<bar>\<rfloor>
       in if 0 \<le> d \<and> d < 2 ^ 32 then Some (nat d) else None)"

definition set_pc :: "nat \<Rightarrow> pc \<Rightarrow> MyCubInterface \<Rightarrow> MyCubInterface" where
  "set_pc j p s = s\<lparr>ctrl := (ctrl s)(j := (ctrl s j)\<lparr>ctl_pc := p\<rparr>)\<rparr>"

text \<open>
  One atomic step of the thread of joint \<^verbatim>\<open>j\<close>; None when it is blocked, not created or terminated.
\<close>

definition controller :: "nat \<Rightarrow> MyCubInterface \<Rightarrow> MyCubInterface option" where
  "controller j s =
    (case ctl_pc (ctrl s j) of
       NotStarted \<Rightarrow> None
     | Head \<Rightarrow>
         Some (s\<lparr>ctrl := (ctrl s)(j := (ctrl s j)\<lparr>status := CTRLSTATE_WAITING, ctl_pc := CondWait\<rparr>)\<rparr>)
     | CondWait \<Rightarrow> None
     | Woken \<Rightarrow>
         Some (if status (ctrl s j) = CTRLSTATE_STOP then set_pc j Finish s
               else if status (ctrl s j) = CTRLSTATE_GOPOS then set_pc j Load s
               else set_pc j Head s)
     | Load \<Rightarrow>
         (let pos = targetPos (ctrl s j); curPos = joints_pos s j
          in Some (set_pc j (Move curPos pos (delay_step (ctl_time (ctrl s j)) pos curPos) (curPos < pos)) s))
     | Move i pos d up \<Rightarrow>
         Some (if (if up then i < pos else pos < i)
               then (set_pc j (Sent i pos d up) s)\<lparr>io := io s @ [SetPos j i, USleep j d]\<rparr>
               else set_pc j Callback s)
     | Sent i pos d up \<Rightarrow>
         Some ((set_pc j (Move (if up then i + 1 else i - 1) pos d up) s)
                 \<lparr>joints_pos := (joints_pos s)(j := i)\<rparr>)
     | Callback \<Rightarrow>
         Some ((set_pc j Head s)
                 \<lparr>main := (if has_callback (ctrl s j) \<and> main s = SyncWait j then MainIdle else main s)\<rparr>)
     | Finish \<Rightarrow>
         Some (s\<lparr>ctrl := (ctrl s)(j := (ctrl s j)\<lparr>status := CTRLSTATE_STOPPING, ctl_pc := Exited\<rparr>)\<rparr>)
     | Exited \<Rightarrow> None)"

text \<open>\<^verbatim>\<open>pthread_cond_signal\<close> on a controller's condition variable: lost unless the thread waits on it.\<close>

definition cond_signal :: "nat \<Rightarrow> MyCubInterface \<Rightarrow> MyCubInterface" where
  "cond_signal j s = (if ctl_pc (ctrl s j) = CondWait then set_pc j Woken s else s)"

section \<open>The methods\<close>

definition valid_pose :: "nat \<Rightarrow> int \<Rightarrow> bool" where
  "valid_pose joint pos \<longleftrightarrow> \<not> (pos < 8 \<or> 160 < pos \<or> 3 < joint)"

definition setPose :: "nat \<Rightarrow> int \<Rightarrow> MyCubInterface \<Rightarrow> bool \<times> MyCubInterface" where
  "setPose joint pos s =
    (if fd_servo s < 0 then (False, s)
     else if \<not> valid_pose joint pos then (False, s)
     else (True, s\<lparr>io := io s @ [SetPos joint pos], joints_pos := (joints_pos s)(joint := pos)\<rparr>))"

definition request_pose :: "nat \<Rightarrow> int \<Rightarrow> rat \<Rightarrow> bool \<Rightarrow> MyCubInterface \<Rightarrow> MyCubInterface" where
  "request_pose joint pos t cb s =
    cond_signal joint (s\<lparr>ctrl := (ctrl s)(joint := (ctrl s joint)\<lparr>targetPos := pos, ctl_time := t,
      status := CTRLSTATE_GOPOS, has_callback := cb \<or> has_callback (ctrl s joint)\<rparr>)\<rparr>)"

definition gotoPose :: "nat \<Rightarrow> int \<Rightarrow> rat \<Rightarrow> MyCubInterface \<Rightarrow> bool \<times> MyCubInterface" where
  "gotoPose joint pos t s =
    (if fd_servo s < 0 then (False, s)
     else if \<not> valid_pose joint pos then (False, s)
     else (True, request_pose joint pos t False s))"

text \<open>
  \<^verbatim>\<open>gotoPoseSync\<close> up to its wait; it holds the mutex of its condition variable from before the signal
  until the wait, so the callback cannot come earlier.  It returns true when the main thread is
  idle again.
\<close>

definition gotoPoseSync :: "nat \<Rightarrow> int \<Rightarrow> rat \<Rightarrow> MyCubInterface \<Rightarrow> bool \<times> MyCubInterface" where
  "gotoPoseSync joint pos t s =
    (if fd_servo s < 0 then (False, s)
     else if \<not> valid_pose joint pos then (False, s)
     else (True, (request_pose joint pos t True s)\<lparr>main := SyncWait joint\<rparr>))"

definition getPose :: "nat \<Rightarrow> MyCubInterface \<Rightarrow> int" where
  "getPose joint s = (if 3 < joint then - 1 else joints_pos s joint)"

definition checkMotionDone :: "nat \<Rightarrow> MyCubInterface \<Rightarrow> bool" where
  "checkMotionDone joint s \<longleftrightarrow> status (ctrl s joint) \<noteq> CTRLSTATE_GOPOS"

definition checkMotionDoneAll :: "MyCubInterface \<Rightarrow> bool" where
  "checkMotionDoneAll s \<longleftrightarrow> (\<forall>i\<in>{0, 1, 2, 3}. checkMotionDone i s)"

record JointContext =
  joint_0 :: int
  joint_1 :: int
  joint_2 :: int
  joint_3 :: int

definition getContext :: "MyCubInterface \<Rightarrow> JointContext" where
  "getContext s = \<lparr>joint_0 = getPose 0 s, joint_1 = getPose 1 s, joint_2 = getPose 2 s, joint_3 = getPose 3 s\<rparr>"

definition setContext :: "JointContext \<Rightarrow> MyCubInterface \<Rightarrow> MyCubInterface" where
  "setContext ctx s =
    (let s1 = snd (setPose 0 (joint_0 ctx) s);
         s2 = snd (setPose 1 (joint_1 ctx) s1);
         s3 = snd (setPose 2 (joint_2 ctx) s2)
     in snd (setPose 3 (joint_3 ctx) s3))"

text \<open>
  \<^verbatim>\<open>startController\<close>.  The results of the calls to the system are arguments: \<^verbatim>\<open>servo_devinit\<close>, \<^verbatim>\<open>open\<close>,
  the two attribute calls, and for each joint the initialisation of its mutexes, of its condition
  variables and the creation of its thread.  On failure \<^verbatim>\<open>fini\<close> runs, which enters \<^verbatim>\<open>stopController\<close>.
\<close>

record start_env =
  devinit_ret :: int
  open_ret :: int
  attr_ret :: int
  sched_ret :: int
  joint_rets :: "(int \<times> int \<times> int) list"

fun start_threads :: "nat \<Rightarrow> (int \<times> int \<times> int) list \<Rightarrow> MyCubInterface \<Rightarrow> bool \<times> MyCubInterface" where
  "start_threads i [] s = (True, s)"
| "start_threads i ((mutex_ret, cond_ret, create_ret) # rets) s =
    (let s1 = s\<lparr>ctrl := (ctrl s)(i := (ctrl s i)\<lparr>targetPos := 8, ctl_time := 1, has_callback := False\<rparr>)\<rparr>
     in if mutex_ret \<noteq> 0 \<or> cond_ret \<noteq> 0 \<or> create_ret \<noteq> 0 then (False, s1)
        else start_threads (Suc i) rets (set_pc i Head s1))"

definition stopController_begin :: "bool \<Rightarrow> MyCubInterface \<Rightarrow> MyCubInterface" where
  "stopController_begin from_fini s = s\<lparr>main := Stopping 0 from_fini\<rparr>"

definition startController :: "start_env \<Rightarrow> MyCubInterface \<Rightarrow> bool \<times> MyCubInterface" where
  "startController env s =
    (if 0 \<le> fd_servo s then (True, s)
     else if devinit_ret env \<noteq> 0 then (False, s)
     else
       let s1 = s\<lparr>fd_servo := open_ret env\<rparr>
       in if open_ret env < 0 then (False, stopController_begin True s1)
          else if attr_ret env \<noteq> 0 then (False, stopController_begin True s1)
          else if sched_ret env \<noteq> 0 then (False, stopController_begin True s1)
          else
            let (ok, s2) = start_threads 0 (joint_rets env) s1
            in if ok then (True, s2) else (False, stopController_begin True s2))"

text \<open>
  One round of \<^verbatim>\<open>stopController\<close> in the main thread: it polls the status of controller \<^verbatim>\<open>i\<close>, asks a waiting
  one to stop, and goes on to the next when this one reports that it is stopping and has terminated
  (\<^verbatim>\<open>pthread_join\<close> blocks until then); after the fourth it closes the servo device, and \<^verbatim>\<open>fini\<close> closes
  the other two.
\<close>

definition fini_end :: "MyCubInterface \<Rightarrow> MyCubInterface" where
  "fini_end s =
    (let s1 = (if fd_range s \<noteq> - 1 then s\<lparr>io := io s @ [CloseRange], fd_range := - 1\<rparr> else s)
     in if fd_adc s1 \<noteq> - 1 then s1\<lparr>io := io s1 @ [CloseAdc], fd_adc := - 1\<rparr> else s1)"

definition stopController :: "MyCubInterface \<Rightarrow> MyCubInterface option" where
  "stopController s =
    (case main s of
       Stopping i from_fini \<Rightarrow>
         if 4 \<le> i then
           let s1 = (if fd_servo s \<noteq> - 1 then s\<lparr>io := io s @ [CloseServo], fd_servo := - 1\<rparr> else s);
               s2 = (if from_fini then fini_end s1 else s1)
           in Some (s2\<lparr>main := MainIdle\<rparr>)
         else if status (ctrl s i) = CTRLSTATE_STOPPING then
           (if ctl_pc (ctrl s i) \<in> {NotStarted, Exited} then Some (s\<lparr>main := Stopping (i + 1) from_fini\<rparr>)
            else None)
         else if status (ctrl s i) = CTRLSTATE_WAITING then Some (s\<lparr>main := StopSignal i from_fini\<rparr>)
         else Some s
     | StopSignal i from_fini \<Rightarrow>
         Some (cond_signal i (s\<lparr>ctrl := (ctrl s)(i := (ctrl s i)\<lparr>status := CTRLSTATE_STOP\<rparr>),
           main := Stopping i from_fini\<rparr>))
     | _ \<Rightarrow> None)"

text \<open>
  \<^verbatim>\<open>init\<close>, with the results of the device initialisations, opens and the compass as arguments.
\<close>

record init_env =
  range_devinit_ret :: int
  range_open_ret :: int
  adc_devinit_ret :: int
  adc_open_ret :: int
  compass_ok :: bool

definition cub_init :: "init_env \<Rightarrow> MyCubInterface \<Rightarrow> bool \<times> MyCubInterface" where
  "cub_init env s =
    (let fail = (\<lambda>s. (False, stopController_begin True s));
         compass = (\<lambda>s. if compass_ok env then (True, s) else fail s);
         adc = (\<lambda>s. if fd_adc s < 0 then
                      (if adc_devinit_ret env \<noteq> 0 then fail s
                       else
                         let s' = s\<lparr>fd_adc := adc_open_ret env\<rparr>
                         in if adc_open_ret env < 0 then fail s' else compass s')
                    else compass s)
     in if fd_range s < 0 then
          (if range_devinit_ret env \<noteq> 0 then fail s
           else
             let s' = s\<lparr>fd_range := range_open_ret env\<rparr>
             in if range_open_ret env < 0 then fail s'
                else adc (s'\<lparr>io := io s' @ [AttachRange 0, ReadRange]\<rparr>))
        else adc s)"

section \<open>The system\<close>

text \<open>
  A step of the whole system: a controller thread, the polling of \<^verbatim>\<open>stopController\<close>, a method call
  of the idle main thread, with any arguments and any results from the system, or a request for a
  motion by another thread (the walker or the dancer), which may come at any time.
\<close>

inductive cub_step :: "MyCubInterface \<Rightarrow> MyCubInterface \<Rightarrow> bool" where
  thread: "j < 4 \<Longrightarrow> controller j s = Some s' \<Longrightarrow> cub_step s s'"
| stopping: "stopController s = Some s' \<Longrightarrow> cub_step s s'"
| set_pose: "main s = MainIdle \<Longrightarrow> cub_step s (snd (setPose joint pos s))"
| goto_pose: "main s = MainIdle \<Longrightarrow> cub_step s (snd (gotoPose joint pos t s))"
| goto_pose_sync: "main s = MainIdle \<Longrightarrow> cub_step s (snd (gotoPoseSync joint pos t s))"
| init: "main s = MainIdle \<Longrightarrow> cub_step s (snd (cub_init ienv s))"
| start: "main s = MainIdle \<Longrightarrow> length (joint_rets senv) = 4 \<Longrightarrow> cub_step s (snd (startController senv s))"
| stop: "main s = MainIdle \<Longrightarrow> cub_step s (stopController_begin from_fini s)"
| other_goto: "cub_step s (snd (gotoPose joint pos t s))"
| other_goto_sync: "0 \<le> fd_servo s \<Longrightarrow> valid_pose joint pos \<Longrightarrow> cub_step s (request_pose joint pos t True s)"

inductive cub_reachable :: "MyCubInterface \<Rightarrow> bool" where
  new: "cub_reachable cub_new"
| step: "cub_reachable s \<Longrightarrow> cub_step s s' \<Longrightarrow> cub_reachable s'"

subsection \<open>The pose invariant\<close>

definition pose_ok :: "int \<Rightarrow> bool" where
  "pose_ok p \<longleftrightarrow> 8 \<le> p \<and> p \<le> 160"

fun pc_ok :: "pc \<Rightarrow> bool" where
  "pc_ok (Move i pos d up) \<longleftrightarrow> pose_ok pos \<and> (if up then 8 \<le> i \<and> i \<le> pos else pos \<le> i \<and> i \<le> 160)"
| "pc_ok (Sent i pos d up) \<longleftrightarrow> pose_ok pos \<and> (if up then 8 \<le> i \<and> i < pos else pos < i \<and> i \<le> 160)"
| "pc_ok _ \<longleftrightarrow> True"

definition ctrl_ok :: "controlparam_t \<Rightarrow> bool" where
  "ctrl_ok c \<longleftrightarrow> pc_ok (ctl_pc c) \<and> (ctl_pc c = NotStarted \<or> pose_ok (targetPos c))"

fun event_ok :: "io_event \<Rightarrow> bool" where
  "event_ok (SetPos j p) \<longleftrightarrow> j < 4 \<and> pose_ok p"
| "event_ok _ \<longleftrightarrow> True"

definition cub_inv :: "MyCubInterface \<Rightarrow> bool" where
  "cub_inv s \<longleftrightarrow> (\<forall>j. pose_ok (joints_pos s j)) \<and> (\<forall>j. ctrl_ok (ctrl s j)) \<and> (\<forall>e\<in>set (io s). event_ok e)"

lemma cub_inv_new: "cub_inv cub_new"
  by (simp add: cub_inv_def cub_new_def ctrl_ok_def pose_ok_def)

lemma controller_inv:
  assumes "controller j s = Some s'" "j < 4" "cub_inv s"
  shows "cub_inv s'"
proof -
  have ok: "ctrl_ok (ctrl s j)" "pose_ok (joints_pos s j)"
    using assms(3) by (simp_all add: cub_inv_def)
  show ?thesis
    using assms ok
    by (cases "ctl_pc (ctrl s j)")
      (auto simp: controller_def set_pc_def cub_inv_def ctrl_ok_def pose_ok_def Let_def split: if_splits)
qed

lemma cond_signal_inv:
  assumes "cub_inv s"
  shows "cub_inv (cond_signal j s)"
proof -
  have "ctrl_ok (ctrl s j)"
    using assms by (simp add: cub_inv_def)
  then have "ctl_pc (ctrl s j) = CondWait \<Longrightarrow> ctrl_ok ((ctrl s j)\<lparr>ctl_pc := Woken\<rparr>)"
    by (simp add: ctrl_ok_def)
  with assms show ?thesis
    by (auto simp: cond_signal_def set_pc_def cub_inv_def)
qed

lemma setPose_inv: "cub_inv s \<Longrightarrow> cub_inv (snd (setPose joint pos s))"
  by (auto simp: setPose_def valid_pose_def cub_inv_def pose_ok_def)

lemma request_pose_inv: "cub_inv s \<Longrightarrow> pose_ok pos \<Longrightarrow> cub_inv (request_pose joint pos t cb s)"
  unfolding request_pose_def by (rule cond_signal_inv) (auto simp: cub_inv_def ctrl_ok_def)

lemma gotoPose_inv: "cub_inv s \<Longrightarrow> cub_inv (snd (gotoPose joint pos t s))"
  by (auto simp: gotoPose_def valid_pose_def pose_ok_def intro: request_pose_inv)

lemma cub_inv_main [simp]: "cub_inv (s\<lparr>main := p\<rparr>) = cub_inv s"
  by (simp add: cub_inv_def)

lemma gotoPoseSync_inv: "cub_inv s \<Longrightarrow> cub_inv (snd (gotoPoseSync joint pos t s))"
  by (auto simp: gotoPoseSync_def valid_pose_def pose_ok_def intro: request_pose_inv)

lemma start_threads_inv: "cub_inv s \<Longrightarrow> cub_inv (snd (start_threads i rets s))"
proof (induction i rets s rule: start_threads.induct)
  case (2 i m c r rets s)
  then show ?case
    by (auto simp: Let_def set_pc_def cub_inv_def ctrl_ok_def pose_ok_def)
qed simp

lemma startController_inv: "cub_inv s \<Longrightarrow> cub_inv (snd (startController env s))"
  using start_threads_inv [of "s\<lparr>fd_servo := open_ret env\<rparr>" 0 "joint_rets env"]
  by (auto simp: startController_def stopController_begin_def Let_def split_beta) (auto simp: cub_inv_def)

lemma cub_init_inv: "cub_inv s \<Longrightarrow> cub_inv (snd (cub_init env s))"
  by (auto simp: cub_init_def stopController_begin_def Let_def cub_inv_def)

lemma stopController_inv: "stopController s = Some s' \<Longrightarrow> cub_inv s \<Longrightarrow> cub_inv s'"
  by (auto simp: stopController_def fini_end_def Let_def split: main_pc.splits if_splits intro!: cond_signal_inv)
    (auto simp: cub_inv_def ctrl_ok_def)

lemma valid_request_inv: "valid_pose joint pos \<Longrightarrow> cub_inv s \<Longrightarrow> cub_inv (request_pose joint pos t cb s)"
  by (auto simp: valid_pose_def pose_ok_def intro: request_pose_inv)

lemma setContext_inv: "cub_inv s \<Longrightarrow> cub_inv (setContext ctx s)"
  by (simp add: setContext_def Let_def setPose_inv)

lemma getContext_setContext:
  assumes "0 \<le> fd_servo s" "pose_ok (joint_0 ctx)" "pose_ok (joint_1 ctx)" "pose_ok (joint_2 ctx)" "pose_ok (joint_3 ctx)"
  shows "getContext (setContext ctx s) = ctx"
  using assms by (simp add: getContext_def setContext_def getPose_def setPose_def valid_pose_def pose_ok_def Let_def)

lemma cub_step_inv: "cub_step s s' \<Longrightarrow> cub_inv s \<Longrightarrow> cub_inv s'"
  by (induction rule: cub_step.induct)
    (auto simp: stopController_begin_def intro: controller_inv stopController_inv setPose_inv gotoPose_inv gotoPoseSync_inv
      cub_init_inv startController_inv valid_request_inv)

lemma cub_reachable_inv: "cub_reachable s \<Longrightarrow> cub_inv s"
  by (induction rule: cub_reachable.induct) (auto simp: cub_inv_new intro: cub_step_inv)

section \<open>A motion\<close>

fun ctl_run :: "nat \<Rightarrow> nat \<Rightarrow> MyCubInterface \<Rightarrow> MyCubInterface option" where
  "ctl_run 0 j s = Some s"
| "ctl_run (Suc n) j s = (case controller j s of None \<Rightarrow> None | Some s' \<Rightarrow> ctl_run n j s')"

lemma ctl_run_add: "ctl_run m j s = Some s' \<Longrightarrow> ctl_run (m + n) j s = ctl_run n j s'"
  by (induction m arbitrary: s) (auto split: option.splits)

text \<open>The positions the motion loop visits, and the commands it sends for them.\<close>

definition motion_path :: "int \<Rightarrow> int \<Rightarrow> int list" where
  "motion_path i pos = (if i \<le> pos then [i..pos - 1] else rev [pos + 1..i])"

definition motion_io :: "nat \<Rightarrow> nat option \<Rightarrow> int list \<Rightarrow> io_event list" where
  "motion_io j d path = concat (map (\<lambda>i. [SetPos j i, USleep j d]) path)"

lemma motion_path_end [simp]: "motion_path pos pos = []"
  by (simp add: motion_path_def)

lemma motion_path_up: "i < pos \<Longrightarrow> motion_path i pos = i # motion_path (i + 1) pos"
  by (simp add: motion_path_def upto_rec1)

lemma motion_path_down:
  assumes "pos < i"
  shows "motion_path i pos = i # motion_path (i - 1) pos"
proof -
  have "[pos + 1..i] = [pos + 1..i - 1] @ [i]"
    using assms by (simp add: upto_rec2)
  then show ?thesis
    using assms by (cases "i - 1 = pos") (auto simp: motion_path_def)
qed

lemma motion_io_Cons: "motion_io j d (i # path) = [SetPos j i, USleep j d] @ motion_io j d path"
  by (simp add: motion_io_def)

text \<open>The last position stored: the loop variable's last value inside the loop.\<close>

definition motion_end :: "int \<Rightarrow> int \<Rightarrow> int" where
  "motion_end i pos = (if i < pos then pos - 1 else if pos < i then pos + 1 else i)"

definition moved :: "nat \<Rightarrow> int \<Rightarrow> io_event list \<Rightarrow> pc \<Rightarrow> MyCubInterface \<Rightarrow> MyCubInterface" where
  "moved j p evs q s = (set_pc j q s)\<lparr>joints_pos := (joints_pos s)(j := p), io := io s @ evs\<rparr>"

lemma controller_Move:
  assumes "ctl_pc (ctrl s j) = Move i pos d up" "if up then i < pos else pos < i"
  shows "ctl_run 2 j s = Some (moved j i [SetPos j i, USleep j d] (Move (if up then i + 1 else i - 1) pos d up) s)"
  using assms by (auto simp: controller_def set_pc_def moved_def numeral_2_eq_2)

lemma moved_moved: "moved j p' evs' q' (moved j p evs q s) = moved j p' (evs @ evs') q' s"
  by (simp add: moved_def set_pc_def)

lemma moved_pc [simp]: "ctl_pc (ctrl (moved j p evs q s) j) = q"
  by (simp add: moved_def set_pc_def)

lemma moved_joint [simp]: "joints_pos (moved j p evs q s) j = p"
  by (simp add: moved_def set_pc_def)

lemma motion_loop:
  assumes "ctl_pc (ctrl s j) = Move i pos d up" "if up then i \<le> pos else pos \<le> i"
  shows "ctl_run (2 * nat \<bar>pos - i\<bar>) j s =
    Some (moved j (if i = pos then joints_pos s j else motion_end i pos) (motion_io j d (motion_path i pos))
      (Move pos pos d up) s)"
  using assms
proof (induction "nat \<bar>pos - i\<bar>" arbitrary: i s)
  case 0
  then show ?case
    by (cases s, cases "ctrl s j") (auto simp: moved_def set_pc_def motion_io_def fun_upd_idem)
next
  case (Suc n)
  define i' where "i' = (if up then i + 1 else i - 1)"
  define s' where "s' = moved j i [SetPos j i, USleep j d] (Move i' pos d up) s"
  have ne: "if up then i < pos else pos < i"
    using Suc.hyps(2) Suc.prems(2) by (cases up) auto
  have n: "n = nat \<bar>pos - i'\<bar>"
    using Suc.hyps(2) ne by (cases up) (auto simp: i'_def)
  have run: "ctl_run 2 j s = Some s'"
    using controller_Move [OF Suc.prems(1) ne] by (simp add: s'_def i'_def)
  have len: "2 * nat \<bar>pos - i\<bar> = 2 + 2 * nat \<bar>pos - i'\<bar>"
    using n Suc.hyps(2) by simp
  have path: "motion_path i pos = i # motion_path i' pos"
    using ne by (cases up) (auto simp: i'_def motion_path_up motion_path_down)
  have last: "(if i' = pos then joints_pos s' j else motion_end i' pos) = motion_end i pos" "i \<noteq> pos"
    using ne by (cases up; auto simp: s'_def motion_end_def i'_def)+
  have "ctl_run (2 * nat \<bar>pos - i'\<bar>) j s' = Some (moved j (if i' = pos then joints_pos s' j else motion_end i' pos)
      (motion_io j d (motion_path i' pos)) (Move pos pos d up) s')"
    by (rule Suc.hyps(1) [OF n]) (use ne in \<open>auto simp: s'_def i'_def\<close>)
  also have "\<dots> = Some (moved j (motion_end i pos) (motion_io j d (motion_path i pos)) (Move pos pos d up) s)"
    by (simp only: last path motion_io_Cons) (simp only: s'_def moved_moved)
  finally show ?case
    using last(2) by (simp only: len ctl_run_add [OF run] if_False)
qed

definition waiting :: "nat \<Rightarrow> MyCubInterface \<Rightarrow> MyCubInterface" where
  "waiting j s = s\<lparr>ctrl := (ctrl s)(j := (ctrl s j)\<lparr>status := CTRLSTATE_WAITING, ctl_pc := CondWait\<rparr>),
     main := (if has_callback (ctrl s j) \<and> main s = SyncWait j then MainIdle else main s)\<rparr>"

lemma motion_finish:
  "ctl_pc (ctrl s j) = Move pos pos d up \<Longrightarrow> ctl_run 3 j s = Some (waiting j s)"
  by (simp add: controller_def set_pc_def waiting_def numeral_3_eq_3)

lemma motion_from_Move:
  assumes "ctl_pc (ctrl s j) = Move i pos d up" "if up then i \<le> pos else pos \<le> i"
  shows "\<exists>n. ctl_run n j s = Some (waiting j (moved j (if i = pos then joints_pos s j else motion_end i pos)
    (motion_io j d (motion_path i pos)) (Move pos pos d up) s))"
  using ctl_run_add [OF motion_loop [OF assms], of 3] motion_finish [of "moved j _ _ (Move pos pos d up) s" j]
  by (metis moved_pc)

lemma motion_start:
  assumes "ctl_pc (ctrl s j) = Woken" "status (ctrl s j) = CTRLSTATE_GOPOS"
  shows "ctl_run 2 j s = Some (set_pc j (Move (joints_pos s j) (targetPos (ctrl s j))
    (delay_step (ctl_time (ctrl s j)) (targetPos (ctrl s j)) (joints_pos s j))
    (joints_pos s j < targetPos (ctrl s j))) s)"
  using assms by (simp add: controller_def set_pc_def Let_def numeral_2_eq_2)

lemma motion_whole:
  assumes "ctl_pc (ctrl s j) = Woken" "status (ctrl s j) = CTRLSTATE_GOPOS"
    and "cur = joints_pos s j" "pos = targetPos (ctrl s j)" "d = delay_step (ctl_time (ctrl s j)) pos cur"
  shows "\<exists>n. ctl_run n j s = Some (waiting j (moved j (motion_end cur pos) (motion_io j d (motion_path cur pos))
    (Move pos pos d (cur < pos)) s))"
proof -
  define s1 where "s1 = set_pc j (Move cur pos d (cur < pos)) s"
  have s1: "ctl_run 2 j s = Some s1"
    using motion_start [OF assms(1,2)] assms(3-5) by (simp add: s1_def)
  have pc: "ctl_pc (ctrl s1 j) = Move cur pos d (cur < pos)" and cur: "joints_pos s1 j = cur"
    by (simp_all add: s1_def set_pc_def assms(3))
  have dir: "if cur < pos then cur \<le> pos else pos \<le> cur"
    by simp
  from motion_from_Move [OF pc dir] obtain n where "ctl_run n j s1 =
      Some (waiting j (moved j (if cur = pos then cur else motion_end cur pos) (motion_io j d (motion_path cur pos))
        (Move pos pos d (cur < pos)) s1))"
    using cur by auto
  moreover have "(if cur = pos then cur else motion_end cur pos) = motion_end cur pos"
    by (simp add: motion_end_def)
  moreover have "moved j p evs q s1 = moved j p evs q s" for p evs q
    by (simp add: s1_def moved_def set_pc_def)
  ultimately have "ctl_run (2 + n) j s = Some (waiting j (moved j (motion_end cur pos)
      (motion_io j d (motion_path cur pos)) (Move pos pos d (cur < pos)) s))"
    by (simp only: ctl_run_add [OF s1])
  then show ?thesis
    by blast
qed

section \<open>Properties\<close>

text \<open>
  C2.  Safety of the joints: in every state the system can reach, under every interleaving of the four
  controller threads with the calls of the main thread and for all arguments and all failures of
  the system calls, every position ever sent to the servo device is for one of the four joints and
  between 8 and 160, and so is every stored joint position.
\<close>

theorem servo_commands_in_range:
  assumes "cub_reachable s"
  shows "(\<forall>j p. SetPos j p \<in> set (io s) \<longrightarrow> j < 4 \<and> 8 \<le> p \<and> p \<le> 160)
    \<and> 8 \<le> joints_pos s j \<and> joints_pos s j \<le> 160"
  using cub_reachable_inv [OF assms] by (fastforce simp: cub_inv_def pose_ok_def)

definition start_ok :: start_env where
  "start_ok = \<lparr>devinit_ret = 0, open_ret = 3, attr_ret = 0, sched_ret = 0, joint_rets = replicate 4 (0, 0, 0)\<rparr>"

definition cub_started :: MyCubInterface where
  "cub_started = snd (startController start_ok cub_new)"

lemma cub_started_reachable: "cub_reachable cub_started"
  unfolding cub_started_def
  by (rule cub_reachable.step [OF cub_reachable.new]) (auto intro!: cub_step.start simp: cub_new_def start_ok_def)

lemma cub_started_main: "main cub_started = MainIdle" "fd_servo cub_started = 3" "io cub_started = []"
  by (simp_all add: cub_started_def startController_def start_ok_def cub_new_def set_pc_def Let_def
      numeral_eq_Suc)

theorem servo_commands_in_range_witness:
  "cub_reachable (snd (setPose 0 90 cub_started)) \<and> SetPos 0 90 \<in> set (io (snd (setPose 0 90 cub_started)))
   \<and> 8 \<le> joints_pos (snd (setPose 0 90 cub_started)) 0"
proof -
  have reach: "cub_reachable (snd (setPose 0 90 cub_started))"
    by (rule cub_reachable.step [OF cub_started_reachable]) (auto intro!: cub_step.set_pose simp: cub_started_main)
  then show ?thesis
    using servo_commands_in_range [OF reach, of 0]
    by (simp add: setPose_def valid_pose_def cub_started_main)
qed

text \<open>
  C20.  A motion: when \<^verbatim>\<open>gotoPose\<close> reaches a waiting controller, the controller thread, running by itself,
  sends every position from the current one up (or down) to the one just before the target, one
  after the other, with the computed delay after each, and waits again; no other joint changes.
  The target itself is never sent: the joint ends one degree short of it, and that is the
  position reported afterwards.
\<close>

theorem gotoPose_motion:
  assumes "0 \<le> fd_servo s" "valid_pose j pos" "ctl_pc (ctrl s j) = CondWait"
  shows "\<exists>n s'. fst (gotoPose j pos t s) \<and> ctl_run n j (snd (gotoPose j pos t s)) = Some s'
    \<and> io s' = io s @ motion_io j (delay_step t pos (joints_pos s j)) (motion_path (joints_pos s j) pos)
    \<and> joints_pos s' = (joints_pos s)(j := motion_end (joints_pos s j) pos)
    \<and> ctl_pc (ctrl s' j) = CondWait \<and> checkMotionDone j s' \<and> (\<forall>k. k \<noteq> j \<longrightarrow> ctrl s' k = ctrl s k)"
proof -
  define s1 where "s1 = request_pose j pos t False s"
  have s1: "ctl_pc (ctrl s1 j) = Woken" "status (ctrl s1 j) = CTRLSTATE_GOPOS" "joints_pos s1 = joints_pos s"
      "targetPos (ctrl s1 j) = pos" "ctl_time (ctrl s1 j) = t" "io s1 = io s" "\<forall>k. k \<noteq> j \<longrightarrow> ctrl s1 k = ctrl s k"
    using assms(3) by (simp_all add: s1_def request_pose_def cond_signal_def set_pc_def)
  have call: "gotoPose j pos t s = (True, s1)"
    using assms(1,2) by (simp add: gotoPose_def s1_def)
  obtain n where run: "ctl_run n j s1 = Some (waiting j (moved j (motion_end (joints_pos s j) pos)
      (motion_io j (delay_step t pos (joints_pos s j)) (motion_path (joints_pos s j) pos))
      (Move pos pos (delay_step t pos (joints_pos s j)) (joints_pos s j < pos)) s1))"
    using motion_whole [OF s1(1,2) refl refl refl] by (auto simp: s1)
  show ?thesis
    unfolding call fst_conv snd_conv
    by (intro exI conjI, rule TrueI, rule run)
      (use s1(3,6,7) in \<open>simp_all add: waiting_def moved_def set_pc_def checkMotionDone_def\<close>)
qed

text \<open>The started system with controller 2 waiting.\<close>

definition cub_waiting :: MyCubInterface where
  "cub_waiting = the (controller 2 cub_started)"

lemma cub_waiting_state:
  "fd_servo cub_waiting = 3" "ctl_pc (ctrl cub_waiting 2) = CondWait" "joints_pos cub_waiting = (\<lambda>_. 8)"
  "io cub_waiting = []" "main cub_waiting = MainIdle"
  by (simp_all add: cub_waiting_def cub_started_def startController_def start_ok_def cub_new_def set_pc_def
      controller_def Let_def numeral_eq_Suc)

theorem gotoPose_motion_witness:
  "\<exists>n s'. ctl_run n 2 (snd (gotoPose 2 10 (1 / 2) cub_waiting)) = Some s'
    \<and> io s' = [SetPos 2 8, USleep 2 (Some 250000), SetPos 2 9, USleep 2 (Some 250000)] \<and> joints_pos s' 2 = 9"
proof -
  have "delay_step (1 / 2) 10 8 = Some 250000" "motion_path 8 10 = [8, 9]"
    by (simp_all add: delay_step_def Let_def motion_path_def upto_rec1)
  then obtain n s' where "ctl_run n 2 (snd (gotoPose 2 10 (1 / 2) cub_waiting)) = Some s'"
      "io s' = [SetPos 2 8, USleep 2 (Some 250000), SetPos 2 9, USleep 2 (Some 250000)]"
      "joints_pos s' = (\<lambda>_. 8)(2 := 9)"
    using gotoPose_motion [of cub_waiting 2 10 "1 / 2"]
    by (auto simp: cub_waiting_state valid_pose_def motion_io_def motion_end_def)
  then show ?thesis
    by (intro exI [of _ n] exI [of _ s']) simp
qed

text \<open>
  The duration of a motion: the delays after the commands add up to the requested time, short of
  it by less than one microsecond per command.
\<close>

theorem motion_duration:
  assumes "pos \<noteq> cur" "0 \<le> t" "t * 1000000 < 2 ^ 32"
  shows "\<exists>d. delay_step t pos cur = Some d
    \<and> of_nat (length (motion_path cur pos) * d) \<le> t * 1000000
    \<and> t * 1000000 < of_nat (length (motion_path cur pos) * (d + 1))"
proof -
  define k where "k = nat \<bar>pos - cur\<bar>"
  have k: "0 < k" "of_int \<bar>pos - cur\<bar> = (of_nat k :: rat)"
    using assms(1) by (simp_all add: k_def)
  have len: "length (motion_path cur pos) = k"
    by (simp add: motion_path_def k_def)
  define q where "q = t * 1000000 / of_nat k"
  have q: "0 \<le> q" "q \<le> t * 1000000"
    using assms(2) k(1) by (simp_all add: q_def divide_le_eq mult_le_cancel_left1)
  then have fl: "0 \<le> \<lfloor>q\<rfloor>" "\<lfloor>q\<rfloor> < 2 ^ 32"
    using assms(3) by (simp_all add: floor_less_iff)
  moreover have "delay_step t pos cur = (if 0 \<le> \<lfloor>q\<rfloor> \<and> \<lfloor>q\<rfloor> < 2 ^ 32 then Some (nat \<lfloor>q\<rfloor>) else None)"
    using assms(1) by (simp only: delay_step_def Let_def k(2) q_def if_False)
  ultimately have "delay_step t pos cur = Some (nat \<lfloor>q\<rfloor>)"
    by simp
  moreover have "of_nat (nat \<lfloor>q\<rfloor>) \<le> q" "q < of_nat (nat \<lfloor>q\<rfloor>) + 1"
    using fl(1) floor_correct [of q] by simp_all
  then have "of_nat (k * nat \<lfloor>q\<rfloor>) \<le> t * 1000000" "t * 1000000 < of_nat (k * (nat \<lfloor>q\<rfloor> + 1))"
    using k(1) by (simp_all add: q_def le_divide_eq divide_less_eq mult.commute distrib_left)
  ultimately show ?thesis
    by (auto simp: len)
qed

theorem motion_duration_witness:
  "\<exists>d. delay_step 1 100 93 = Some d \<and> of_nat (7 * d) \<le> (1000000 :: rat) \<and> (1000000 :: rat) < of_nat (7 * (d + 1))"
proof -
  have "length (motion_path 93 100) = 7"
    by (simp add: motion_path_def)
  then show ?thesis
    using motion_duration [of 100 93 1] by simp
qed

text \<open>
  C21.  A request that comes while the controller is moving is lost: \<^verbatim>\<open>gotoPose\<close> reports success, but the
  thread finishes the old motion, overwrites the status with WAITING and waits, without having
  sent any command of the new one.
\<close>

theorem gotoPose_lost_while_moving:
  assumes "0 \<le> fd_servo s" "valid_pose j pos" "ctl_pc (ctrl s j) = Move i old d up"
    and "if up then i \<le> old else old \<le> i"
  shows "\<exists>n s'. fst (gotoPose j pos t s) \<and> ctl_run n j (snd (gotoPose j pos t s)) = Some s'
    \<and> io s' = io s @ motion_io j d (motion_path i old) \<and> ctl_pc (ctrl s' j) = CondWait \<and> checkMotionDone j s'"
proof -
  define s1 where "s1 = request_pose j pos t False s"
  have s1: "ctl_pc (ctrl s1 j) = Move i old d up" "io s1 = io s"
    using assms(3) by (simp_all add: s1_def request_pose_def cond_signal_def)
  obtain n where run: "ctl_run n j s1 = Some (waiting j (moved j (if i = old then joints_pos s1 j else motion_end i old)
      (motion_io j d (motion_path i old)) (Move old old d up) s1))"
    using motion_from_Move [OF s1(1) assms(4)] by blast
  have call: "gotoPose j pos t s = (True, s1)"
    using assms(1,2) by (simp add: gotoPose_def s1_def)
  show ?thesis
    unfolding call fst_conv snd_conv
    by (intro exI conjI, rule TrueI, rule run)
      (use s1(2) in \<open>simp_all add: waiting_def moved_def set_pc_def checkMotionDone_def\<close>)
qed

theorem gotoPose_lost_while_moving_witness:
  "\<exists>n s'. ctl_run n 2 (snd (gotoPose 2 80 1 (set_pc 2 (Move 8 9 None True) cub_started))) = Some s'
    \<and> io s' = [SetPos 2 8, USleep 2 None]"
proof -
  have "motion_path 8 9 = [8]"
    by (simp add: motion_path_def)
  then show ?thesis
    using gotoPose_lost_while_moving [of "set_pc 2 (Move 8 9 None True) cub_started" 2 80 8 9 None True 1]
    by (auto simp: set_pc_def cub_started_main valid_pose_def motion_io_def)
qed

text \<open>
  C22.  \<^verbatim>\<open>stopController\<close> never returns when the controllers were never started: whatever the other threads
  do, also when they ask for motions, the main thread goes on polling the status of controller 0.  (The methods \<^verbatim>\<open>fini\<close>, and
  \<^verbatim>\<open>init\<close> and \<^verbatim>\<open>startController\<close> on an error, call it in that situation.)
\<close>

theorem stopController_without_start:
  assumes "rtranclp cub_step s s'" "ctl_pc (ctrl s 0) = NotStarted" "status (ctrl s 0) = 0" "main s = Stopping 0 b"
  shows "main s' = Stopping 0 b"
proof -
  have "main s' = Stopping 0 b \<and> ctl_pc (ctrl s' 0) = NotStarted \<and> status (ctrl s' 0) \<notin> {CTRLSTATE_WAITING, CTRLSTATE_STOPPING}"
    using assms(1)
  proof (induction rule: rtranclp_induct)
    case base
    then show ?case
      using assms(2-4) by simp
  next
    case (step s1 s2)
    from step(2,3) show ?case
    proof (cases rule: cub_step.cases)
      case (thread j)
      then show ?thesis
        using step(3) by (cases "j = 0") (auto simp: controller_def set_pc_def Let_def split: pc.splits if_splits)
    next
      case stopping
      then show ?thesis
        using step(3) by (auto simp: stopController_def)
    qed (use step(3) in \<open>auto simp: gotoPose_def request_pose_def cond_signal_def set_pc_def\<close>)
  qed
  then show ?thesis
    by simp
qed

theorem stopController_without_start_witness:
  "main (the (stopController (stopController_begin True cub_new))) = Stopping 0 True"
proof -
  have eq: "stopController (stopController_begin True cub_new) = Some (stopController_begin True cub_new)"
    by (simp add: stopController_def stopController_begin_def cub_new_def)
  have "rtranclp cub_step (stopController_begin True cub_new) (the (stopController (stopController_begin True cub_new)))"
    by (rule r_into_rtranclp, rule cub_step.stopping) (simp add: eq)
  then show ?thesis
    by (rule stopController_without_start) (simp_all add: stopController_begin_def cub_new_def)
qed

text \<open>One controller stopped: the request, the thread's two steps, the join.\<close>

definition stopped :: "nat \<Rightarrow> bool \<Rightarrow> MyCubInterface \<Rightarrow> MyCubInterface" where
  "stopped i b s = s\<lparr>ctrl := (ctrl s)(i := (ctrl s i)\<lparr>status := CTRLSTATE_STOPPING, ctl_pc := Exited\<rparr>),
     main := Stopping (i + 1) b\<rparr>"

lemma stop_one:
  assumes "main s = Stopping i b" "i < 4" "ctl_pc (ctrl s i) = CondWait" "status (ctrl s i) = CTRLSTATE_WAITING"
  shows "rtranclp cub_step s (stopped i b s)"
proof -
  define s0 where "s0 = s\<lparr>main := StopSignal i b\<rparr>"
  define s1 where "s1 = s\<lparr>ctrl := (ctrl s)(i := (ctrl s i)\<lparr>status := CTRLSTATE_STOP, ctl_pc := Woken\<rparr>)\<rparr>"
  define s2 where "s2 = s\<lparr>ctrl := (ctrl s)(i := (ctrl s i)\<lparr>status := CTRLSTATE_STOP, ctl_pc := Finish\<rparr>)\<rparr>"
  define s3 where "s3 = s\<lparr>ctrl := (ctrl s)(i := (ctrl s i)\<lparr>status := CTRLSTATE_STOPPING, ctl_pc := Exited\<rparr>)\<rparr>"
  have "stopController s = Some s0"
    using assms by (simp add: stopController_def s0_def)
  moreover have "stopController s0 = Some s1"
    using assms by (simp add: stopController_def cond_signal_def set_pc_def s0_def s1_def)
  moreover have "controller i s1 = Some s2" "controller i s2 = Some s3"
    by (simp_all add: controller_def set_pc_def s1_def s2_def s3_def)
  moreover have "stopController s3 = Some (stopped i b s)"
    using assms by (simp add: stopController_def s3_def stopped_def)
  ultimately show ?thesis
    using assms(2) by (meson cub_step.stopping cub_step.thread converse_rtranclp_into_rtranclp rtranclp.rtrancl_refl)
qed

text \<open>
  Shutdown works for started controllers: from every state in which the four controllers wait, a
  call of \<^verbatim>\<open>stopController\<close> can run to its end, after which the four threads have terminated, the servo
  device is closed and the main thread is free.
\<close>

theorem stopController_completes:
  assumes "main s = MainIdle" "\<forall>j<4. ctl_pc (ctrl s j) = CondWait \<and> status (ctrl s j) = CTRLSTATE_WAITING"
  shows "\<exists>s'. rtranclp cub_step s s' \<and> main s' = MainIdle \<and> fd_servo s' = - 1
    \<and> (\<forall>j<4. ctl_pc (ctrl s' j) = Exited)"
proof -
  define s0 where "s0 = stopController_begin False s"
  define s1 where "s1 = stopped 0 False s0"
  define s2 where "s2 = stopped 1 False s1"
  define s3 where "s3 = stopped 2 False s2"
  define s4 where "s4 = stopped 3 False s3"
  note defs = s0_def s1_def s2_def s3_def s4_def stopped_def stopController_begin_def
  have "rtranclp cub_step s s0"
    using assms(1) by (auto simp: s0_def intro: cub_step.stop)
  also have "rtranclp cub_step s0 s1"
    unfolding s1_def by (rule stop_one) (use assms(2) in \<open>auto simp: s0_def stopController_begin_def\<close>)
  also have "rtranclp cub_step s1 s2"
    unfolding s2_def by (rule stop_one) (use assms(2) in \<open>auto simp: s1_def s0_def stopped_def stopController_begin_def\<close>)
  also have "rtranclp cub_step s2 s3"
    unfolding s3_def by (rule stop_one) (use assms(2) in \<open>auto simp: s2_def s1_def s0_def stopped_def stopController_begin_def\<close>)
  also have "rtranclp cub_step s3 s4"
    unfolding s4_def by (rule stop_one) (use assms(2) in \<open>auto simp: s3_def s2_def s1_def s0_def stopped_def stopController_begin_def\<close>)
  finally have run: "rtranclp cub_step s s4" .
  have main: "main s4 = Stopping 4 False"
    by (simp add: s4_def stopped_def)
  then obtain s' where s': "stopController s4 = Some s'"
    by (simp add: stopController_def Let_def)
  have "rtranclp cub_step s s'"
    using run cub_step.stopping [OF s'] by (rule rtranclp.rtrancl_into_rtrancl)
  moreover have "main s' = MainIdle" "fd_servo s' = - 1" "ctrl s' = ctrl s4"
    using s' main by (auto simp: stopController_def Let_def split: if_splits)
  moreover have "ctl_pc (ctrl s4 j) = Exited" if "j < 4" for j
  proof -
    have "j = 0 \<or> j = 1 \<or> j = 2 \<or> j = 3"
      using that by arith
    then show ?thesis
      by (auto simp: defs)
  qed
  ultimately show ?thesis
    by auto
qed

definition cub_all_waiting :: MyCubInterface where
  "cub_all_waiting = cub_started\<lparr>ctrl := (\<lambda>j. (ctrl cub_started j)\<lparr>status := CTRLSTATE_WAITING, ctl_pc := CondWait\<rparr>)\<rparr>"

theorem stopController_completes_witness:
  "\<exists>s'. rtranclp cub_step cub_all_waiting s' \<and> fd_servo s' = - 1"
  using stopController_completes [of cub_all_waiting]
  by (auto simp: cub_all_waiting_def cub_started_main)

end
