(* ===== verification/Walk.thy ===== *)
theory Walk
  imports Joint_Control
begin

text \<open>
  The walking gait (\<^verbatim>\<open>apps/system/myCub/lib/mycub_walk.cpp\<close>): the thread that repeats the gait until it
  is told to stop, and the four methods that start it with the joints assigned for a direction.  The
  values the thread reads from the shared parameters under the mutex, at its start and at the head
  of each round, are the argument; its result is the sequence of calls it makes on the robot.
\<close>

abbreviation (input) LEFT_JOINT :: nat where "LEFT_JOINT \<equiv> 0"
abbreviation (input) FRONT_JOINT :: nat where "FRONT_JOINT \<equiv> 1"
abbreviation (input) RIGHT_JOINT :: nat where "RIGHT_JOINT \<equiv> 2"
abbreviation (input) BACK_JOINT :: nat where "BACK_JOINT \<equiv> 3"

record walk_param_t =
  walk_t :: rat
  walk_front :: nat
  walk_back :: nat
  walk_right :: nat
  walk_left :: nat
  walk_should_stop :: bool
  walk_running :: bool

datatype walk_call = GotoPose nat int rat | GotoPoseSync nat int rat | WaitMotionDone | Usleep nat

text \<open>One round of the loop after its reads; \<^verbatim>\<open>should_stop\<close> is tested after each move.\<close>

definition walk_round :: "walk_param_t \<Rightarrow> walk_call list" where
  "walk_round p =
    [GotoPoseSync (walk_front p) 8 (1 / 2)]
    @ (if walk_should_stop p then []
       else [GotoPose (walk_left p) 40 (1 / 10), GotoPose (walk_right p) 40 (1 / 10), WaitMotionDone, Usleep 1000000,
             GotoPoseSync (walk_front p) 160 (1 / 2),
             GotoPose (walk_left p) 120 (1 / 10), GotoPose (walk_right p) 120 (1 / 10), WaitMotionDone])"

text \<open>
  The loop over the successive reads; it returns the calls and whether the thread has ended (with
  \<^verbatim>\<open>running\<close> cleared), False when the reads are used up first.
\<close>

fun walk_loop :: "walk_param_t list \<Rightarrow> walk_call list \<times> bool" where
  "walk_loop [] = ([], False)"
| "walk_loop (p # ps) =
    (if walk_should_stop p then (walk_round p, True)
     else let (calls, ended) = walk_loop ps in (walk_round p @ calls, ended))"

definition walker :: "walk_param_t \<Rightarrow> walk_param_t list \<Rightarrow> walk_call list \<times> bool" where
  "walker p0 ps =
    (if walk_should_stop p0 then ([], True)
     else
       let (calls, ended) = walk_loop ps
       in ([GotoPose (walk_front p0) 160 (1 / 2), GotoPose (walk_back p0) 120 (1 / 2), GotoPose (walk_left p0) 120 (1 / 2),
            GotoPose (walk_right p0) 120 (1 / 2), WaitMotionDone] @ calls, ended))"

text \<open>
  The class: \<^verbatim>\<open>walk_param\<close> is the static structure; \<^verbatim>\<open>stop\<close> sets the flag and joins the thread; the move
  methods stop first, then assign the joints and create the thread (with the given result).
\<close>

definition walk_init :: "int \<Rightarrow> walk_param_t \<Rightarrow> bool \<times> walk_param_t" where
  "walk_init mutex_ret p = (mutex_ret = 0, p\<lparr>walk_running := False\<rparr>)"

definition walk_stop :: "walk_param_t \<Rightarrow> walk_param_t" where
  "walk_stop p = p\<lparr>walk_should_stop := True\<rparr>"

definition walk_fini :: "walk_param_t \<Rightarrow> walk_param_t" where
  "walk_fini p = walk_stop p"

definition walk_move :: "nat \<Rightarrow> nat \<Rightarrow> nat \<Rightarrow> nat \<Rightarrow> rat \<Rightarrow> int \<Rightarrow> walk_param_t \<Rightarrow> bool \<times> walk_param_t" where
  "walk_move front back right left t create_ret p =
    (create_ret = 0,
     (walk_stop p)\<lparr>walk_t := t, walk_front := front, walk_back := back, walk_right := right, walk_left := left,
       walk_should_stop := False\<rparr>)"

definition moveFront :: "rat \<Rightarrow> int \<Rightarrow> walk_param_t \<Rightarrow> bool \<times> walk_param_t" where
  "moveFront = walk_move FRONT_JOINT BACK_JOINT RIGHT_JOINT LEFT_JOINT"

definition moveBack :: "rat \<Rightarrow> int \<Rightarrow> walk_param_t \<Rightarrow> bool \<times> walk_param_t" where
  "moveBack = walk_move BACK_JOINT FRONT_JOINT RIGHT_JOINT LEFT_JOINT"

definition moveRight :: "rat \<Rightarrow> int \<Rightarrow> walk_param_t \<Rightarrow> bool \<times> walk_param_t" where
  "moveRight = walk_move RIGHT_JOINT LEFT_JOINT FRONT_JOINT BACK_JOINT"

definition moveLeft :: "rat \<Rightarrow> int \<Rightarrow> walk_param_t \<Rightarrow> bool \<times> walk_param_t" where
  "moveLeft = walk_move LEFT_JOINT RIGHT_JOINT FRONT_JOINT BACK_JOINT"

lemmas move_defs = moveFront_def moveBack_def moveRight_def moveLeft_def walk_move_def walk_stop_def

section \<open>Properties\<close>

definition walk_joints :: "walk_param_t \<Rightarrow> nat list" where
  "walk_joints p = [walk_front p, walk_back p, walk_right p, walk_left p]"

fun call_ok :: "walk_call \<Rightarrow> bool" where
  "call_ok (GotoPose j p t) \<longleftrightarrow> valid_pose j p \<and> 0 < t"
| "call_ok (GotoPoseSync j p t) \<longleftrightarrow> valid_pose j p \<and> 0 < t"
| "call_ok _ \<longleftrightarrow> True"

lemma walk_round_ok:
  "\<forall>j\<in>set (walk_joints p). j < 4 \<Longrightarrow> c \<in> set (walk_round p) \<Longrightarrow> call_ok c"
  by (auto simp: walk_round_def walk_joints_def valid_pose_def split: if_splits)

lemma walk_loop_ok:
  "\<forall>p\<in>set ps. \<forall>j\<in>set (walk_joints p). j < 4 \<Longrightarrow> c \<in> set (fst (walk_loop ps)) \<Longrightarrow> call_ok c"
  by (induction ps) (auto simp: Let_def split_beta walk_round_ok split: if_splits dest: walk_round_ok)

lemma walk_loop_until_stop:
  assumes "\<forall>q\<in>set ps. \<not> walk_should_stop q" "walk_should_stop p"
  shows "walk_loop (ps @ p # rest) = (concat (map walk_round ps) @ [GotoPoseSync (walk_front p) 8 (1 / 2)], True)"
  using assms by (induction ps) (simp_all add: walk_round_def)

text \<open>
  C25.  Walking is safe and stops: each direction assigns the four joints to the four legs, one each;
  with these parameters every pose the gait asks for is valid and timed; and when the stop flag is
  seen at the head of a round, the thread makes exactly one more move, puts the front leg down, and ends.
\<close>

theorem walk_safe_and_stops:
  assumes dir: "mv \<in> {moveFront, moveBack, moveRight, moveLeft}"
    and p: "p = snd (mv t r q)" and ps: "\<forall>p'\<in>set ps. p' = p"
  shows "set (walk_joints p) = {0, 1, 2, 3} \<and> distinct (walk_joints p)
    \<and> (\<forall>c\<in>set (fst (walker p (ps @ walk_stop p # rest))). call_ok c)
    \<and> (\<exists>calls. walker p (ps @ walk_stop p # rest) = (calls @ [GotoPoseSync (walk_front p) 8 (1 / 2)], True))"
proof -
  have joints: "set (walk_joints p) = {0, 1, 2, 3}" "distinct (walk_joints p)" and run: "\<not> walk_should_stop p"
    using dir p by (auto simp: move_defs walk_joints_def)
  have stop: "walk_should_stop (walk_stop p)" "walk_joints (walk_stop p) = walk_joints p"
      "walk_front (walk_stop p) = walk_front p"
    by (simp_all add: walk_stop_def walk_joints_def)
  have ns: "\<forall>q\<in>set ps. \<not> walk_should_stop q"
    using ps run by auto
  have loop: "walk_loop (ps @ walk_stop p # rest) =
      (concat (map walk_round ps) @ [GotoPoseSync (walk_front p) 8 (1 / 2)], True)"
    using walk_loop_until_stop [OF ns stop(1), of rest] stop(3) by simp
  have front: "\<forall>j\<in>set (walk_joints p). j < 4"
    using joints(1) by auto
  then have "call_ok c" if "c \<in> set (concat (map walk_round ps) @ [GotoPoseSync (walk_front p) 8 (1 / 2)])" for c
    using that ps walk_round_ok [OF front, of c] by (auto simp: walk_joints_def valid_pose_def)
  then have "\<forall>c\<in>set (fst (walker p (ps @ walk_stop p # rest))). call_ok c"
    using run loop front by (auto simp: walker_def walk_joints_def valid_pose_def)
  then show ?thesis
    using joints run loop by (auto simp: walker_def)
qed

definition walk_reset :: walk_param_t where
  "walk_reset = \<lparr>walk_t = 0, walk_front = 0, walk_back = 0, walk_right = 0, walk_left = 0, walk_should_stop = False,
     walk_running = False\<rparr>"

theorem walk_safe_and_stops_witness:
  "\<exists>calls. walker (snd (moveFront 1 0 walk_reset)) [snd (moveFront 1 0 walk_reset), walk_stop (snd (moveFront 1 0 walk_reset))]
     = (calls @ [GotoPoseSync 1 8 (1 / 2)], True)"
  using walk_safe_and_stops [of moveFront "snd (moveFront 1 0 walk_reset)" 1 0 walk_reset
      "[snd (moveFront 1 0 walk_reset)]" "[]"]
  by (simp add: move_defs)

end
