(* ===== verification/Shell.thy ===== *)
theory Shell
  imports Walk
begin

text \<open>
  The command shell of the firmware (\<^verbatim>\<open>apps/system/myCub/myCub.cpp\<close>): the tokeniser \<^verbatim>\<open>parse_string\<close> with its
  static table of 16 slots of 32 bytes, and the command loop of \<^verbatim>\<open>myCub_main\<close>.  The joint methods are
  those of \<^verbatim>\<open>Joint_Control\<close>, the gait those of \<^verbatim>\<open>Walk\<close>; what the sensor methods, the memory report and
  the system calls return is the argument \<^verbatim>\<open>env\<close>.
\<close>

section \<open>The tokeniser\<close>

abbreviation (input) MAX_CMD_NUM :: nat where "MAX_CMD_NUM \<equiv> 16"
abbreviation (input) MAX_CMD_LEN :: nat where "MAX_CMD_LEN \<equiv> 32"

definition NUL :: char where "NUL = CHR 0x00"
definition nl :: string where "nl = [CHR 0x0A]"

text \<open>\<^verbatim>\<open>strcpy\<close> into the table at a byte offset; None when it would write past the table's end.\<close>

definition strcpy_at :: "nat \<Rightarrow> string \<Rightarrow> string \<Rightarrow> string option" where
  "strcpy_at off tok mem =
    (if off + length tok + 1 \<le> length mem
     then Some (take off mem @ tok @ [NUL] @ drop (off + length tok + 1) mem) else None)"

text \<open>The C string that starts in slot \<^verbatim>\<open>i\<close> of the table.\<close>

definition cmd_slot :: "string \<Rightarrow> nat \<Rightarrow> string" where
  "cmd_slot mem i = takeWhile (\<lambda>c. c \<noteq> NUL) (drop (MAX_CMD_LEN * i) mem)"

fun parse_loop :: "nat \<Rightarrow> string list \<Rightarrow> string \<Rightarrow> (nat \<times> string) option" where
  "parse_loop i [] mem = Some (i, mem)"
| "parse_loop i (token # tokens) mem =
    (if i < MAX_CMD_NUM
     then (case strcpy_at (MAX_CMD_LEN * i) token mem of
             None \<Rightarrow> None
           | Some mem' \<Rightarrow> parse_loop (i + 1) tokens mem')
     else Some (i, mem))"

definition parse_string :: "string \<Rightarrow> string \<Rightarrow> (nat \<times> string) option" where
  "parse_string str mem = parse_loop 0 (strtok_all str) mem"

section \<open>The commands\<close>

record shell_env =
  se_distance :: "int \<Rightarrow> int"
  se_heading :: int
  se_volt :: int
  se_current :: int
  se_samples :: "int list"
  se_meminfo :: "int \<times> int \<times> int \<times> int"
  se_start :: start_env
  se_walk_create :: int

record shell =
  sh_mem :: string
  sh_interactive :: bool
  sh_should_stop :: bool
  sh_cub :: MyCubInterface
  sh_walk :: walk_param_t
  sh_dancing :: bool

definition ok_reply :: string where "ok_reply = ''[ok]'' @ nl"
definition error_reply :: string where "error_reply = ''[error]'' @ nl"

text \<open>\<^verbatim>\<open>printf("%d.%d", v/1000, abs(v%1000))\<close>\<close>

definition show_milli :: "int \<Rightarrow> string" where
  "show_milli v = show_int (v sdiv 1000) @ ''.'' @ show_int \<bar>v smod 1000\<bar>"

definition help_message :: string where
  "help_message = ''Commands:'' @ nl @ ''  startControl '' @ nl @ ''  stopControl '' @ nl
    @ ''  setPose <joint> <pos> '' @ nl @ ''  getPose <joint> '' @ nl @ ''  gotoPose <joint> <pos> [time] '' @ nl
    @ ''  gotoPoseSync <joint> <pos> [time] '' @ nl @ ''  moveFront [time] '' @ nl @ ''  moveBack [time] '' @ nl
    @ ''  moveRight [time] '' @ nl @ ''  moveLeft [time] '' @ nl @ ''  stop '' @ nl @ ''  getDistance <sonar> '' @ nl
    @ ''  getHeading '' @ nl @ ''  getBatteryVolt '' @ nl @ ''  getBatteryCurrent '' @ nl @ ''  getMemoryInfo '' @ nl
    @ ''  getADC <channel> <freq> <samples>  '' @ nl @ ''  interactive <0|1> '' @ nl @ ''  help '' @ nl"

text \<open>
  The command in the table, with \<^verbatim>\<open>n\<close> tokens: the text printed and the new state.  \<^verbatim>\<open>stopControl\<close> and
  \<^verbatim>\<open>gotoPoseSync\<close> leave the main thread inside their wait; their reply is printed when it returns.
  Integer arguments go through \<^verbatim>\<open>atoi\<close>, joints are converted to \<^verbatim>\<open>unsigned int\<close>.
\<close>

definition run_command :: "shell_env \<Rightarrow> nat \<Rightarrow> (nat \<Rightarrow> string) \<Rightarrow> shell \<Rightarrow> string \<times> shell" where
  "run_command env n cmd s =
    (let arg = (\<lambda>i. atoi (cmd i));
         time = (\<lambda>i. if i < n then of_int (atoi (cmd i)) else 0 :: rat);
         walk = (\<lambda>mv. (ok_reply, s\<lparr>sh_walk := snd (mv (time 1) (se_walk_create env) (sh_walk s))\<rparr>))
     in if cmd 0 = ''exit'' then ([], s\<lparr>sh_should_stop := True\<rparr>)
        else if cmd 0 = ''ping'' then (ok_reply, s)
        else if cmd 0 = ''interactive'' then
          (if n < 2 then (error_reply, s) else (ok_reply, s\<lparr>sh_interactive := (arg 1 = 1)\<rparr>))
        else if cmd 0 = ''getMemoryInfo'' then
          (case se_meminfo env of (arena, used, free, largest) \<Rightarrow>
             (''total: '' @ show_int arena @ '', used: '' @ show_int used @ '', free: '' @ show_int free
              @ '', largest: '' @ show_int largest @ nl, s))
        else if cmd 0 = ''startControl'' then
          (let (r, c) = startController (se_start env) (sh_cub s)
           in (if r then ok_reply else error_reply, s\<lparr>sh_cub := c\<rparr>))
        else if cmd 0 = ''stopControl'' then (ok_reply, s\<lparr>sh_cub := stopController_begin False (sh_cub s)\<rparr>)
        else if cmd 0 = ''setPose'' then
          (if 3 \<le> n then (ok_reply, s\<lparr>sh_cub := snd (setPose (unsigned32 (arg 1)) (arg 2) (sh_cub s))\<rparr>)
           else (error_reply, s))
        else if cmd 0 = ''getPose'' then
          (if 2 \<le> n then (show_int (getPose (unsigned32 (arg 1)) (sh_cub s)) @ nl, s) else (error_reply, s))
        else if cmd 0 = ''getDistance'' then
          (if 2 \<le> n then (show_int (se_distance env (arg 1)) @ nl, s) else (error_reply, s))
        else if cmd 0 = ''getHeading'' then (show_int (se_heading env) @ nl, s)
        else if cmd 0 = ''gotoPose'' then
          (if 3 \<le> n
           then (ok_reply, s\<lparr>sh_cub := snd (gotoPose (unsigned32 (arg 1)) (arg 2) (time 3 / 1000) (sh_cub s))\<rparr>)
           else (error_reply, s))
        else if cmd 0 = ''gotoPoseSync'' then
          (if 3 \<le> n
           then (ok_reply, s\<lparr>sh_cub := snd (gotoPoseSync (unsigned32 (arg 1)) (arg 2) (time 3) (sh_cub s))\<rparr>)
           else (error_reply, s))
        else if cmd 0 = ''moveFront'' then walk moveFront
        else if cmd 0 = ''moveBack'' then walk moveBack
        else if cmd 0 = ''moveRight'' then walk moveRight
        else if cmd 0 = ''moveLeft'' then walk moveLeft
        else if cmd 0 = ''dance'' then
          (let c1 = snd (gotoPose FRONT_JOINT 60 (1 / 2) (sh_cub s));
               c2 = snd (gotoPose BACK_JOINT 60 (1 / 2) c1);
               c3 = snd (gotoPose RIGHT_JOINT 150 (1 / 2) c2);
               c4 = snd (gotoPose LEFT_JOINT 150 (1 / 2) c3)
           in (ok_reply, s\<lparr>sh_cub := c4, sh_dancing := True\<rparr>))
        else if cmd 0 = ''stop'' then
          (ok_reply, s\<lparr>sh_walk := walk_stop (sh_walk s), sh_dancing := False\<rparr>)
        else if cmd 0 = ''getADC'' then
          (if 4 \<le> n
           then (concat (map (\<lambda>v. show_int v @ '', '') (se_samples env))
                 @ (if sh_interactive s then nl @ ok_reply else []), s)
           else (error_reply, s))
        else if cmd 0 = ''getBatteryCurrent'' then (show_milli (se_current env) @ nl, s)
        else if cmd 0 = ''getBatteryVolt'' then (show_milli (se_volt env) @ nl, s)
        else if cmd 0 = ''help'' then (if sh_interactive s then nl @ help_message @ nl else [], s)
        else if sh_interactive s then (''[error] type '' @ [CHR 0x27] @ ''help'' @ [CHR 0x27] @ '' for more commands.'' @ nl, s)
        else (error_reply, s))"

text \<open>
  One round of the loop: the battery warning and the prompt in interactive mode, then the line that
  \<^verbatim>\<open>readline\<close> returned, whose last character is replaced by the NUL.  None is the overflow of the table.
\<close>

definition battery_warning :: "int \<Rightarrow> string" where
  "battery_warning mv =
    (if 10 * mv < 62
     then ''[WARNING] Battery volatge is critically low ('' @ show_int (mv sdiv 1000) @ ''.''
          @ show_int (mv smod 1000) @ '' V) '' @ nl
     else [])"

definition shell_prompt :: "shell_env \<Rightarrow> shell \<Rightarrow> string" where
  "shell_prompt env s = (if sh_interactive s then battery_warning (se_volt env) @ ''[myCub] '' else [])"

definition shell_line :: "shell_env \<Rightarrow> string \<Rightarrow> shell \<Rightarrow> (string \<times> shell) option" where
  "shell_line env line s =
    (if line = [] then Some ([], s)
     else
       (case parse_string (butlast line) (sh_mem s) of
          None \<Rightarrow> None
        | Some (n, mem) \<Rightarrow>
            if n = 0 then Some ([], s\<lparr>sh_mem := mem\<rparr>)
            else Some (run_command env n (cmd_slot mem) (s\<lparr>sh_mem := mem\<rparr>))))"

fun shell_loop :: "(shell_env \<times> string) list \<Rightarrow> shell \<Rightarrow> (string \<times> shell) option" where
  "shell_loop [] s = Some ([], s)"
| "shell_loop ((env, line) # rest) s =
    (if sh_should_stop s then Some ([], s)
     else
       (case shell_line env line s of
          None \<Rightarrow> None
        | Some (out, s') \<Rightarrow>
            map_option (\<lambda>(out', s''). (shell_prompt env s @ out @ out', s'')) (shell_loop rest s')))"

text \<open>The end of \<^verbatim>\<open>myCub_main\<close>: the walker and the interface are shut down, the farewell is printed.\<close>

definition shell_exit :: "shell \<Rightarrow> string \<times> shell" where
  "shell_exit s =
    (if sh_interactive s then ''bye!'' @ nl else ok_reply,
     s\<lparr>sh_walk := walk_fini (sh_walk s), sh_cub := stopController_begin True (sh_cub s)\<rparr>)"

text \<open>
  The body of the dancer thread; \<^verbatim>\<open>cnt\<close> is its static counter and \<^verbatim>\<open>pos\<close> the random position, an integer
  between 60 and 160.
\<close>

definition dancer_body :: "nat \<Rightarrow> int \<Rightarrow> MyCubInterface \<Rightarrow> MyCubInterface" where
  "dancer_body cnt pos c =
    (let c1 = (if cnt mod 4 \<noteq> 0
               then snd (gotoPose BACK_JOINT 10 (1 / 5) (snd (gotoPose FRONT_JOINT 50 (1 / 5) c)))
               else snd (gotoPose BACK_JOINT 50 (1 / 5) (snd (gotoPose FRONT_JOINT 10 (1 / 5) c))));
         c2 = snd (gotoPose RIGHT_JOINT pos (1 / 10) c1)
     in snd (gotoPose LEFT_JOINT pos (1 / 10) c2))"

section \<open>The tokens arrive in their slots\<close>

lemma length_strcpy_at: "strcpy_at off tok mem = Some mem' \<Longrightarrow> length mem' = length mem"
  by (auto simp: strcpy_at_def split: if_splits)

lemma strcpy_at_content:
  assumes "strcpy_at off tok mem = Some mem'"
  shows "take off mem' = take off mem" "take (length tok + 1) (drop off mem') = tok @ [NUL]"
  using assms by (auto simp: strcpy_at_def min_def split: if_splits)

lemma strcpy_at_fits: "off + length tok + 1 \<le> length mem \<Longrightarrow> \<exists>mem'. strcpy_at off tok mem = Some mem'"
  by (simp add: strcpy_at_def)

text \<open>A token with its NUL inside the first bytes of the table stays when those bytes stay.\<close>

lemma token_stays:
  assumes "take m mem' = take m mem" "take n (drop off mem) = w" "off + n \<le> m"
  shows "take n (drop off mem') = w"
proof -
  have "take n (drop off mem') = drop off (take (off + n) (take m mem'))"
    using assms(3) by (simp add: take_drop add.commute)
  also have "\<dots> = take n (drop off mem)"
    using assms(1,3) by (simp add: take_drop add.commute)
  finally show ?thesis
    using assms(2) by simp
qed

lemma parse_loop_slots:
  assumes "length mem = 512" "\<forall>w\<in>set toks. length w < 32" "i \<le> 16"
  shows "\<exists>mem'. parse_loop i toks mem = Some (min 16 (i + length toks), mem') \<and> length mem' = 512
    \<and> take (32 * i) mem' = take (32 * i) mem
    \<and> (\<forall>k. k < length toks \<and> i + k < 16 \<longrightarrow>
          take (length (toks ! k) + 1) (drop (32 * (i + k)) mem') = toks ! k @ [NUL])"
  using assms
proof (induction toks arbitrary: i mem)
  case (Cons w toks)
  show ?case
  proof (cases "i < 16")
    case True
    have len: "length w < 32"
      using Cons.prems(2) by simp
    then obtain m1 where m1: "strcpy_at (32 * i) w mem = Some m1"
      using strcpy_at_fits [of "32 * i" w mem] Cons.prems(1) True by auto
    have "length m1 = 512"
      using length_strcpy_at [OF m1] Cons.prems(1) by simp
    then obtain m2 where m2: "parse_loop (i + 1) toks m1 = Some (min 16 (i + 1 + length toks), m2)" "length m2 = 512"
        "take (32 * (i + 1)) m2 = take (32 * (i + 1)) m1"
        "\<forall>k. k < length toks \<and> i + 1 + k < 16 \<longrightarrow>
          take (length (toks ! k) + 1) (drop (32 * (i + 1 + k)) m2) = toks ! k @ [NUL]"
      using Cons.IH [of m1 "i + 1"] Cons.prems(2) True by auto
    have "take (32 * i) m2 = take (32 * i) (take (32 * (i + 1)) m2)"
      by (simp add: min_def)
    also have "\<dots> = take (32 * i) (take (32 * (i + 1)) m1)"
      by (simp only: m2(3))
    also have "\<dots> = take (32 * i) m1"
      by (simp add: min_def)
    finally have low: "take (32 * i) m2 = take (32 * i) mem"
      using strcpy_at_content(1) [OF m1] by simp
    have first: "take (length w + 1) (drop (32 * i) m2) = w @ [NUL]"
      by (rule token_stays [OF m2(3) strcpy_at_content(2) [OF m1]]) (use len in simp)
    have "take (length ((w # toks) ! k) + 1) (drop (32 * (i + k)) m2) = (w # toks) ! k @ [NUL]"
      if "k < length (w # toks)" "i + k < 16" for k
      using that first m2(4) by (cases k) auto
    then show ?thesis
      using True m1 m2(1,2) low by (auto simp: add.commute)
  next
    case False
    then have "i = 16"
      using Cons.prems(3) by simp
    then show ?thesis
      using Cons.prems(1) by simp
  qed
qed simp

lemma cmd_slot_token:
  assumes "take (length w + 1) (drop (32 * k) mem) = w @ [NUL]" "NUL \<notin> set w"
  shows "cmd_slot mem k = w"
proof -
  have "drop (32 * k) mem = (w @ [NUL]) @ drop (length w + 1) (drop (32 * k) mem)"
    using append_take_drop_id [of "length w + 1" "drop (32 * k) mem"] assms(1) by simp
  then have "cmd_slot mem k = takeWhile (\<lambda>c. c \<noteq> NUL) (w @ NUL # drop (length w + 1) (drop (32 * k) mem))"
    by (simp add: cmd_slot_def)
  also have "\<dots> = w"
    using assms(2) by (subst takeWhile_append2) auto
  finally show ?thesis .
qed

lemma parse_string_slots:
  assumes "length mem = 512" "NUL \<notin> set line" "\<forall>w\<in>set (strtok_all line). length w < 32"
  shows "\<exists>mem'. parse_string line mem = Some (min 16 (length (strtok_all line)), mem') \<and> length mem' = 512
    \<and> (\<forall>k < min 16 (length (strtok_all line)). cmd_slot mem' k = strtok_all line ! k)"
proof -
  obtain mem' where m: "parse_loop 0 (strtok_all line) mem = Some (min 16 (length (strtok_all line)), mem')"
      "length mem' = 512" and slots: "\<forall>k. k < length (strtok_all line) \<and> k < 16 \<longrightarrow>
        take (length (strtok_all line ! k) + 1) (drop (32 * k) mem') = strtok_all line ! k @ [NUL]"
    using parse_loop_slots [OF assms(1,3), of 0] by auto
  have "cmd_slot mem' k = strtok_all line ! k" if "k < min 16 (length (strtok_all line))" for k
  proof (rule cmd_slot_token)
    show "take (length (strtok_all line ! k) + 1) (drop (32 * k) mem') = strtok_all line ! k @ [NUL]"
      using slots that by simp
    have "strtok_all line ! k \<in> set (strtok_all line)"
      using that by simp
    then show "NUL \<notin> set (strtok_all line ! k)"
      using strtok_all_chars assms(2) by blast
  qed
  with m show ?thesis
    by (auto simp: parse_string_def)
qed

text \<open>A command line: words separated by single blanks, and the newline.\<close>

fun join_words :: "string list \<Rightarrow> string" where
  "join_words [] = []"
| "join_words [w] = w"
| "join_words (w # ws) = w @ '' '' @ join_words ws"

definition command_line :: "string list \<Rightarrow> string" where
  "command_line ws = join_words ws @ nl"

definition plain_word :: "string \<Rightarrow> bool" where
  "plain_word w \<longleftrightarrow> w \<noteq> [] \<and> length w < 32 \<and> CHR '' '' \<notin> set w \<and> NUL \<notin> set w"

lemma strtok_all_join: "\<forall>w\<in>set ws. plain_word w \<Longrightarrow> strtok_all (join_words ws) = ws"
proof (induction ws rule: join_words.induct)
  case (3 w v vs)
  then have "strtok_all (w @ '' '' @ join_words (v # vs)) = w # strtok_all ('' '' @ join_words (v # vs))"
    by (intro strtok_all_word) (auto simp: plain_word_def)
  with 3 show ?case
    by simp
qed (auto simp: plain_word_def strtok_all_single)

lemma NUL_join: "\<forall>w\<in>set ws. plain_word w \<Longrightarrow> NUL \<notin> set (join_words ws)"
  by (induction ws rule: join_words.induct) (auto simp: plain_word_def NUL_def)

lemma shell_command:
  assumes "length (sh_mem s) = 512" "\<forall>w\<in>set ws. plain_word w" "ws \<noteq> []" "length ws \<le> 16"
  shows "\<exists>mem. shell_line env (command_line ws) s = Some (run_command env (length ws) (cmd_slot mem) (s\<lparr>sh_mem := mem\<rparr>))
    \<and> length mem = 512 \<and> (\<forall>k < length ws. cmd_slot mem k = ws ! k)"
proof -
  have "\<forall>w\<in>set (strtok_all (join_words ws)). length w < 32"
    using assms(2) by (auto simp: strtok_all_join plain_word_def)
  from parse_string_slots [OF assms(1) NUL_join [OF assms(2)] this] obtain mem where
    "parse_string (join_words ws) (sh_mem s) = Some (length ws, mem)" "length mem = 512"
    "\<forall>k < length ws. cmd_slot mem k = ws ! k"
    using assms(2,4) by (auto simp: strtok_all_join)
  then show ?thesis
    using assms(3) by (auto simp: shell_line_def command_line_def nl_def)
qed

lemma plain_word_show_int: "int32 n \<Longrightarrow> plain_word (show_int n)"
  using length_show_int [of n] show_int_no_blank [of n] show_int_chars [of NUL n]
  by (auto simp: plain_word_def NUL_def is_digit_def)

lemma plain_word_commands:
  "plain_word ''setPose''" "plain_word ''getPose''" "plain_word ''gotoPose''"
  by (simp_all add: plain_word_def NUL_def)

lemma nth_words: "(\<forall>k < length [a, b]. f k = [a, b] ! k) \<longleftrightarrow> f 0 = a \<and> f (Suc 0) = b"
  "(\<forall>k < length [a, b, c]. f k = [a, b, c] ! k) \<longleftrightarrow> f 0 = a \<and> f (Suc 0) = b \<and> f 2 = c"
  "(\<forall>k < length [a, b, c, d]. f k = [a, b, c, d] ! k) \<longleftrightarrow> f 0 = a \<and> f (Suc 0) = b \<and> f 2 = c \<and> f 3 = d"
  by (auto simp: less_Suc_eq numeral_2_eq_2 numeral_3_eq_3)

lemma shell_setPose:
  assumes "length (sh_mem s) = 512" "int32 j" "int32 p"
  shows "\<exists>mem. shell_line env (command_line [''setPose'', show_int j, show_int p]) s =
    Some (ok_reply, s\<lparr>sh_mem := mem, sh_cub := snd (setPose (unsigned32 j) p (sh_cub s))\<rparr>) \<and> length mem = 512"
  using shell_command [OF assms(1), of "[''setPose'', show_int j, show_int p]" env] assms(2,3)
  by (auto simp: plain_word_show_int plain_word_commands nth_words run_command_def Let_def)

lemma shell_getPose:
  assumes "length (sh_mem s) = 512" "int32 j"
  shows "\<exists>mem. shell_line env (command_line [''getPose'', show_int j]) s =
    Some (show_int (getPose (unsigned32 j) (sh_cub s)) @ nl, s\<lparr>sh_mem := mem\<rparr>) \<and> length mem = 512"
  using shell_command [OF assms(1), of "[''getPose'', show_int j]" env] assms(2)
  by (auto simp: plain_word_show_int plain_word_commands nth_words run_command_def Let_def)

lemma shell_gotoPose:
  assumes "length (sh_mem s) = 512" "int32 j" "int32 p" "int32 t"
  shows "\<exists>mem. shell_line env (command_line [''gotoPose'', show_int j, show_int p, show_int t]) s =
    Some (ok_reply, s\<lparr>sh_mem := mem, sh_cub := snd (gotoPose (unsigned32 j) p (of_int t / 1000) (sh_cub s))\<rparr>)
    \<and> length mem = 512"
  using shell_command [OF assms(1), of "[''gotoPose'', show_int j, show_int p, show_int t]" env] assms(2-4)
  by (auto simp: plain_word_show_int plain_word_commands nth_words run_command_def Let_def)

section \<open>Properties\<close>

text \<open>
  C23.  The tokeniser: for a line whose blank-separated words are all shorter than 32 characters,
  \<^verbatim>\<open>parse_string\<close> stays inside the table, returns the number of words, at most 16, and each of these
  words is the string in its slot, whatever the table held before.
\<close>

theorem parse_string_words:
  assumes "length mem = 512" "NUL \<notin> set line" "\<forall>w\<in>set (strtok_all line). length w < 32"
  shows "\<exists>mem'. parse_string line mem = Some (min 16 (length (strtok_all line)), mem') \<and> length mem' = 512
    \<and> (\<forall>k < min 16 (length (strtok_all line)). cmd_slot mem' k = strtok_all line ! k)"
  using assms by (rule parse_string_slots)

theorem parse_string_words_witness:
  "\<exists>mem'. parse_string ''setPose 0 90'' (replicate 512 NUL) = Some (3, mem')
     \<and> cmd_slot mem' 0 = ''setPose'' \<and> cmd_slot mem' 1 = ''0'' \<and> cmd_slot mem' 2 = ''90''"
proof -
  have "join_words [''setPose'', ''0'', ''90''] = ''setPose 0 90''"
    by simp
  then have toks: "strtok_all ''setPose 0 90'' = [''setPose'', ''0'', ''90'']"
    using strtok_all_join [of "[''setPose'', ''0'', ''90'']"] by (simp add: plain_word_def NUL_def)
  have "\<exists>mem'. parse_string ''setPose 0 90'' (replicate 512 NUL) = Some (min 16 (length (strtok_all ''setPose 0 90'')), mem')
      \<and> length mem' = 512
      \<and> (\<forall>k < min 16 (length (strtok_all ''setPose 0 90'')). cmd_slot mem' k = strtok_all ''setPose 0 90'' ! k)"
    by (rule parse_string_words) (simp_all add: toks, simp_all add: NUL_def)
  then obtain mem' where "parse_string ''setPose 0 90'' (replicate 512 NUL) = Some (3, mem')"
      "\<forall>k < 3. cmd_slot mem' k = [''setPose'', ''0'', ''90''] ! k"
    by (auto simp: toks)
  then show ?thesis
    by (intro exI [of _ mem']) simp
qed


definition shell_started :: shell where
  "shell_started = \<lparr>sh_mem = replicate 512 NUL, sh_interactive = False, sh_should_stop = False, sh_cub = cub_started,
     sh_walk = walk_reset, sh_dancing = False\<rparr>"

definition env_zero :: shell_env where
  "env_zero = \<lparr>se_distance = (\<lambda>_. 0), se_heading = 0, se_volt = 0, se_current = 0, se_samples = [],
     se_meminfo = (0, 0, 0, 0), se_start = start_ok, se_walk_create = 0\<rparr>"


text \<open>
  The shell acknowledges every complete pose command: "setPose j p" and "gotoPose j p t" are
  answered "[ok]" for all integers, also when the joint or the position is invalid or the controller
  was never started and the method has returned false without doing anything.
\<close>

theorem shell_acknowledges_rejected_pose:
  assumes "length (sh_mem s) = 512" "int32 j" "int32 p" "int32 t"
    and "fd_servo (sh_cub s) < 0 \<or> \<not> valid_pose (unsigned32 j) p"
  shows "\<exists>mem mem'. shell_line env (command_line [''setPose'', show_int j, show_int p]) s =
      Some (ok_reply, s\<lparr>sh_mem := mem\<rparr>)
    \<and> shell_line env (command_line [''gotoPose'', show_int j, show_int p, show_int t]) s =
      Some (ok_reply, s\<lparr>sh_mem := mem'\<rparr>)"
proof -
  have "snd (setPose (unsigned32 j) p (sh_cub s)) = sh_cub s"
      "snd (gotoPose (unsigned32 j) p (of_int t / 1000) (sh_cub s)) = sh_cub s"
    using assms(5) by (auto simp: setPose_def gotoPose_def)
  then show ?thesis
    using shell_setPose [OF assms(1-3), of env] shell_gotoPose [OF assms(1-4), of env] by auto
qed

theorem shell_acknowledges_rejected_pose_witness:
  "\<exists>mem. shell_line env_zero (command_line [''setPose'', show_int 0, show_int 200]) shell_started =
     Some (ok_reply, shell_started\<lparr>sh_mem := mem\<rparr>)"
proof -
  have "length (sh_mem shell_started) = 512" "\<not> valid_pose (unsigned32 0) 200"
    by (simp_all add: shell_started_def valid_pose_def)
  then show ?thesis
    using shell_acknowledges_rejected_pose [of shell_started 0 200 0 env_zero] by (auto simp: int32_def)
qed

text \<open>Two readings of the printed battery values that are not what was measured.\<close>

lemma show_milli_no_padding: "show_milli 7050 = ''7.50''"
  by (simp add: show_milli_def show_int_def show_nat.simps signed_divide_int_def signed_modulo_int_def)

lemma show_milli_no_sign: "show_milli (- 500) = ''0.500''"
  by (simp add: show_milli_def show_int_def show_nat.simps signed_divide_int_def signed_modulo_int_def)

lemma battery_warning_level: "battery_warning mv \<noteq> [] \<longleftrightarrow> mv \<le> 6"
  by (auto simp: battery_warning_def)

end
