(* ===== verification/Host_Interface.thy ===== *)
theory Host_Interface
  imports Shell "HOL-Library.Monad_Syntax"
begin

text \<open>
  The robot's interface on the host computer (\<^verbatim>\<open>components/myCubInterface/main.cpp\<close>): the methods of the
  remote interface, which send one line to the control board over the serial port and read one line
  back, and the periodic battery report.  The serial device is a parameter \<^verbatim>\<open>ser\<close>: the line that
  \<^verbatim>\<open>receiveLine\<close> stores after a \<^verbatim>\<open>send\<close>, and the new state of what is behind the port.  The last section
  connects the interface with the command shell of the firmware.
\<close>

section \<open>The C library of the host\<close>

text \<open>
  The \<^verbatim>\<open>%d\<close> conversion of \<^verbatim>\<open>sscanf\<close> and \<^verbatim>\<open>atoi\<close> with the 32-bit \<^verbatim>\<open>long\<close> of the host's processor: blanks,
  an optional sign, at least one digit; values outside the type are clamped.
\<close>

definition clamp32 :: "int \<Rightarrow> int" where
  "clamp32 n = max (- (2 ^ 31)) (min (2 ^ 31 - 1) n)"

definition scan_int :: "string \<Rightarrow> (int \<times> string) option" where
  "scan_int s =
    (let t = dropWhile is_space s;
         neg = (t \<noteq> [] \<and> hd t = CHR ''-'');
         u = (if t \<noteq> [] \<and> (hd t = CHR ''-'' \<or> hd t = CHR ''+'') then tl t else t);
         ds = takeWhile is_digit u;
         v = int (scan_digits 0 ds)
     in if ds = [] then None else Some (clamp32 (if neg then - v else v), dropWhile is_digit u))"

definition host_atoi :: "string \<Rightarrow> int" where
  "host_atoi s = (case scan_int s of None \<Rightarrow> 0 | Some (v, _) \<Rightarrow> v)"

fun sscanf_ints :: "nat \<Rightarrow> string \<Rightarrow> int list" where
  "sscanf_ints 0 s = []"
| "sscanf_ints (Suc n) s =
    (case scan_int s of None \<Rightarrow> [] | Some (v, r) \<Rightarrow> v # sscanf_ints n r)"

section \<open>The state and the serial line\<close>

type_synonym 'w serial = "string \<Rightarrow> 'w \<Rightarrow> string \<times> 'w"

record 'w host =
  serBusy :: bool
  link :: 'w
  display :: "string list option"
  battery_volt :: rat
  battery_volt_count :: int

definition getSerialData :: "'w serial \<Rightarrow> 'w serial" where
  "getSerialData ser cmd w =
    (let (buff, w') = ser cmd w in (takeWhile (\<lambda>c. c \<noteq> NUL) (butlast buff), w'))"

text \<open>
  The frame of every method: take the mutex, wait while the line is busy, mark it, talk, release.
  None is the wait for a busy flag: it is entered with the mutex held, so no method can clear the flag.
\<close>

definition with_serial :: "('w \<Rightarrow> 'r \<times> 'w) \<Rightarrow> 'w host \<Rightarrow> ('r \<times> 'w host) option" where
  "with_serial f h =
    (if serBusy h then None else let (r, w) = f (link h) in Some (r, h\<lparr>link := w\<rparr>))"

definition acknowledged :: "'w serial \<Rightarrow> string \<Rightarrow> 'w \<Rightarrow> bool \<times> 'w" where
  "acknowledged ser cmd w = (let (r, w') = getSerialData ser cmd w in (r = ''[ok]'', w'))"

definition ask_int :: "'w serial \<Rightarrow> string \<Rightarrow> 'w \<Rightarrow> int \<times> 'w" where
  "ask_int ser cmd w = (let (r, w') = getSerialData ser cmd w in (host_atoi r, w'))"

section \<open>The methods\<close>

text \<open>
  \<^verbatim>\<open>(int)(pos*JOINTS_SCALE+JOINTS_MIN)\<close> with the factor 2.2687 and the offset 8.  The product is computed
  in a \<^verbatim>\<open>double\<close>; the exact value is an integer or at least 1/10000 away from the next one, far more than
  the rounding, and the integers are those of multiples of 10000, outside the limits either way.
\<close>

definition joint_value :: "int \<Rightarrow> int" where
  "joint_value pos = (pos * 22687 + 80000) sdiv 10000"

definition checkJointLimits :: "int \<Rightarrow> bool" where
  "checkJointLimits pos \<longleftrightarrow> joint_value pos \<le> 180 \<and> 0 \<le> joint_value pos"

definition checkJointIDs :: "int \<Rightarrow> bool" where
  "checkJointIDs joint \<longleftrightarrow> joint \<le> 3 \<and> 0 \<le> joint"

text \<open>\<^verbatim>\<open>(int)((pos-JOINTS_MIN+1)/JOINTS_SCALE)\<close>\<close>

definition pose_of_value :: "int \<Rightarrow> int" where
  "pose_of_value v = ((v - 7) * 10000) sdiv 22687"

definition host_ping :: "'w serial \<Rightarrow> 'w host \<Rightarrow> (bool \<times> 'w host) option" where
  "host_ping ser = with_serial (acknowledged ser (''ping'' @ nl))"

definition host_startController :: "'w serial \<Rightarrow> 'w host \<Rightarrow> (bool \<times> 'w host) option" where
  "host_startController ser = with_serial (acknowledged ser (''startControl'' @ nl))"

definition host_stopController :: "'w serial \<Rightarrow> 'w host \<Rightarrow> (bool \<times> 'w host) option" where
  "host_stopController ser = with_serial (acknowledged ser (''stopControl'' @ nl))"

definition host_setPose :: "'w serial \<Rightarrow> int \<Rightarrow> int \<Rightarrow> 'w host \<Rightarrow> (bool \<times> 'w host) option" where
  "host_setPose ser joint pos h =
    (if \<not> checkJointIDs joint \<or> \<not> checkJointLimits pos then Some (False, h)
     else with_serial (acknowledged ser
            (command_line [''setPose'', show_int joint, show_int (joint_value pos)])) h)"

definition host_getPose :: "'w serial \<Rightarrow> int \<Rightarrow> 'w host \<Rightarrow> (int \<times> 'w host) option" where
  "host_getPose ser joint h =
    (if \<not> checkJointIDs joint then Some (- 1, h)
     else map_option (\<lambda>(v, h'). (pose_of_value v, h'))
            (with_serial (ask_int ser (command_line [''getPose'', show_int joint])) h))"

fun host_getPoses :: "'w serial \<Rightarrow> int list \<Rightarrow> 'w host \<Rightarrow> (int list \<times> 'w host) option" where
  "host_getPoses ser [] h = Some ([], h)"
| "host_getPoses ser (i # is) h =
    do { (p, h1) \<leftarrow> host_getPose ser i h; (ps, h2) \<leftarrow> host_getPoses ser is h1; Some (p # ps, h2) }"

definition host_getPoseAll :: "'w serial \<Rightarrow> 'w host \<Rightarrow> (int list \<times> 'w host) option" where
  "host_getPoseAll ser = host_getPoses ser [0, 1, 2, 3]"

definition host_gotoPose :: "'w serial \<Rightarrow> int \<Rightarrow> int \<Rightarrow> int \<Rightarrow> 'w host \<Rightarrow> (bool \<times> 'w host) option" where
  "host_gotoPose ser joint pos t h =
    (if \<not> checkJointIDs joint \<or> \<not> checkJointLimits pos then Some (False, h)
     else with_serial (acknowledged ser
            (command_line [''gotoPose'', show_int joint, show_int (joint_value pos), show_int t])) h)"

text \<open>\<^verbatim>\<open>gotoPoseSync\<close> has no return statement: its result is undefined, so only the state is modelled.\<close>

definition host_gotoPoseSync :: "'w serial \<Rightarrow> int \<Rightarrow> int \<Rightarrow> int \<Rightarrow> 'w host \<Rightarrow> 'w host option" where
  "host_gotoPoseSync ser joint pos t h = map_option snd (host_gotoPose ser joint pos t h)"

fun setPoseAll_loop :: "'w serial \<Rightarrow> int \<Rightarrow> int list \<Rightarrow> 'w \<Rightarrow> bool \<times> 'w" where
  "setPoseAll_loop ser i [] w = (True, w)"
| "setPoseAll_loop ser i (pos # poses) w =
    (let (r, w1) = (if checkJointLimits pos
                    then acknowledged ser (command_line [''setPose'', show_int i, show_int (joint_value pos)]) w
                    else (False, w));
         (rs, w2) = setPoseAll_loop ser (i + 1) poses w1
     in (r \<and> rs, w2))"

definition host_setPoseAll :: "'w serial \<Rightarrow> int list \<Rightarrow> 'w host \<Rightarrow> (bool \<times> 'w host) option" where
  "host_setPoseAll ser poses h =
    (if length poses < 4 then Some (False, h) else with_serial (setPoseAll_loop ser 0 poses) h)"

fun gotoPoseAll_loop :: "'w serial \<Rightarrow> int \<Rightarrow> (int \<times> int) list \<Rightarrow> 'w \<Rightarrow> bool \<times> 'w" where
  "gotoPoseAll_loop ser i [] w = (True, w)"
| "gotoPoseAll_loop ser i ((pos, t) # moves) w =
    (let (r, w1) = (if checkJointLimits pos
                    then acknowledged ser
                           (command_line [''gotoPose'', show_int i, show_int (joint_value pos), show_int t]) w
                    else (False, w));
         (rs, w2) = gotoPoseAll_loop ser (i + 1) moves w1
     in (r \<and> rs, w2))"

definition host_gotoPoseAll :: "'w serial \<Rightarrow> int list \<Rightarrow> int list \<Rightarrow> 'w host \<Rightarrow> (bool \<times> 'w host) option" where
  "host_gotoPoseAll ser poses durations h =
    (if length poses < 4 \<or> length durations \<noteq> length poses then Some (False, h)
     else with_serial (gotoPoseAll_loop ser 0 (zip poses durations)) h)"

definition host_homeAll :: "'w serial \<Rightarrow> 'w host \<Rightarrow> (bool \<times> 'w host) option" where
  "host_homeAll ser = host_gotoPoseAll ser (replicate 4 0) (replicate 4 3000)"

definition host_getDistance :: "'w serial \<Rightarrow> int \<Rightarrow> 'w host \<Rightarrow> (int \<times> 'w host) option" where
  "host_getDistance ser i = with_serial (ask_int ser (command_line [''getDistance'', show_int i]))"

definition host_getMotion :: "'w serial \<Rightarrow> 'w host \<Rightarrow> (int \<times> 'w host) option" where
  "host_getMotion ser = with_serial (ask_int ser (''getMotion'' @ nl))"

text \<open>The vector has three zeros before \<^verbatim>\<open>sscanf\<close> stores what it converts.\<close>

definition host_getOrientation :: "'w serial \<Rightarrow> 'w host \<Rightarrow> (int list \<times> 'w host) option" where
  "host_getOrientation ser =
    with_serial (\<lambda>w. let (r, w') = getSerialData ser (''getOrientation'' @ nl) w;
                         vs = sscanf_ints 3 r
                     in (vs @ replicate (3 - length vs) 0, w'))"

text \<open>The heading in whole degrees; the \<^verbatim>\<open>float\<close> arithmetic over the reals, \<^verbatim>\<open>atan2\<close> a parameter.\<close>

definition host_heading :: "real \<Rightarrow> int" where
  "host_heading a =
    (let h1 = a + 0.027;
         h2 = (if h1 < 0 then h1 + 2 * pi else h1);
         h3 = (if 2 * pi < h2 then h2 - 2 * pi else h2);
         d = h3 * 180 / pi
     in if d < 0 then \<lceil>d\<rceil> else \<lfloor>d\<rfloor>)"

definition host_getHeading :: "(real \<Rightarrow> real \<Rightarrow> real) \<Rightarrow> 'w serial \<Rightarrow> 'w host \<Rightarrow> (int \<times> 'w host) option" where
  "host_getHeading atan2 ser h =
    do { (orit, h1) \<leftarrow> host_getOrientation ser h;
         Some (host_heading (atan2 (of_int (orit ! 1)) (of_int (orit ! 0))), h1) }"

definition host_getBatteryVolt :: "'w serial \<Rightarrow> 'w host \<Rightarrow> (int \<times> 'w host) option" where
  "host_getBatteryVolt ser = with_serial (ask_int ser (''getBatteryVolt'' @ nl))"

definition host_getBatteryCurrent :: "'w serial \<Rightarrow> 'w host \<Rightarrow> (int \<times> 'w host) option" where
  "host_getBatteryCurrent ser = with_serial (ask_int ser (''getBatteryCurrent'' @ nl))"

definition host_getAll :: "(real \<Rightarrow> real \<Rightarrow> real) \<Rightarrow> 'w serial \<Rightarrow> 'w host \<Rightarrow> (int list \<times> 'w host) option" where
  "host_getAll atan2 ser h =
    do { (pos, h1) \<leftarrow> host_getPoseAll ser h;
         (dist, h2) \<leftarrow> host_getDistance ser 0 h1;
         (heading, h3) \<leftarrow> host_getHeading atan2 ser h2;
         (volt, h4) \<leftarrow> host_getBatteryVolt ser h3;
         Some (pos @ [dist, heading, volt], h4) }"

text \<open>
  The periodic step: every thirteenth call shows the average as a percentage between 6.0 and 7.4 V.
  The floating-point average is taken exactly.
\<close>

definition host_updateModule :: "'w serial \<Rightarrow> 'w host \<Rightarrow> (bool \<times> 'w host) option" where
  "host_updateModule ser h =
    do { (mv, h1) \<leftarrow> host_getBatteryVolt ser h;
         let volt = battery_volt h1 + of_int mv / 1000;
             count = battery_volt_count h1;
             pct = (volt / of_int (count + 1) - 6) / (7.4 - 6) * 100;
             shown = (if pct < 0 then \<lceil>pct\<rceil> else \<lfloor>pct\<rfloor>)
         in Some (True,
              if 12 \<le> count
              then h1\<lparr>display := map_option (\<lambda>ls. ls @ [''%bat% '' @ show_int shown @ nl]) (display h1),
                     battery_volt := 0, battery_volt_count := 0\<rparr>
              else h1\<lparr>battery_volt := volt, battery_volt_count := count + 1\<rparr>) }"

definition host_close :: "'w serial \<Rightarrow> 'w host \<Rightarrow> (bool \<times> 'w host) option" where
  "host_close ser h = map_option (\<lambda>(_, h'). (True, h'\<lparr>display := None\<rparr>)) (host_stopController ser h)"

section \<open>Reading and scaling\<close>

lemma scan_int_show_int:
  assumes "int32 n" "r = [] \<or> \<not> is_digit (hd r)"
  shows "scan_int (show_int n @ r) = Some (n, r)"
proof -
  have digits: "takeWhile is_digit (show_nat m @ r) = show_nat m" "dropWhile is_digit (show_nat m @ r) = r" for m
    using assms(2) by (cases r; simp add: takeWhile_append2 dropWhile_append2 show_nat_digits)+
  have signs: "hd (show_nat m @ r) \<noteq> CHR ''-''" "hd (show_nat m @ r) \<noteq> CHR ''+''" for m
    using digit_not_sign [OF hd_show_nat_digit, of m] by simp_all
  have clamp: "clamp32 n = n"
    using assms(1) by (simp add: clamp32_def int32_def)
  have blanks: "dropWhile is_space (show_int n @ r) = show_int n @ r"
    by (simp add: show_int_def dropWhile_space_show_nat)
  show ?thesis
    unfolding scan_int_def blanks Let_def using signs clamp
    by (auto simp: show_int_def digits scan_digits_show_nat)
qed

lemma host_atoi_show_int [simp]: "int32 n \<Longrightarrow> host_atoi (show_int n) = n"
  using scan_int_show_int [of n "[]"] by (simp add: host_atoi_def)

lemma joint_value_nonneg: "0 \<le> p \<Longrightarrow> joint_value p = (p * 22687 + 80000) div 10000"
  by (simp add: joint_value_def signed_divide_int_def)

lemma joint_value_range: "0 \<le> p \<Longrightarrow> p \<le> 67 \<Longrightarrow> 8 \<le> joint_value p \<and> joint_value p \<le> 160"
  by (auto simp: joint_value_nonneg)

lemma pose_of_joint_value: "0 \<le> p \<Longrightarrow> p \<le> 67 \<Longrightarrow> pose_of_value (joint_value p) = p"
  by (simp add: joint_value_nonneg pose_of_value_def signed_divide_int_def)

lemma checkJointLimits_iff: "checkJointLimits p \<longleftrightarrow> - 3 \<le> p \<and> p \<le> 76"
proof (cases "- 3 \<le> p")
  case True
  then have "joint_value p = (p * 22687 + 80000) div 10000"
    by (simp add: joint_value_def signed_divide_int_def)
  with True show ?thesis
    by (auto simp: checkJointLimits_def)
next
  case False
  then have "1 \<le> (- (p * 22687) - 80000) div 10000"
    by linarith
  with False show ?thesis
    by (auto simp: checkJointLimits_def joint_value_def signed_divide_int_def sgn_if)
qed

text \<open>A free line: the method talks once and the flag is free again.\<close>

lemma with_serial_free: "\<not> serBusy h \<Longrightarrow> with_serial f h = Some (fst (f (link h)), h\<lparr>link := snd (f (link h))\<rparr>)"
  by (simp add: with_serial_def split_beta)

lemma getSerialData_line: "fst (ser cmd w) = r @ nl \<Longrightarrow> NUL \<notin> set r \<Longrightarrow> getSerialData ser cmd w = (r, snd (ser cmd w))"
  by (auto simp: getSerialData_def nl_def split_beta takeWhile_eq_all_conv)

lemma acknowledged_ok: "fst (ser cmd w) = ok_reply \<Longrightarrow> acknowledged ser cmd w = (True, snd (ser cmd w))"
  using getSerialData_line [of ser cmd w "''[ok]''"] by (simp add: acknowledged_def ok_reply_def NUL_def)

lemma acknowledged_error: "fst (ser cmd w) = error_reply \<Longrightarrow> acknowledged ser cmd w = (False, snd (ser cmd w))"
  using getSerialData_line [of ser cmd w "''[error]''"] by (simp add: acknowledged_def error_reply_def NUL_def)

lemma NUL_show_int: "NUL \<notin> set (show_int n)"
  using show_int_chars [of NUL n] by (auto simp: NUL_def is_digit_def)

lemma ask_int_number:
  "fst (ser cmd w) = show_int n @ nl \<Longrightarrow> int32 n \<Longrightarrow> ask_int ser cmd w = (n, snd (ser cmd w))"
  using getSerialData_line [of ser cmd w "show_int n"] by (simp add: ask_int_def NUL_show_int)

section \<open>What the interface relies on\<close>

text \<open>
  The contract of a board that serves the pose commands: \<^verbatim>\<open>pose\<close> is the joint positions it holds.
  Positions from 8 to 160 are taken over, others are acknowledged and ignored.
\<close>

locale pose_board =
  fixes ser :: "'w serial"
    and ready :: "'w \<Rightarrow> bool"
    and pose :: "'w \<Rightarrow> nat \<Rightarrow> int"
  assumes set_accept: "ready w \<Longrightarrow> j < 4 \<Longrightarrow> 8 \<le> v \<Longrightarrow> v \<le> 160 \<Longrightarrow>
      \<exists>w'. ser (command_line [''setPose'', show_int (int j), show_int v]) w = (ok_reply, w') \<and> ready w'
        \<and> pose w' = (pose w)(j := v)"
    and set_ignore: "ready w \<Longrightarrow> j < 4 \<Longrightarrow> int32 v \<Longrightarrow> v < 8 \<or> 160 < v \<Longrightarrow>
      \<exists>w'. ser (command_line [''setPose'', show_int (int j), show_int v]) w = (ok_reply, w') \<and> ready w'
        \<and> pose w' = pose w"
    and get_reply: "ready w \<Longrightarrow> j < 4 \<Longrightarrow>
      \<exists>w'. ser (command_line [''getPose'', show_int (int j)]) w = (show_int (pose w j) @ nl, w') \<and> ready w'
        \<and> pose w' = pose w"
    and pose_int32: "ready w \<Longrightarrow> j < 4 \<Longrightarrow> int32 (pose w j)"
begin

lemma setPose_accepted:
  assumes "ready (link h)" "\<not> serBusy h" "j < 4" "0 \<le> p" "p \<le> 67"
  shows "\<exists>w'. host_setPose ser (int j) p h = Some (True, h\<lparr>link := w'\<rparr>) \<and> ready w'
    \<and> pose w' = (pose (link h))(j := joint_value p)"
  using set_accept [OF assms(1,3), of "joint_value p"] joint_value_range [OF assms(4,5)] assms
  by (auto simp: host_setPose_def checkJointIDs_def checkJointLimits_iff with_serial_free acknowledged_ok)

lemma setPose_ignored:
  assumes "ready (link h)" "\<not> serBusy h" "j < 4" "- 3 \<le> p" "p < 0 \<or> 67 < p" "p \<le> 76"
  shows "\<exists>w'. host_setPose ser (int j) p h = Some (True, h\<lparr>link := w'\<rparr>) \<and> ready w' \<and> pose w' = pose (link h)"
proof -
  have lim: "checkJointLimits p"
    using assms by (simp add: checkJointLimits_iff)
  have "joint_value p = (p * 22687 + 80000) div 10000"
    using assms(4) by (simp add: joint_value_def signed_divide_int_def)
  then have "joint_value p < 8 \<or> 160 < joint_value p"
    using assms(5) by auto
  moreover have "int32 (joint_value p)"
    using lim by (simp add: checkJointLimits_def int32_def)
  ultimately show ?thesis
    using set_ignore [OF assms(1,3), of "joint_value p"] assms(2,3) lim
    by (auto simp: host_setPose_def checkJointIDs_def with_serial_free acknowledged_ok)
qed

lemma getPose_reads:
  assumes "ready (link h)" "\<not> serBusy h" "j < 4"
  shows "\<exists>w'. host_getPose ser (int j) h = Some (pose_of_value (pose (link h) j), h\<lparr>link := w'\<rparr>) \<and> ready w'
    \<and> pose w' = pose (link h)"
proof -
  obtain w' where w: "ser (command_line [''getPose'', show_int (int j)]) (link h) = (show_int (pose (link h) j) @ nl, w')"
      "ready w'" "pose w' = pose (link h)"
    using get_reply [OF assms(1,3)] by auto
  then have "ask_int ser (command_line [''getPose'', show_int (int j)]) (link h) = (pose (link h) j, w')"
    using ask_int_number [of ser _ "link h" "pose (link h) j"] pose_int32 [OF assms(1,3)] by simp
  then show ?thesis
    using w assms(2,3) by (auto simp: host_getPose_def checkJointIDs_def with_serial_free)
qed

lemma getPoses_reads:
  assumes "ready (link h)" "\<not> serBusy h" "\<forall>j\<in>set js. j < 4"
  shows "\<exists>w'. host_getPoses ser (map int js) h = Some (map (\<lambda>j. pose_of_value (pose (link h) j)) js, h\<lparr>link := w'\<rparr>)
    \<and> ready w' \<and> pose w' = pose (link h)"
  using assms
proof (induction js arbitrary: h)
  case (Cons j js)
  obtain w1 where w1: "host_getPose ser (int j) h = Some (pose_of_value (pose (link h) j), h\<lparr>link := w1\<rparr>)"
      "ready w1" "pose w1 = pose (link h)"
    using getPose_reads [of h j] Cons.prems by auto
  obtain w2 where "host_getPoses ser (map int js) (h\<lparr>link := w1\<rparr>) =
      Some (map (\<lambda>j. pose_of_value (pose w1 j)) js, h\<lparr>link := w2\<rparr>)" "ready w2" "pose w2 = pose w1"
    using Cons.IH [of "h\<lparr>link := w1\<rparr>"] Cons.prems w1(2) by auto
  then show ?case
    using w1 by auto
qed (auto intro!: exI [of _ "link h" for h])

lemma setPoses_accepted:
  assumes "ready w" "i + length ps \<le> 4" "\<forall>p\<in>set ps. 0 \<le> p \<and> p \<le> 67"
  shows "\<exists>w'. setPoseAll_loop ser (int i) ps w = (True, w') \<and> ready w'
    \<and> (\<forall>j. pose w' j = (if i \<le> j \<and> j < i + length ps then joint_value (ps ! (j - i)) else pose w j))"
  using assms
proof (induction ps arbitrary: i w)
  case (Cons p ps)
  obtain w1 where w1: "ser (command_line [''setPose'', show_int (int i), show_int (joint_value p)]) w = (ok_reply, w1)"
      "ready w1" "pose w1 = (pose w)(i := joint_value p)"
    using set_accept [of w i "joint_value p"] joint_value_range [of p] Cons.prems by auto
  obtain w2 where w2: "setPoseAll_loop ser (int (Suc i)) ps w1 = (True, w2)" "ready w2"
      "\<forall>j. pose w2 j = (if Suc i \<le> j \<and> j < Suc i + length ps then joint_value (ps ! (j - Suc i)) else pose w1 j)"
    using Cons.IH [of w1 "Suc i"] Cons.prems w1(2) by auto
  have "setPoseAll_loop ser (int i) (p # ps) w = (True, w2)"
    using w1(1) w2(1) Cons.prems(3)
    by (simp add: checkJointLimits_iff acknowledged_ok add.commute)
  moreover have "pose w2 j = (if i \<le> j \<and> j < i + length (p # ps) then joint_value ((p # ps) ! (j - i)) else pose w j)" for j
    using w2(3) w1(3) by (cases "j = i") (auto simp: nth_Cons')
  ultimately show ?case
    using w2(2) by blast
qed auto

lemma setPoseAll_getPoseAll:
  assumes "ready (link h)" "\<not> serBusy h" "length ps = 4" "\<forall>p\<in>set ps. 0 \<le> p \<and> p \<le> 67"
  shows "\<exists>w1 w2. host_setPoseAll ser ps h = Some (True, h\<lparr>link := w1\<rparr>)
    \<and> (\<forall>j<4. pose w1 j = joint_value (ps ! j))
    \<and> host_getPoseAll ser (h\<lparr>link := w1\<rparr>) = Some (ps, h\<lparr>link := w2\<rparr>)"
proof -
  obtain w1 where w1: "setPoseAll_loop ser 0 ps (link h) = (True, w1)" "ready w1"
      "\<forall>j<4. pose w1 j = joint_value (ps ! j)"
    using setPoses_accepted [of "link h" 0 ps] assms by auto
  obtain w2 where "host_getPoses ser (map int [0, 1, 2, 3]) (h\<lparr>link := w1\<rparr>) =
      Some (map (\<lambda>j. pose_of_value (pose w1 j)) [0, 1, 2, 3], h\<lparr>link := w2\<rparr>)"
    using getPoses_reads [of "h\<lparr>link := w1\<rparr>" "[0, 1, 2, 3]"] w1(2) assms(2) by auto
  moreover have "map (\<lambda>j. pose_of_value (pose w1 j)) [0, 1, 2, 3] = ps"
    using w1(3) assms(3,4) by (intro nth_equalityI) (auto simp: less_Suc_eq numeral_eq_Suc pose_of_joint_value)
  ultimately show ?thesis
    using w1 assms(2,3) by (auto simp: host_setPoseAll_def host_getPoseAll_def with_serial_free)
qed

end

text \<open>
  A board that also serves the timed motions: \<^verbatim>\<open>goal\<close> is the target and the duration in seconds that a
  joint's controller is asked for, \<^verbatim>\<open>waiting\<close> says that it waits for a request.
\<close>

locale motion_board = pose_board +
  fixes goal :: "'a \<Rightarrow> nat \<Rightarrow> int \<times> rat"
    and waiting :: "'a \<Rightarrow> nat \<Rightarrow> bool"
  assumes goto_accept: "ready w \<Longrightarrow> j < 4 \<Longrightarrow> waiting w j \<Longrightarrow> 8 \<le> v \<Longrightarrow> v \<le> 160 \<Longrightarrow> int32 t \<Longrightarrow>
      \<exists>w'. ser (command_line [''gotoPose'', show_int (int j), show_int v, show_int t]) w = (ok_reply, w')
        \<and> ready w' \<and> goal w' = (goal w)(j := (v, of_int t / 1000)) \<and> waiting w' = (waiting w)(j := False)"
begin

lemma gotoPoses_accepted:
  assumes "ready w" "i + length ms \<le> 4" "\<forall>(p, t)\<in>set ms. 0 \<le> p \<and> p \<le> 67 \<and> int32 t"
    and "\<forall>j. i \<le> j \<and> j < i + length ms \<longrightarrow> waiting w j"
  shows "\<exists>w'. gotoPoseAll_loop ser (int i) ms w = (True, w') \<and> ready w'
    \<and> (\<forall>j. goal w' j = (if i \<le> j \<and> j < i + length ms
                        then (joint_value (fst (ms ! (j - i))), of_int (snd (ms ! (j - i))) / 1000) else goal w j))"
  using assms
proof (induction ms arbitrary: i w)
  case (Cons m ms)
  obtain p t where m: "m = (p, t)"
    by fastforce
  obtain w1 where w1: "ser (command_line [''gotoPose'', show_int (int i), show_int (joint_value p), show_int t]) w = (ok_reply, w1)"
      "ready w1" "goal w1 = (goal w)(i := (joint_value p, of_int t / 1000))" "waiting w1 = (waiting w)(i := False)"
    using goto_accept [of w i "joint_value p" t] joint_value_range [of p] Cons.prems m by auto
  obtain w2 where w2: "gotoPoseAll_loop ser (int (Suc i)) ms w1 = (True, w2)" "ready w2"
      "\<forall>j. goal w2 j = (if Suc i \<le> j \<and> j < Suc i + length ms
          then (joint_value (fst (ms ! (j - Suc i))), of_int (snd (ms ! (j - Suc i))) / 1000) else goal w1 j)"
    using Cons.IH [of w1 "Suc i"] Cons.prems w1(2,4) by auto
  have "gotoPoseAll_loop ser (int i) (m # ms) w = (True, w2)"
    using w1(1) w2(1) Cons.prems(3) m by (simp add: checkJointLimits_iff acknowledged_ok add.commute)
  moreover have "goal w2 j = (if i \<le> j \<and> j < i + length (m # ms)
      then (joint_value (fst ((m # ms) ! (j - i))), of_int (snd ((m # ms) ! (j - i))) / 1000) else goal w j)" for j
    using w2(3) w1(3) m by (cases "j = i") (auto simp: nth_Cons')
  ultimately show ?case
    using w2(2) by blast
qed auto

lemma gotoPoseAll_requests:
  assumes "ready (link h)" "\<not> serBusy h" "length ps = 4" "length ts = 4" "\<forall>p\<in>set ps. 0 \<le> p \<and> p \<le> 67"
    "\<forall>t\<in>set ts. int32 t" "\<forall>j<4. waiting (link h) j"
  shows "\<exists>w'. host_gotoPoseAll ser ps ts h = Some (True, h\<lparr>link := w'\<rparr>)
    \<and> (\<forall>j<4. goal w' j = (joint_value (ps ! j), of_int (ts ! j) / 1000))"
proof -
  have "\<forall>(p, t)\<in>set (zip ps ts). 0 \<le> p \<and> p \<le> 67 \<and> int32 t"
    using assms(5,6) by (auto dest: set_zip_leftD set_zip_rightD)
  then show ?thesis
    using gotoPoses_accepted [of "link h" 0 "zip ps ts"] assms
    by (auto simp: host_gotoPoseAll_def with_serial_free)
qed

end

section \<open>The firmware behind the serial port\<close>

text \<open>
  The shell of the firmware as the other end: it runs the line and its output, of which the host keeps
  at most 127 characters, comes back.  The case of an overrun table does not occur for the lines the
  host sends.
\<close>

definition board_link :: "shell_env \<Rightarrow> shell serial" where
  "board_link env cmd s = (case shell_line env cmd s of None \<Rightarrow> ([], s) | Some (out, s') \<Rightarrow> (take 127 out, s'))"

definition board_ready :: "shell \<Rightarrow> bool" where
  "board_ready s \<longleftrightarrow> length (sh_mem s) = 512 \<and> 0 \<le> fd_servo (sh_cub s)
    \<and> (\<forall>j<4. 0 \<le> joints_pos (sh_cub s) j \<and> joints_pos (sh_cub s) j \<le> 160)"

definition board_goal :: "shell \<Rightarrow> nat \<Rightarrow> int \<times> rat" where
  "board_goal s j = (targetPos (ctrl (sh_cub s) j), ctl_time (ctrl (sh_cub s) j))"

definition board_waiting :: "shell \<Rightarrow> nat \<Rightarrow> bool" where
  "board_waiting s j \<longleftrightarrow> ctl_pc (ctrl (sh_cub s) j) = CondWait"

lemma take_ok_reply: "take 127 ok_reply = ok_reply"
  by (simp add: ok_reply_def nl_def)

lemma take_show_int: "int32 n \<Longrightarrow> take 127 (show_int n @ nl) = show_int n @ nl"
  using length_show_int [of n] by (simp add: nl_def)

lemma joint_index: "j < 4 \<Longrightarrow> int32 (int j) \<and> unsigned32 (int j) = j"
  by (simp add: int32_def unsigned32_def)

interpretation bd: pose_board "board_link env" board_ready "\<lambda>s. joints_pos (sh_cub s)" for env
proof
  fix w j v
  assume w: "board_ready w" and j: "j < (4::nat)" and v: "8 \<le> v" "v \<le> (160::int)"
  have "setPose j v (sh_cub w) = (True, (sh_cub w)\<lparr>io := io (sh_cub w) @ [SetPos j v],
      joints_pos := (joints_pos (sh_cub w))(j := v)\<rparr>)"
    using w j v by (simp add: setPose_def valid_pose_def board_ready_def)
  then show "\<exists>w'. board_link env (command_line [''setPose'', show_int (int j), show_int v]) w = (ok_reply, w')
      \<and> board_ready w' \<and> joints_pos (sh_cub w') = (joints_pos (sh_cub w))(j := v)"
    using shell_setPose [of w "int j" v env] w j v
    by (auto simp: board_link_def board_ready_def take_ok_reply joint_index int32_def)
next
  fix w j v
  assume w: "board_ready w" and j: "j < (4::nat)" and v: "int32 v" "v < 8 \<or> 160 < v"
  have "setPose j v (sh_cub w) = (False, sh_cub w)"
    using v by (auto simp: setPose_def valid_pose_def)
  then show "\<exists>w'. board_link env (command_line [''setPose'', show_int (int j), show_int v]) w = (ok_reply, w')
      \<and> board_ready w' \<and> joints_pos (sh_cub w') = joints_pos (sh_cub w)"
    using shell_setPose [of w "int j" v env] w j v
    by (auto simp: board_link_def board_ready_def take_ok_reply joint_index)
next
  fix w j
  assume w: "board_ready w" and j: "j < (4::nat)"
  then have "int32 (joints_pos (sh_cub w) j)" "getPose j (sh_cub w) = joints_pos (sh_cub w) j"
    by (auto simp: board_ready_def int32_def getPose_def dest!: spec [of _ j])
  then show "\<exists>w'. board_link env (command_line [''getPose'', show_int (int j)]) w = (show_int (joints_pos (sh_cub w) j) @ nl, w')
      \<and> board_ready w' \<and> joints_pos (sh_cub w') = joints_pos (sh_cub w)"
    using shell_getPose [of w "int j" env] w j
    by (auto simp: board_link_def board_ready_def take_show_int joint_index simp del: take_append)
next
  fix w j
  assume "board_ready w" "j < (4::nat)"
  then show "int32 (joints_pos (sh_cub w) j)"
    by (auto simp: board_ready_def int32_def dest!: spec [of _ j])
qed

interpretation mb: motion_board "board_link env" board_ready "\<lambda>s. joints_pos (sh_cub s)" board_goal board_waiting for env
proof
  fix w j v t
  assume w: "board_ready w" and j: "j < (4::nat)" "board_waiting w j" and v: "8 \<le> v" "v \<le> (160::int)" "int32 t"
  define c where "c = snd (gotoPose j v (of_int t / 1000) (sh_cub w))"
  have c: "fd_servo c = fd_servo (sh_cub w)" "joints_pos c = joints_pos (sh_cub w)"
      "ctrl c = (ctrl (sh_cub w))(j := (ctrl (sh_cub w) j)\<lparr>targetPos := v, ctl_time := of_int t / 1000,
          status := CTRLSTATE_GOPOS, ctl_pc := Woken\<rparr>)"
    using w j v by (auto simp: c_def gotoPose_def valid_pose_def board_ready_def board_waiting_def request_pose_def
        cond_signal_def set_pc_def)
  have "int32 v"
    using v by (simp add: int32_def)
  then obtain mem where "shell_line env (command_line [''gotoPose'', show_int (int j), show_int v, show_int t]) w =
      Some (ok_reply, w\<lparr>sh_mem := mem, sh_cub := c\<rparr>)" "length mem = 512"
    using shell_gotoPose [of w "int j" v t env] w j v by (auto simp: board_ready_def joint_index c_def)
  then show "\<exists>w'. board_link env (command_line [''gotoPose'', show_int (int j), show_int v, show_int t]) w = (ok_reply, w')
      \<and> board_ready w' \<and> board_goal w' = (board_goal w)(j := (v, of_int t / 1000))
      \<and> board_waiting w' = (board_waiting w)(j := False)"
    using w by (intro exI [of _ "w\<lparr>sh_mem := mem, sh_cub := c\<rparr>"])
      (auto simp: board_link_def take_ok_reply board_ready_def board_goal_def board_waiting_def c fun_eq_iff)
qed

lemma board_command:
  assumes "length (sh_mem s) = 512" "plain_word w"
  shows "\<exists>mem. shell_line env (w @ nl) s = Some (run_command env 1 (cmd_slot mem) (s\<lparr>sh_mem := mem\<rparr>))
    \<and> length mem = 512 \<and> cmd_slot mem 0 = w"
  using shell_command [of s "[w]" env] assms by (auto simp: command_line_def)

lemma plain_word_queries: "plain_word ''getBatteryVolt''" "plain_word ''getOrientation''"
  by (simp_all add: plain_word_def NUL_def)

lemma length_show_milli: "int32 v \<Longrightarrow> length (show_milli v) \<le> 23"
proof -
  assume v: "int32 v"
  have "int32 (v sdiv 1000)" "int32 \<bar>v smod 1000\<bar>"
    using v by (auto simp: int32_def signed_divide_int_def signed_modulo_int_def sgn_if split: if_splits)
  then show ?thesis
    using length_show_int [of "v sdiv 1000"] length_show_int [of "\<bar>v smod 1000\<bar>"] by (simp add: show_milli_def)
qed

lemma host_atoi_show_milli: "int32 v \<Longrightarrow> host_atoi (show_milli v) = v sdiv 1000"
proof -
  assume v: "int32 v"
  have "int32 (v sdiv 1000)"
    using v by (auto simp: int32_def signed_divide_int_def sgn_if split: if_splits)
  then show ?thesis
    using scan_int_show_int [of "v sdiv 1000" "''.'' @ show_int \<bar>v smod 1000\<bar>"]
    by (simp add: host_atoi_def show_milli_def is_digit_def)
qed

lemma board_battery:
  assumes "length (sh_mem s) = 512" "int32 (se_volt env)"
  shows "\<exists>mem. ask_int (board_link env) (''getBatteryVolt'' @ nl) s = (se_volt env sdiv 1000, s\<lparr>sh_mem := mem\<rparr>) \<and> length mem = 512"
proof -
  obtain mem where "shell_line env (''getBatteryVolt'' @ nl) s = Some (show_milli (se_volt env) @ nl, s\<lparr>sh_mem := mem\<rparr>)"
      and mem: "length mem = 512"
    using board_command [OF assms(1) plain_word_queries(1), of env] by (auto simp: run_command_def Let_def)
  moreover have "take 127 (show_milli (se_volt env) @ nl) = show_milli (se_volt env) @ nl"
    using length_show_milli [OF assms(2)] by (simp add: nl_def)
  ultimately have "board_link env (''getBatteryVolt'' @ nl) s = (show_milli (se_volt env) @ nl, s\<lparr>sh_mem := mem\<rparr>)"
    by (simp add: board_link_def del: take_append)
  moreover have "NUL \<notin> set (show_milli (se_volt env))"
    by (simp add: show_milli_def NUL_show_int) (simp add: NUL_def)
  ultimately show ?thesis
    using getSerialData_line [of "board_link env" "''getBatteryVolt'' @ nl" s "show_milli (se_volt env)"]
      host_atoi_show_milli [OF assms(2)] mem by (intro exI [of _ mem]) (simp add: ask_int_def)
qed

lemma board_orientation:
  assumes "length (sh_mem s) = 512" "\<not> sh_interactive s"
  shows "\<exists>s'. getSerialData (board_link env) (''getOrientation'' @ nl) s = (''[error]'', s')"
proof -
  obtain mem where "shell_line env (''getOrientation'' @ nl) s = Some (error_reply, s\<lparr>sh_mem := mem\<rparr>)"
    using board_command [OF assms(1) plain_word_queries(2), of env] assms(2) by (auto simp: run_command_def Let_def)
  then show ?thesis
    by (simp add: getSerialData_def board_link_def error_reply_def nl_def NUL_def)
qed

lemma pi_ge_three: "3 \<le> pi"
  using sin_x_le_x [of "pi / 6"] by (simp add: sin_30)

lemma host_heading_zero: "host_heading 0 = 1"
proof -
  have "1 \<le> 0.027 * 180 / pi" "0.027 * 180 / pi < 2"
    using pi_ge_three pi_less_4 by (simp_all add: field_simps)
  then have "\<lfloor>0.027 * 180 / pi\<rfloor> = 1"
    by linarith
  then show ?thesis
    using pi_ge_three by (simp add: host_heading_def Let_def)
qed

section \<open>Properties\<close>


definition host_ready :: "shell host" where
  "host_ready = \<lparr>serBusy = False, link = shell_started, display = None, battery_volt = 0, battery_volt_count = 0\<rparr>"

lemma host_ready_board: "board_ready (link host_ready)" "\<not> serBusy host_ready"
  by (simp_all add: host_ready_def board_ready_def shell_started_def cub_started_def startController_def start_ok_def
      cub_new_def set_pc_def Let_def numeral_eq_Suc)


text \<open>
  What a single \<^verbatim>\<open>setPose\<close> on the host answers and does, for every position: it reports success
  exactly from -3 to 76, but the joint only moves from 0 to 67; the other accepted positions are
  dropped by the firmware, which acknowledges them all the same.
\<close>

theorem host_setPose_limits:
  assumes "board_ready (link h)" "\<not> serBusy h" "j < 4"
  shows "\<exists>w'. host_setPose (board_link env) (int j) p h = Some (- 3 \<le> p \<and> p \<le> 76, h\<lparr>link := w'\<rparr>)
    \<and> joints_pos (sh_cub w') = (if 0 \<le> p \<and> p \<le> 67 then (joints_pos (sh_cub (link h)))(j := joint_value p)
                                else joints_pos (sh_cub (link h)))"
proof -
  consider "0 \<le> p \<and> p \<le> 67" | "- 3 \<le> p \<and> (p < 0 \<or> 67 < p) \<and> p \<le> 76" | "\<not> (- 3 \<le> p \<and> p \<le> 76)"
    by linarith
  then show ?thesis
  proof cases
    case 1
    then show ?thesis
      using bd.setPose_accepted [OF assms, of p] by auto
  next
    case 2
    then show ?thesis
      using bd.setPose_ignored [OF assms, of p] by auto
  next
    case 3
    then show ?thesis
      by (auto simp: host_setPose_def checkJointLimits_iff intro!: exI [of _ "link h"])
  qed
qed

theorem host_setPose_limits_witness:
  "\<exists>w'. host_setPose (board_link env_zero) 2 70 host_ready = Some (True, host_ready\<lparr>link := w'\<rparr>)
    \<and> joints_pos (sh_cub w') = joints_pos (sh_cub (link host_ready))"
  using host_setPose_limits [OF host_ready_board, of 2 env_zero 70] by simp

text \<open>
  Homing: when the four controllers wait, \<^verbatim>\<open>homeAll\<close> succeeds and asks each of them for position 8 within
  three seconds.
\<close>

theorem host_homeAll_requests:
  assumes "board_ready (link h)" "\<not> serBusy h" "\<forall>j<4. board_waiting (link h) j"
  shows "\<exists>w'. host_homeAll (board_link env) h = Some (True, h\<lparr>link := w'\<rparr>)
    \<and> (\<forall>j<4. targetPos (ctrl (sh_cub w') j) = 8 \<and> ctl_time (ctrl (sh_cub w') j) = 3)"
proof -
  have "\<forall>p\<in>set (replicate 4 0). 0 \<le> p \<and> p \<le> (67::int)" "\<forall>t\<in>set (replicate 4 3000). int32 t"
    by (simp_all add: int32_def)
  from mb.gotoPoseAll_requests [OF assms(1,2) _ _ this assms(3), of env] show ?thesis
    by (auto simp: host_homeAll_def board_goal_def joint_value_nonneg)
qed

definition host_waiting :: "shell host" where
  "host_waiting = host_ready\<lparr>link := shell_started\<lparr>sh_cub := cub_all_waiting\<rparr>\<rparr>"

theorem host_homeAll_requests_witness:
  "\<exists>w'. host_homeAll (board_link env_zero) host_waiting = Some (True, host_waiting\<lparr>link := w'\<rparr>)
    \<and> targetPos (ctrl (sh_cub w') 2) = 8 \<and> ctl_time (ctrl (sh_cub w') 2) = 3"
proof -
  have "joints_pos cub_all_waiting = joints_pos cub_started" "fd_servo cub_all_waiting = fd_servo cub_started"
    by (simp_all add: cub_all_waiting_def)
  then have "board_ready (link host_waiting)" "\<not> serBusy host_waiting"
    using host_ready_board by (simp_all add: host_waiting_def board_ready_def host_ready_def shell_started_def)
  moreover have "\<forall>j<4. board_waiting (link host_waiting) j"
    by (simp add: host_waiting_def board_waiting_def cub_all_waiting_def)
  ultimately obtain w' where "host_homeAll (board_link env_zero) host_waiting = Some (True, host_waiting\<lparr>link := w'\<rparr>)"
      "\<forall>j<4. targetPos (ctrl (sh_cub w') j) = 8 \<and> ctl_time (ctrl (sh_cub w') j) = 3"
    using host_homeAll_requests [of host_waiting env_zero] by blast
  then show ?thesis
    by auto
qed

text \<open>
  Battery voltage over the link: the firmware prints volts with a decimal point, the host reads an
  integer that it documents and uses as millivolts.  What it gets is the number of whole volts.
\<close>

theorem host_battery_is_volts:
  assumes "length (sh_mem (link h)) = 512" "\<not> serBusy h" "int32 (se_volt env)"
  shows "\<exists>w'. host_getBatteryVolt (board_link env) h = Some (se_volt env sdiv 1000, h\<lparr>link := w'\<rparr>)"
  using board_battery [OF assms(1,3)] assms(2) by (auto simp: host_getBatteryVolt_def with_serial_free)

theorem host_battery_is_volts_witness:
  "\<exists>w'. host_getBatteryVolt (board_link (env_zero\<lparr>se_volt := 7400\<rparr>)) host_ready = Some (7, host_ready\<lparr>link := w'\<rparr>)"
  using host_battery_is_volts [of host_ready "env_zero\<lparr>se_volt := 7400\<rparr>"] host_ready_board
  by (simp add: board_ready_def int32_def signed_divide_int_def)

text \<open>
  The firmware's shell has no orientation command, so the host's heading is always one degree:
  the reply is the error text, no axis is converted, and what remains is the declination.  The
  hypothesis on \<^verbatim>\<open>atan2\<close> is the C library's value at the origin.
\<close>

theorem host_heading_constant:
  assumes "length (sh_mem (link h)) = 512" "\<not> sh_interactive (link h)" "\<not> serBusy h" "atan2 0 0 = 0"
  shows "\<exists>w'. host_getHeading atan2 (board_link env) h = Some (1, h\<lparr>link := w'\<rparr>)"
proof -
  have "sscanf_ints 3 ''[error]'' = []"
    by (simp add: numeral_3_eq_3 scan_int_def is_space_def is_digit_def Let_def)
  then show ?thesis
    using board_orientation [OF assms(1,2), of env] assms(3,4)
    by (auto simp: host_getHeading_def host_getOrientation_def with_serial_free numeral_3_eq_3 host_heading_zero)
qed

theorem host_heading_constant_witness:
  "\<exists>w'. host_getHeading (\<lambda>y x. Arg (Complex x y)) (board_link env_zero) host_ready = Some (1, host_ready\<lparr>link := w'\<rparr>)"
proof -
  have "Arg (Complex 0 0) = 0"
    by (simp add: Arg_def Complex_eq_0)
  then show ?thesis
    using host_heading_constant [of host_ready "\<lambda>y x. Arg (Complex x y)" env_zero] host_ready_board
    by (simp add: board_ready_def host_ready_def shell_started_def)
qed

end
