(* ===== verification/Gaze_Control.thy ===== *)
theory Gaze_Control
  imports MyCub_Prelude Complex_Main
begin

text \<open>
  The gaze controller on the host (\<^verbatim>\<open>components/gazeControl/main.cpp\<close>): the two joints of the head, moved
  step by step through the servo daemon, the inverse kinematics that turns a point in space into
  joint angles, and the command handler.  Angles and lengths are reals and \<^verbatim>\<open>atan2\<close> is a parameter, as
  are the accessors of YARP's bottles.  What the other thread and the servo device do during a motion
  is a list of observations, one per round of the loop.
\<close>

section \<open>The joints\<close>

abbreviation (input) JOINT1_MIN :: int where "JOINT1_MIN \<equiv> 10"
abbreviation (input) JOINT1_MAX :: int where "JOINT1_MAX \<equiv> 155"
abbreviation (input) JOINT2_MIN :: int where "JOINT2_MIN \<equiv> 10"
abbreviation (input) JOINT2_MAX :: int where "JOINT2_MAX \<equiv> 180"
abbreviation (input) JOINT1_REST :: int where "JOINT1_REST \<equiv> 100"
abbreviation (input) JOINT2_REST :: int where "JOINT2_REST \<equiv> 105"
abbreviation (input) JOINTS_SPEED :: real where "JOINTS_SPEED \<equiv> 0.2"
abbreviation (input) GAZE_MIN_PULSE :: int where "GAZE_MIN_PULSE \<equiv> 55"
abbreviation (input) GAZE_MAX_PULSE :: int where "GAZE_MAX_PULSE \<equiv> 240"

text \<open>The lines written to the servo device, with joint and pulse width, and the pauses.\<close>

datatype gaze_event = ServoLine int int | Pause real

record gaze =
  pos_1 :: int
  pos_2 :: int
  gaze_speed :: real
  gaze_io :: "gaze_event list"

definition limit :: "int \<Rightarrow> int \<Rightarrow> int \<Rightarrow> int" where
  "limit lo hi pos = (let p = (if pos < lo then lo else pos) in if hi < p then hi else p)"

text \<open>
  \<^verbatim>\<open>setJointPose\<close>; \<^verbatim>\<open>written\<close> says whether \<^verbatim>\<open>fprintf\<close> wrote the line.  It is called with the joints 0 and 1,
  the elements of \<^verbatim>\<open>joints_pos\<close>.
\<close>

definition gaze_setJointPose :: "bool \<Rightarrow> int \<Rightarrow> int \<Rightarrow> gaze \<Rightarrow> bool \<times> gaze" where
  "gaze_setJointPose written joint pos g =
    (if joint < 0 then (False, g)
     else
       let p = (if joint = 0 then limit JOINT1_MIN JOINT1_MAX pos else limit JOINT2_MIN JOINT2_MAX pos);
           pulse_width = GAZE_MIN_PULSE + ((GAZE_MAX_PULSE - GAZE_MIN_PULSE) sdiv 180) * p
       in if written
          then (True, (if joint = 0 then g\<lparr>pos_1 := p\<rparr> else g\<lparr>pos_2 := p\<rparr>)
                        \<lparr>gaze_io := gaze_io g @ [ServoLine joint pulse_width]\<rparr>)
          else (False, g))"

text \<open>One round of the loop of \<^verbatim>\<open>setAllJointsPose\<close>: a step of each joint that is not at its target.\<close>

definition gaze_round :: "int \<Rightarrow> int \<Rightarrow> int \<Rightarrow> int \<Rightarrow> bool \<Rightarrow> bool \<Rightarrow> gaze \<Rightarrow> bool \<times> gaze" where
  "gaze_round pos1 pos2 step1 step2 w1 w2 g =
    (let (r1, g1) = (if pos1 \<noteq> pos_1 g then gaze_setJointPose w1 0 (pos_1 g + step1) g else (True, g));
         (r2, g2) = (if pos2 \<noteq> pos_2 g1 then gaze_setJointPose w2 1 (pos_2 g1 + step2) g1 else (True, g1))
     in (r1 \<and> r2, g2))"

text \<open>
  The loop: each round first observes \<^verbatim>\<open>shouldStop\<close>, which a new command sets, and the results of the
  writes for the two joints.  None is a motion that is still going on.
\<close>

fun gaze_loop :: "int \<Rightarrow> int \<Rightarrow> int \<Rightarrow> int \<Rightarrow> real \<Rightarrow> (bool \<times> bool \<times> bool) list \<Rightarrow> bool \<Rightarrow> bool \<Rightarrow> gaze
    \<Rightarrow> (bool \<times> gaze) option" where
  "gaze_loop pos1 pos2 step1 step2 d [] set1 set2 g = (if set1 \<and> set2 then Some (True, g) else None)"
| "gaze_loop pos1 pos2 step1 step2 d ((shouldStop, w1, w2) # obs) set1 set2 g =
    (if set1 \<and> set2 \<or> shouldStop then Some (True, g)
     else
       let (ret, g') = gaze_round pos1 pos2 step1 step2 w1 w2 g
       in if \<not> ret then Some (False, g')
          else gaze_loop pos1 pos2 step1 step2 d obs (set1 \<or> pos1 = pos_1 g) (set2 \<or> pos2 = pos_2 g)
                 (g'\<lparr>gaze_io := gaze_io g' @ [Pause d]\<rparr>))"

text \<open>The pause after each step in microseconds; with nothing to do it is not used.\<close>

definition step_delay :: "real \<Rightarrow> int \<Rightarrow> real" where
  "step_delay speed diff =
    (let d = speed / of_int diff * 1000000 in if d < 5000 then 5000 else d)"

definition gaze_setAllJointsPose :: "(bool \<times> bool \<times> bool) list \<Rightarrow> int \<Rightarrow> int \<Rightarrow> real \<Rightarrow> gaze \<Rightarrow> (bool \<times> gaze) option" where
  "gaze_setAllJointsPose obs pos1 pos2 speed g =
    (let p1 = limit JOINT1_MIN JOINT1_MAX pos1;
         p2 = limit JOINT2_MIN JOINT2_MAX pos2;
         step1 = (if pos_1 g < p1 then 1 else - 1);
         step2 = (if pos_2 g < p2 then 1 else - 1);
         diff1 = \<bar>p1 - pos_1 g\<bar>;
         diff = (if diff1 < \<bar>p2 - pos_2 g\<bar> then \<bar>p2 - pos_2 g\<bar> else diff1)
     in gaze_loop p1 p2 step1 step2 (step_delay speed diff) obs (p1 = pos_1 g) (p2 = pos_2 g) g)"

section \<open>Inverse kinematics\<close>

abbreviation (input) gz_d2 :: real where "gz_d2 \<equiv> 0.03"
abbreviation (input) gz_a2 :: real where "gz_a2 \<equiv> 0.01"
abbreviation (input) gz_d1 :: real where "gz_d1 \<equiv> 0.045"

text \<open>C's \<^verbatim>\<open>fmod\<close> and the conversion of a \<^verbatim>\<open>double\<close> to \<^verbatim>\<open>int\<close> truncate towards zero.\<close>

definition trunc :: "real \<Rightarrow> int" where
  "trunc x = (if x < 0 then \<lceil>x\<rceil> else \<lfloor>x\<rfloor>)"

definition fmod :: "real \<Rightarrow> real \<Rightarrow> real" where
  "fmod x y = x - y * of_int (trunc (x / y))"

text \<open>One angle brought between minus and plus pi.\<close>

definition wrap_angle :: "real \<Rightarrow> real" where
  "wrap_angle s =
    (let s1 = (if pi < s then s - 2 * pi else s) in if s1 < - pi then s1 + 2 * pi else s1)"

type_synonym atan2_fun = "real \<Rightarrow> real \<Rightarrow> real"

definition neck_1 :: "atan2_fun \<Rightarrow> real \<Rightarrow> real \<Rightarrow> real" where
  "neck_1 atan2 x y = atan2 y x - atan2 gz_d2 (sqrt (x * x + y * y - gz_d2 * gz_d2))"

definition neck_2 :: "atan2_fun \<Rightarrow> real \<Rightarrow> real \<Rightarrow> real" where
  "neck_2 atan2 x y = atan2 y x - atan2 gz_d2 (- sqrt (x * x + y * y - gz_d2 * gz_d2))"

definition reach :: "real \<Rightarrow> real \<Rightarrow> real \<Rightarrow> real" where
  "reach x y j1 = x * cos j1 + y * sin j1"

definition head_plus :: "atan2_fun \<Rightarrow> real \<Rightarrow> real \<Rightarrow> real" where
  "head_plus atan2 A z = atan2 (z - gz_d1) (- A)
     - atan2 gz_a2 (sqrt ((z - gz_d1) * (z - gz_d1) + A * A - gz_a2 * gz_a2))"

definition head_minus :: "atan2_fun \<Rightarrow> real \<Rightarrow> real \<Rightarrow> real" where
  "head_minus atan2 A z = atan2 (z - gz_d1) (- A)
     - atan2 gz_a2 (- sqrt ((z - gz_d1) * (z - gz_d1) + A * A - gz_a2 * gz_a2))"

definition depth :: "real \<Rightarrow> real \<Rightarrow> real \<Rightarrow> real" where
  "depth A z j2 = (gz_d1 - z) * sin j2 + A * cos j2"

text \<open>The two candidate solutions of \<^verbatim>\<open>setCartPose\<close>, in radians.\<close>

definition cart_sol1 :: "atan2_fun \<Rightarrow> real \<Rightarrow> real \<Rightarrow> real \<Rightarrow> real \<times> real" where
  "cart_sol1 atan2 x y z =
    (let j1_1 = neck_1 atan2 x y;
         j1_2 = neck_2 atan2 x y;
         A1 = reach x y j1_1;
         j2_1 = head_plus atan2 A1 z;
         j2_2 = head_minus atan2 A1 z
     in if 0 < depth A1 z j2_1
        then (wrap_angle (fmod j1_1 (2 * pi)), wrap_angle (fmod j1_2 (2 * pi)))
        else (wrap_angle (fmod j1_1 (2 * pi)), wrap_angle (fmod j2_2 (2 * pi))))"

definition cart_sol2 :: "atan2_fun \<Rightarrow> real \<Rightarrow> real \<Rightarrow> real \<Rightarrow> real \<times> real" where
  "cart_sol2 atan2 x y z =
    (let j1_2 = neck_2 atan2 x y;
         A2 = reach x y j1_2;
         j2_3 = head_plus atan2 A2 z;
         j2_4 = head_minus atan2 A2 z
     in if 0 < depth A2 z j2_3
        then (wrap_angle (fmod j1_2 (2 * pi)), wrap_angle (fmod j2_3 (2 * pi)))
        else (wrap_angle (fmod j1_2 (2 * pi)), wrap_angle (fmod j2_4 (2 * pi))))"

definition to_degrees :: "real \<times> real \<Rightarrow> real \<times> real" where
  "to_degrees s = (fst s * (180 / pi), snd s * (180 / pi))"

definition effort :: "real \<times> real \<Rightarrow> real" where
  "effort s = \<bar>fst s\<bar> + \<bar>snd s\<bar>"

definition gaze_setCartPose :: "atan2_fun \<Rightarrow> (bool \<times> bool \<times> bool) list \<Rightarrow> real \<Rightarrow> real \<Rightarrow> real \<Rightarrow> real \<Rightarrow> gaze
    \<Rightarrow> (bool \<times> gaze) option" where
  "gaze_setCartPose atan2 obs x y z speed g =
    (let sol1 = to_degrees (cart_sol1 atan2 x y z);
         sol2 = to_degrees (cart_sol2 atan2 x y z);
         sol = (if effort sol1 < effort sol2 then sol1 else sol2)
     in gaze_setAllJointsPose obs (trunc (snd sol + of_int JOINT1_REST)) (trunc (fst sol + of_int JOINT2_REST)) speed g)"

text \<open>The point seen at depth \<^verbatim>\<open>d3\<close> and offsets \<^verbatim>\<open>x3\<close>, \<^verbatim>\<open>y3\<close> in the camera frame, \<^verbatim>\<open>z3\<close> being zero.\<close>

definition forward_kinematics :: "real \<Rightarrow> real \<Rightarrow> real \<Rightarrow> real \<Rightarrow> real \<Rightarrow> real \<times> real \<times> real" where
  "forward_kinematics theta1 theta2 x3 y3 d3 =
    (d3 * cos theta1 * cos theta2 - y3 * sin theta1 - gz_d2 * sin theta1 + gz_a2 * cos theta1 * sin theta2
       + x3 * cos theta1 * sin theta2,
     gz_d2 * cos theta1 + y3 * cos theta1 + d3 * cos theta2 * sin theta1 + gz_a2 * sin theta1 * sin theta2
       + x3 * sin theta1 * sin theta2,
     gz_d1 + gz_a2 * cos theta2 - d3 * sin theta2 + x3 * cos theta2)"

section \<open>Commands\<close>

text \<open>
  The accessors of a bottle: its size, and the element at an index as a string, list, integer or
  floating-point number.
\<close>

record 'b bottle_ops =
  bsize :: "'b \<Rightarrow> nat"
  asString :: "'b \<Rightarrow> nat \<Rightarrow> string"
  asList :: "'b \<Rightarrow> nat \<Rightarrow> 'b option"
  asInt :: "'b \<Rightarrow> nat \<Rightarrow> int"
  asDouble :: "'b \<Rightarrow> nat \<Rightarrow> real"

datatype gaze_reply = GEmpty | GAck | GNack | GJoints int int

text \<open>The camera matrix applied to the pixel (u, v, 1).\<close>

definition camera_frame :: "real \<Rightarrow> real \<Rightarrow> real \<times> real" where
  "camera_frame u v = (0.00426 * u - 0.36063, 0.00427 * v - 0.25214)"

definition cam_target :: "gaze \<Rightarrow> real \<Rightarrow> real \<Rightarrow> real \<Rightarrow> real \<times> real \<times> real" where
  "cam_target g u v d3 =
    (let (cx, cy) = camera_frame u v
     in forward_kinematics (of_int (pos_2 g - JOINT2_REST) * pi / 180) (of_int (pos_1 g - JOINT1_REST) * pi / 180)
          (- cy) (- cx) d3)"

text \<open>
  \<^verbatim>\<open>updateModule\<close> for one command: the reply, whether the module goes on, and the state; None while the
  motion is going on.  The result of the motion is ignored by the code.
\<close>

definition gaze_updateModule :: "'b bottle_ops \<Rightarrow> atan2_fun \<Rightarrow> (bool \<times> bool \<times> bool) list \<Rightarrow> 'b \<Rightarrow> gaze
    \<Rightarrow> (gaze_reply \<times> bool \<times> gaze) option" where
  "gaze_updateModule bo atan2 obs cmd g =
    (let mode = asString bo cmd 0;
         move = (\<lambda>n speed_at run. case asList bo cmd 1 of
                  None \<Rightarrow> Some (GNack, True, g)
                | Some pos \<Rightarrow>
                    if bsize bo pos < n then Some (GNack, True, g)
                    else
                      let speed = speed_at pos
                      in map_option (\<lambda>(_, g'). (GAck, True, g')) (run pos speed (g\<lparr>gaze_speed := speed\<rparr>)))
     in if mode = ''cmd_exit'' then Some (GEmpty, False, g)
        else if mode = ''get'' then
          (if bsize bo cmd < 2 then Some (GNack, False, g)
           else if asString bo cmd 1 = ''joints'' then Some (GJoints (pos_1 g) (pos_2 g), True, g)
           else Some (GNack, True, g))
        else if mode = ''joint'' then
          move 2 (\<lambda>pos. if 3 \<le> bsize bo pos then asDouble bo pos 2 else JOINTS_SPEED)
            (\<lambda>pos speed. gaze_setAllJointsPose obs (asInt bo pos 1) (asInt bo pos 0) speed)
        else if mode = ''cam'' then
          move 3 (\<lambda>pos. if 3 \<le> bsize bo pos then asDouble bo pos 3 else JOINTS_SPEED)
            (\<lambda>pos speed g'. case cam_target g' (asDouble bo pos 0) (asDouble bo pos 1) (asDouble bo pos 2) of
               (x, y, z) \<Rightarrow> gaze_setCartPose atan2 obs x y z speed g')
        else if mode = ''cart'' then
          move 3 (\<lambda>pos. if 4 \<le> bsize bo pos then asDouble bo pos 3 else JOINTS_SPEED)
            (\<lambda>pos speed. gaze_setCartPose atan2 obs (asDouble bo pos 0) (asDouble bo pos 1) (asDouble bo pos 2) speed)
        else Some (GNack, True, g))"

text \<open>\<^verbatim>\<open>configure\<close>, once the device is open, and \<^verbatim>\<open>close\<close>.\<close>

definition gaze_configure :: "bool \<Rightarrow> bool \<Rightarrow> gaze \<Rightarrow> gaze" where
  "gaze_configure w1 w2 g =
    (let g1 = snd (gaze_setJointPose w1 0 JOINT1_REST g);
         g2 = snd (gaze_setJointPose w2 1 JOINT2_REST g1)
     in g2\<lparr>pos_1 := JOINT1_REST, pos_2 := JOINT2_REST\<rparr>)"

definition gaze_close :: "(bool \<times> bool \<times> bool) list \<Rightarrow> gaze \<Rightarrow> gaze option" where
  "gaze_close obs g = map_option snd (gaze_setAllJointsPose obs JOINT1_REST JOINT2_REST JOINTS_SPEED g)"

section \<open>Motions\<close>

definition in_limits :: "gaze \<Rightarrow> bool" where
  "in_limits g \<longleftrightarrow> 10 \<le> pos_1 g \<and> pos_1 g \<le> 155 \<and> 10 \<le> pos_2 g \<and> pos_2 g \<le> 180"

fun line_ok :: "gaze_event \<Rightarrow> bool" where
  "line_ok (ServoLine joint w) \<longleftrightarrow> 65 \<le> w \<and> (joint = 0 \<and> w \<le> 210 \<or> joint = 1 \<and> w \<le> 235)"
| "line_ok (Pause d) \<longleftrightarrow> 5000 \<le> d"

lemma limit_range: "lo \<le> hi \<Longrightarrow> lo \<le> limit lo hi p \<and> limit lo hi p \<le> hi"
  by (simp add: limit_def Let_def)

lemma limit_id [simp]: "lo \<le> p \<Longrightarrow> p \<le> hi \<Longrightarrow> limit lo hi p = p"
  by (simp add: limit_def)

lemma step_delay_min: "5000 \<le> step_delay speed diff"
  by (simp add: step_delay_def Let_def)

definition gaze_ok :: "gaze \<Rightarrow> bool" where
  "gaze_ok g \<longleftrightarrow> in_limits g \<and> (\<forall>e\<in>set (gaze_io g). line_ok e)"

lemma setJointPose_safe: "gaze_ok g \<Longrightarrow> joint \<in> {0, 1} \<Longrightarrow> gaze_ok (snd (gaze_setJointPose w joint p g))"
  using limit_range [of 10 155 p] limit_range [of 10 180 p]
  by (auto simp: gaze_ok_def gaze_setJointPose_def in_limits_def Let_def signed_divide_int_def)

lemma gaze_round_safe: "gaze_ok g \<Longrightarrow> gaze_ok (snd (gaze_round p1 p2 s1 s2 w1 w2 g))"
  by (simp add: gaze_round_def Let_def split_beta setJointPose_safe)

lemma gaze_loop_safe:
  "gaze_ok g \<Longrightarrow> 5000 \<le> d \<Longrightarrow> gaze_loop p1 p2 s1 s2 d obs set1 set2 g = Some (r, g') \<Longrightarrow> gaze_ok g'"
proof (induction obs arbitrary: set1 set2 g)
  case (Cons ob obs)
  obtain stop w1 w2 where ob: "ob = (stop, w1, w2)"
    using prod_cases3 by blast
  obtain ret g1 where rd: "gaze_round p1 p2 s1 s2 w1 w2 g = (ret, g1)"
    by fastforce
  then have ok: "gaze_ok g1"
    using gaze_round_safe [OF Cons.prems(1), of p1 p2 s1 s2 w1 w2] by simp
  then have "gaze_ok (g1\<lparr>gaze_io := gaze_io g1 @ [Pause d]\<rparr>)"
    using Cons.prems(2) by (auto simp: gaze_ok_def in_limits_def)
  then show ?case
    using Cons.IH [of "g1\<lparr>gaze_io := gaze_io g1 @ [Pause d]\<rparr>"] Cons.prems ok by (auto simp: ob rd split: if_splits)
qed (auto split: if_splits)

text \<open>One step towards a target inside the limits.\<close>

definition toward :: "int \<Rightarrow> int \<Rightarrow> int \<Rightarrow> bool" where
  "toward p s q \<longleftrightarrow> (q < p \<longrightarrow> s = 1) \<and> (p < q \<longrightarrow> s = - 1)"

lemma gaze_round_step:
  assumes "in_limits g" "toward p1 s1 (pos_1 g)" "toward p2 s2 (pos_2 g)" "10 \<le> p1" "p1 \<le> 155" "10 \<le> p2" "p2 \<le> 180"
  shows "\<exists>g'. gaze_round p1 p2 s1 s2 True True g = (True, g')
    \<and> pos_1 g' = (if p1 = pos_1 g then p1 else pos_1 g + s1) \<and> pos_2 g' = (if p2 = pos_2 g then p2 else pos_2 g + s2)"
  using assms by (auto simp: gaze_round_def gaze_setJointPose_def toward_def in_limits_def Let_def)

lemma toward_step:
  assumes "toward p s q" "q' = (if p = q then p else q + s)" "lo \<le> q" "q \<le> hi" "lo \<le> p" "p \<le> hi"
  shows "toward p s q'" "lo \<le> q'" "q' \<le> hi" "p = q \<longrightarrow> p = q'" "p \<noteq> q \<Longrightarrow> \<bar>p - q'\<bar> = \<bar>p - q\<bar> - 1"
  using assms by (auto simp: toward_def split: if_splits)

lemma gaze_loop_reaches:
  assumes "in_limits g" "toward p1 s1 (pos_1 g)" "toward p2 s2 (pos_2 g)" "10 \<le> p1" "p1 \<le> 155" "10 \<le> p2" "p2 \<le> 180"
    "set1 \<longrightarrow> p1 = pos_1 g" "set2 \<longrightarrow> p2 = pos_2 g"
    "\<bar>p1 - pos_1 g\<bar> < int n" "\<bar>p2 - pos_2 g\<bar> < int n"
  shows "\<exists>g'. gaze_loop p1 p2 s1 s2 d (replicate n (False, True, True) @ obs) set1 set2 g = Some (True, g')
    \<and> pos_1 g' = p1 \<and> pos_2 g' = p2"
  using assms
proof (induction n arbitrary: g set1 set2)
  case (Suc n)
  obtain g1 where rd: "gaze_round p1 p2 s1 s2 True True g = (True, g1)"
      and q: "pos_1 g1 = (if p1 = pos_1 g then p1 else pos_1 g + s1)" "pos_2 g1 = (if p2 = pos_2 g then p2 else pos_2 g + s2)"
    using gaze_round_step [OF Suc.prems(1-7)] by blast
  define g2 where "g2 = g1\<lparr>gaze_io := gaze_io g1 @ [Pause d]\<rparr>"
  have lim: "10 \<le> pos_1 g" "pos_1 g \<le> 155" "10 \<le> pos_2 g" "pos_2 g \<le> 180"
    using Suc.prems(1) by (auto simp: in_limits_def)
  note st1 = toward_step [OF Suc.prems(2) q(1) lim(1,2) Suc.prems(4,5)]
  note st2 = toward_step [OF Suc.prems(3) q(2) lim(3,4) Suc.prems(6,7)]
  have rec: "gaze_loop p1 p2 s1 s2 d (replicate (Suc n) (False, True, True) @ obs) set1 set2 g =
      (if set1 \<and> set2 then Some (True, g)
       else gaze_loop p1 p2 s1 s2 d (replicate n (False, True, True) @ obs) (set1 \<or> p1 = pos_1 g) (set2 \<or> p2 = pos_2 g) g2)"
    by (simp add: rd g2_def)
  show ?case
  proof (cases "p1 = pos_1 g \<and> p2 = pos_2 g")
    case True
    then show ?thesis
      using rec q by (cases "replicate n (False, True, True) @ obs") (auto simp: g2_def)
  next
    case False
    have "\<exists>g'. gaze_loop p1 p2 s1 s2 d (replicate n (False, True, True) @ obs) (set1 \<or> p1 = pos_1 g) (set2 \<or> p2 = pos_2 g) g2
        = Some (True, g') \<and> pos_1 g' = p1 \<and> pos_2 g' = p2"
    proof (rule Suc.IH)
      show "in_limits g2" "toward p1 s1 (pos_1 g2)" "toward p2 s2 (pos_2 g2)"
        using st1 st2 by (simp_all add: g2_def in_limits_def)
      show "set1 \<or> p1 = pos_1 g \<longrightarrow> p1 = pos_1 g2" "set2 \<or> p2 = pos_2 g \<longrightarrow> p2 = pos_2 g2"
        using st1(4) st2(4) Suc.prems(8,9) by (auto simp: g2_def)
      show "\<bar>p1 - pos_1 g2\<bar> < int n" "\<bar>p2 - pos_2 g2\<bar> < int n"
        using st1(4,5) st2(4,5) Suc.prems(10,11) False by (cases "p1 = pos_1 g"; cases "p2 = pos_2 g"; simp add: g2_def)+
    qed (use Suc.prems(4-7) in simp_all)
    moreover have "\<not> (set1 \<and> set2)"
      using False Suc.prems(8,9) by blast
    ultimately show ?thesis
      unfolding rec by auto
  qed
qed simp

text \<open>A motion that is not interrupted, and one that is: it ends in any case.\<close>

lemma limited_toward: "toward (limit lo hi p) (if q < limit lo hi p then 1 else - 1) q"
  by (simp add: toward_def)

lemma gaze_motion_reaches:
  assumes "in_limits g" "171 \<le> n"
  shows "\<exists>g'. gaze_setAllJointsPose (replicate n (False, True, True) @ obs) pos1 pos2 speed g = Some (True, g')
    \<and> pos_1 g' = limit 10 155 pos1 \<and> pos_2 g' = limit 10 180 pos2"
  unfolding gaze_setAllJointsPose_def Let_def
  using assms limit_range [of 10 155 pos1] limit_range [of 10 180 pos2]
  by (intro gaze_loop_reaches) (auto simp: limited_toward in_limits_def)

lemma gaze_motion_safe:
  assumes "gaze_ok g" "gaze_setAllJointsPose obs pos1 pos2 speed g = Some (r, g')"
  shows "gaze_ok g'"
  using assms by (auto simp: gaze_setAllJointsPose_def Let_def intro: gaze_loop_safe [OF _ step_delay_min])

section \<open>The kinematics\<close>

text \<open>What the C library promises of \<^verbatim>\<open>atan2\<close>: the angle of the vector.\<close>

definition is_atan2 :: "atan2_fun \<Rightarrow> bool" where
  "is_atan2 f \<longleftrightarrow> (\<forall>y x. sqrt (x * x + y * y) * cos (f y x) = x \<and> sqrt (x * x + y * y) * sin (f y x) = y)"

lemma is_atan2_Arg: "is_atan2 (\<lambda>y x. Arg (Complex x y))"
proof -
  have "sqrt (x * x + y * y) * cos (Arg (Complex x y)) = x \<and> sqrt (x * x + y * y) * sin (Arg (Complex x y)) = y" for x y
    using rcis_cmod_Arg [of "Complex x y"] by (simp add: rcis_def cis.ctr complex_eq_iff cmod_def power2_eq_square)
  then show ?thesis
    by (simp add: is_atan2_def)
qed

text \<open>An angle less the angle of a right triangle with the given leg and the same hypotenuse.\<close>

lemma atan2_difference:
  assumes "is_atan2 f" "l * l + s * s = x * x + y * y"
  defines "j \<equiv> f y x - f l s"
  shows "y * cos j - x * sin j = l" "x * cos j + y * sin j = s"
proof -
  define r where "r = sqrt (x * x + y * y)"
  have xy: "x = r * cos (f y x)" "y = r * sin (f y x)"
    using assms(1) by (simp_all add: is_atan2_def r_def)
  have "r = sqrt (s * s + l * l)"
    using assms(2) by (simp add: r_def add.commute)
  then have ls: "s = r * cos (f l s)" "l = r * sin (f l s)"
    using assms(1) by (simp_all add: is_atan2_def)
  have "y * cos j - x * sin j = r * sin (f y x - j)"
    by (subst xy(1), subst xy(2)) (simp add: sin_diff algebra_simps)
  then show "y * cos j - x * sin j = l"
    using ls(2) by (simp add: j_def)
  have "x * cos j + y * sin j = r * cos (f y x - j)"
    by (subst xy(1), subst xy(2)) (simp add: cos_diff algebra_simps)
  then show "x * cos j + y * sin j = s"
    using ls(1) by (simp add: j_def)
qed

lemma fmod_multiple: "\<exists>k::int. fmod x (2 * pi) = x - 2 * pi * of_int k"
  unfolding fmod_def by blast

lemma trunc_close: "\<bar>t - of_int (trunc t)\<bar> \<le> 1"
  unfolding trunc_def by (split if_split, intro conjI impI) linarith+

lemma fmod_bound: "\<bar>fmod x (2 * pi)\<bar> \<le> 2 * pi"
proof -
  have "\<bar>x / (2 * pi) - of_int (trunc (x / (2 * pi)))\<bar> \<le> 1"
    by (rule trunc_close)
  then have "\<bar>2 * pi * (x / (2 * pi) - of_int (trunc (x / (2 * pi))))\<bar> \<le> 2 * pi"
    by (simp add: abs_mult)
  then show ?thesis
    by (simp add: fmod_def right_diff_distrib)
qed

lemma angle_normalised:
  "\<exists>k::int. wrap_angle (fmod x (2 * pi)) = x - 2 * pi * of_int k" "\<bar>wrap_angle (fmod x (2 * pi))\<bar> \<le> pi"
proof -
  obtain k :: int where k: "fmod x (2 * pi) = x - 2 * pi * of_int k"
    using fmod_multiple by blast
  have "fmod x (2 * pi) - 2 * pi = x - 2 * pi * of_int (k + 1)" "fmod x (2 * pi) + 2 * pi = x - 2 * pi * of_int (k - 1)"
    using k by (simp_all add: algebra_simps)
  moreover have "wrap_angle v = v \<or> wrap_angle v = v - 2 * pi \<or> wrap_angle v = v + 2 * pi" for v
    using pi_gt_zero by (simp add: wrap_angle_def Let_def)
  ultimately show "\<exists>k::int. wrap_angle (fmod x (2 * pi)) = x - 2 * pi * of_int k"
    using k by metis
  show "\<bar>wrap_angle (fmod x (2 * pi))\<bar> \<le> pi"
    using fmod_bound [of x] pi_gt_zero by (auto simp: wrap_angle_def Let_def)
qed

lemma angle_same [simp]:
  "cos (wrap_angle (fmod x (2 * pi))) = cos x" "sin (wrap_angle (fmod x (2 * pi))) = sin x"
proof -
  obtain k :: int where "wrap_angle (fmod x (2 * pi)) = x - 2 * pi * of_int k"
    using angle_normalised(1) by blast
  then show "cos (wrap_angle (fmod x (2 * pi))) = cos x" "sin (wrap_angle (fmod x (2 * pi))) = sin x"
    by (simp_all add: cos_diff sin_diff)
qed

lemma forward_kinematics_angles:
  "forward_kinematics (wrap_angle (fmod t1 (2 * pi))) (wrap_angle (fmod t2 (2 * pi))) x3 y3 d3 = forward_kinematics t1 t2 x3 y3 d3"
  by (simp add: forward_kinematics_def)

text \<open>The two equations of the neck and the two of the head determine the point.\<close>

lemma forward_kinematics_solution:
  assumes neck: "y * cos j1 - x * sin j1 = 0.03" "x * cos j1 + y * sin j1 = A"
    and head: "(z - 0.045) * cos j2 + A * sin j2 = 0.01" "A * cos j2 - (z - 0.045) * sin j2 = D"
  shows "forward_kinematics j1 j2 0 0 D = (x, y, z)"
proof -
  have c1: "cos j1 * cos j1 + sin j1 * sin j1 = 1" and c2: "cos j2 * cos j2 + sin j2 * sin j2 = 1"
    by (simp_all add: cos_squared_eq [unfolded power2_eq_square] power2_eq_square)
  have A: "D * cos j2 + 0.01 * sin j2 = A * (cos j2 * cos j2 + sin j2 * sin j2)"
    unfolding head [symmetric] by (simp add: algebra_simps del: sin_cos_squared_add3)
  have B: "0.01 * cos j2 - D * sin j2 = (z - 0.045) * (cos j2 * cos j2 + sin j2 * sin j2)"
    unfolding head [symmetric] by (simp add: algebra_simps del: sin_cos_squared_add3)
  have X: "A * cos j1 - 0.03 * sin j1 = x * (cos j1 * cos j1 + sin j1 * sin j1)"
    unfolding neck [symmetric] by (simp add: algebra_simps del: sin_cos_squared_add3)
  have Y: "0.03 * cos j1 + A * sin j1 = y * (cos j1 * cos j1 + sin j1 * sin j1)"
    unfolding neck [symmetric] by (simp add: algebra_simps del: sin_cos_squared_add3)
  have "D * cos j1 * cos j2 - 0.03 * sin j1 + 0.01 * cos j1 * sin j2 = (D * cos j2 + 0.01 * sin j2) * cos j1 - 0.03 * sin j1"
    by (simp add: algebra_simps)
  moreover have "0.03 * cos j1 + D * cos j2 * sin j1 + 0.01 * sin j1 * sin j2 = 0.03 * cos j1 + (D * cos j2 + 0.01 * sin j2) * sin j1"
    by (simp add: algebra_simps)
  moreover have "0.045 + 0.01 * cos j2 - D * sin j2 = 0.045 + (0.01 * cos j2 - D * sin j2)"
    by simp
  ultimately show ?thesis
    unfolding forward_kinematics_def using A B X Y c1 c2 by simp
qed

lemma neck_equations:
  assumes "is_atan2 f" "0.03 * 0.03 \<le> x * x + y * y"
  shows "y * cos (neck_1 f x y) - x * sin (neck_1 f x y) = 0.03"
    "reach x y (neck_1 f x y) = sqrt (x * x + y * y - 0.03 * 0.03)"
    "y * cos (neck_2 f x y) - x * sin (neck_2 f x y) = 0.03"
    "reach x y (neck_2 f x y) = - sqrt (x * x + y * y - 0.03 * 0.03)"
proof -
  let ?s = "sqrt (x * x + y * y - 0.03 * 0.03)"
  have s: "0.03 * 0.03 + ?s * ?s = x * x + y * y" "0.03 * 0.03 + (- ?s) * (- ?s) = x * x + y * y"
    using assms(2) by simp_all
  show "y * cos (neck_1 f x y) - x * sin (neck_1 f x y) = 0.03" "reach x y (neck_1 f x y) = ?s"
    unfolding neck_1_def reach_def using atan2_difference [OF assms(1) s(1)] by simp_all
  show "y * cos (neck_2 f x y) - x * sin (neck_2 f x y) = 0.03" "reach x y (neck_2 f x y) = - ?s"
    unfolding neck_2_def reach_def using atan2_difference [OF assms(1) s(2)] by simp_all
qed

lemma head_equations:
  assumes "is_atan2 f" "0.01 * 0.01 \<le> (z - 0.045) * (z - 0.045) + A * A"
  defines "D \<equiv> sqrt ((z - 0.045) * (z - 0.045) + A * A - 0.01 * 0.01)"
  shows "\<not> 0 < depth A z (head_plus f A z)"
    "(z - 0.045) * cos (head_minus f A z) + A * sin (head_minus f A z) = 0.01"
    "A * cos (head_minus f A z) - (z - 0.045) * sin (head_minus f A z) = D"
proof -
  have D: "0.01 * 0.01 + D * D = (- A) * (- A) + (z - 0.045) * (z - 0.045)"
      "0.01 * 0.01 + (- D) * (- D) = (- A) * (- A) + (z - 0.045) * (z - 0.045)" "0 \<le> D"
    using assms(2) by (simp_all add: D_def)
  have "head_minus f A z = f (z - 0.045) (- A) - f 0.01 (- D)" "head_plus f A z = f (z - 0.045) (- A) - f 0.01 D"
    by (simp_all add: head_minus_def head_plus_def D_def)
  then show "(z - 0.045) * cos (head_minus f A z) + A * sin (head_minus f A z) = 0.01"
      "A * cos (head_minus f A z) - (z - 0.045) * sin (head_minus f A z) = D"
      "\<not> 0 < depth A z (head_plus f A z)"
    using atan2_difference [OF assms(1) D(2)] atan2_difference [OF assms(1) D(1)] D(3)
    by (simp_all add: depth_def left_diff_distrib)
qed

lemma cart_sols:
  assumes "is_atan2 f" "0.03 * 0.03 \<le> x * x + y * y"
    "0.01 * 0.01 \<le> (z - 0.045) * (z - 0.045) + (x * x + y * y - 0.03 * 0.03)"
    "s \<in> {cart_sol1 f x y z, cart_sol2 f x y z}"
  shows "forward_kinematics (fst s) (snd s) 0 0 (sqrt ((z - 0.045) * (z - 0.045) + (x * x + y * y - 0.03 * 0.03) - 0.01 * 0.01)) = (x, y, z)
    \<and> \<bar>fst s\<bar> \<le> pi \<and> \<bar>snd s\<bar> \<le> pi"
proof -
  let ?s = "sqrt (x * x + y * y - 0.03 * 0.03)"
  have ss: "?s * ?s = x * x + y * y - 0.03 * 0.03" "(- ?s) * (- ?s) = x * x + y * y - 0.03 * 0.03"
    using assms(2) by simp_all
  note neck = neck_equations [OF assms(1,2)]
  have head1: "0.01 * 0.01 \<le> (z - 0.045) * (z - 0.045) + ?s * ?s"
      and head2: "0.01 * 0.01 \<le> (z - 0.045) * (z - 0.045) + (- ?s) * (- ?s)"
    unfolding ss using assms(3) by simp_all
  note h1 = head_equations [OF assms(1) head1] and h2 = head_equations [OF assms(1) head2]
  have sol1: "cart_sol1 f x y z = (wrap_angle (fmod (neck_1 f x y) (2 * pi)), wrap_angle (fmod (head_minus f ?s z) (2 * pi)))"
    unfolding cart_sol1_def Let_def neck(2) using h1(1) by simp
  have sol2: "cart_sol2 f x y z = (wrap_angle (fmod (neck_2 f x y) (2 * pi)), wrap_angle (fmod (head_minus f (- ?s) z) (2 * pi)))"
    unfolding cart_sol2_def Let_def neck(4) using h2(1) by simp
  have "forward_kinematics (neck_1 f x y) (head_minus f ?s z) 0 0
      (sqrt ((z - 0.045) * (z - 0.045) + ?s * ?s - 0.01 * 0.01)) = (x, y, z)"
    using neck(1,2) h1(2,3) by (intro forward_kinematics_solution [where A = ?s]) (simp_all add: reach_def)
  moreover have "forward_kinematics (neck_2 f x y) (head_minus f (- ?s) z) 0 0
      (sqrt ((z - 0.045) * (z - 0.045) + (- ?s) * (- ?s) - 0.01 * 0.01)) = (x, y, z)"
    using neck(3,4) h2(2,3) by (intro forward_kinematics_solution [where A = "- ?s"]) (simp_all add: reach_def)
  ultimately show ?thesis
    using assms(4) unfolding ss sol1 sol2 by (auto simp: forward_kinematics_angles angle_normalised(2))
qed

lemma gaze_ok_speed [simp]: "gaze_ok (g\<lparr>gaze_speed := v\<rparr>) = gaze_ok g"
  by (simp add: gaze_ok_def in_limits_def)

lemma setCartPose_safe: "gaze_ok g \<Longrightarrow> gaze_setCartPose f obs x y z v g = Some (r, g') \<Longrightarrow> gaze_ok g'"
  unfolding gaze_setCartPose_def Let_def by (rule gaze_motion_safe)

lemma joint_motion_safe:
  "gaze_ok g \<Longrightarrow> gaze_setAllJointsPose obs pos1 pos2 v (g\<lparr>gaze_speed := u\<rparr>) = Some (r, g') \<Longrightarrow> gaze_ok g'"
  by (rule gaze_motion_safe [of "g\<lparr>gaze_speed := u\<rparr>", unfolded gaze_ok_speed])

lemma cart_motion_safe:
  "gaze_ok g \<Longrightarrow> gaze_setCartPose f obs x y z v (g\<lparr>gaze_speed := u\<rparr>) = Some (r, g') \<Longrightarrow> gaze_ok g'"
  by (rule setCartPose_safe [of "g\<lparr>gaze_speed := u\<rparr>", unfolded gaze_ok_speed])

section \<open>Properties\<close>

definition gaze_rest :: gaze where
  "gaze_rest = gaze_configure True True \<lparr>pos_1 = 10, pos_2 = 10, gaze_speed = 0, gaze_io = []\<rparr>"

lemma gaze_rest_ok: "gaze_ok gaze_rest" "in_limits gaze_rest"
  by (simp_all add: gaze_rest_def gaze_configure_def gaze_ok_def in_limits_def gaze_setJointPose_def Let_def
      signed_divide_int_def)

text \<open>
  C4.  Looking at a point.  With the C library's \<^verbatim>\<open>atan2\<close>, for every point the neck and the head can be
  turned to, \<^verbatim>\<open>setCartPose\<close>, when no other command comes and the writes succeed, ends with the joints at
  the whole degrees, inside the limits, of an angle pair for which the forward kinematics used by the
  camera mode gives back exactly that point, at a positive or zero depth; both angles are between
  minus and plus pi.  171 rounds are always enough.
\<close>

theorem gaze_looks_at_point:
  assumes "is_atan2 f" "0.03 * 0.03 \<le> x * x + y * y"
    "0.01 * 0.01 \<le> (z - 0.045) * (z - 0.045) + (x * x + y * y - 0.03 * 0.03)"
    "in_limits g" "171 \<le> n"
  shows "\<exists>g' t1 t2 D. gaze_setCartPose f (replicate n (False, True, True)) x y z speed g = Some (True, g')
    \<and> pos_1 g' = limit 10 155 (trunc (t2 * (180 / pi) + 100)) \<and> pos_2 g' = limit 10 180 (trunc (t1 * (180 / pi) + 105))
    \<and> forward_kinematics t1 t2 0 0 D = (x, y, z) \<and> 0 \<le> D \<and> \<bar>t1\<bar> \<le> pi \<and> \<bar>t2\<bar> \<le> pi"
proof -
  define D where "D = sqrt ((z - 0.045) * (z - 0.045) + (x * x + y * y - 0.03 * 0.03) - 0.01 * 0.01)"
  define s where "s = (if effort (to_degrees (cart_sol1 f x y z)) < effort (to_degrees (cart_sol2 f x y z))
    then cart_sol1 f x y z else cart_sol2 f x y z)"
  have "s \<in> {cart_sol1 f x y z, cart_sol2 f x y z}"
    by (simp add: s_def)
  note fk = cart_sols [OF assms(1-3) this, folded D_def]
  have D: "0 \<le> D"
    unfolding D_def using assms(3) by (intro real_sqrt_ge_zero) linarith
  have run: "gaze_setCartPose f (replicate n (False, True, True)) x y z speed g =
      gaze_setAllJointsPose (replicate n (False, True, True)) (trunc (snd (to_degrees s) + of_int 100))
        (trunc (fst (to_degrees s) + of_int 105)) speed g"
    unfolding gaze_setCartPose_def Let_def s_def by (simp only: if_distrib [of to_degrees])
  have deg: "snd (to_degrees s) + of_int 100 = snd s * (180 / pi) + 100" "fst (to_degrees s) + of_int 105 = fst s * (180 / pi) + 105"
    by (simp_all add: to_degrees_def)
  obtain g' where "gaze_setCartPose f (replicate n (False, True, True)) x y z speed g = Some (True, g')"
      "pos_1 g' = limit 10 155 (trunc (snd s * (180 / pi) + 100))"
      "pos_2 g' = limit 10 180 (trunc (fst s * (180 / pi) + 105))"
    using gaze_motion_reaches [OF assms(4,5), of "[]"] unfolding run deg append_Nil2 by metis
  then show ?thesis
    using fk D by blast
qed

theorem gaze_looks_at_point_witness:
  "\<exists>g' t1 t2 D. gaze_setCartPose (\<lambda>y x. Arg (Complex x y)) (replicate 171 (False, True, True)) 0.5 0.1 0.2 0.2 gaze_rest = Some (True, g')
    \<and> pos_2 g' = limit 10 180 (trunc (t1 * (180 / pi) + 105)) \<and> forward_kinematics t1 t2 0 0 D = (0.5, 0.1, 0.2)"
  using gaze_looks_at_point [OF is_atan2_Arg, of "0.5" "0.1" "0.2" gaze_rest 171 "0.2"] gaze_rest_ok by auto

text \<open>
  C26.  Safety of the head: whatever the command, the timing of later commands and the results of the
  writes, the two joints stay inside their limits, every line to the servo device is for joint 0 with
  a pulse from 65 to 210 or for joint 1 with one from 65 to 235, and each step is followed by a pause
  of at least 5 ms.
\<close>

theorem gaze_commands_in_range:
  assumes "in_limits g" "\<forall>e\<in>set (gaze_io g). line_ok e" "gaze_updateModule bo f obs cmd g = Some (reply, continues, g')"
  shows "in_limits g' \<and> (\<forall>e\<in>set (gaze_io g'). line_ok e)"
proof -
  have ok: "gaze_ok g"
    using assms(1,2) by (simp add: gaze_ok_def)
  have "gaze_ok g'"
    using assms(3) ok
    by (auto simp: gaze_updateModule_def Let_def split: if_splits option.splits prod.splits
        dest: joint_motion_safe [OF ok] cart_motion_safe [OF ok])
  then show ?thesis
    by (simp add: gaze_ok_def)
qed

text \<open>A bottle for the witnesses: the command "joint" with a list of the two positions 40 and 70.\<close>

definition joint_bottle :: "nat bottle_ops" where
  "joint_bottle = \<lparr>bsize = (\<lambda>_. 2), asString = (\<lambda>_ _. ''joint''), asList = (\<lambda>_ _. Some 1),
     asInt = (\<lambda>_ i. if i = 0 then 40 else 70), asDouble = (\<lambda>_ _. 0)\<rparr>"

theorem gaze_commands_in_range_witness:
  "\<exists>r c g'. gaze_updateModule joint_bottle (\<lambda>_ _. 0) [(False, True, True), (True, True, True)] 0 gaze_rest = Some (r, c, g')
    \<and> in_limits g' \<and> pos_1 g' = 99"
proof -
  have start: "pos_1 gaze_rest = 100" "pos_2 gaze_rest = 105"
    by (simp_all add: gaze_rest_def gaze_configure_def)
  then obtain g' where g': "gaze_updateModule joint_bottle (\<lambda>_ _. 0) [(False, True, True), (True, True, True)] 0 gaze_rest
      = Some (GAck, True, g')" "pos_1 g' = 99"
    by (auto simp: gaze_updateModule_def joint_bottle_def gaze_setAllJointsPose_def gaze_round_def gaze_setJointPose_def Let_def)
  moreover have "in_limits g'"
    using gaze_commands_in_range [OF _ _ g'(1)] gaze_rest_ok by (simp add: gaze_ok_def)
  ultimately show ?thesis
    by auto
qed

text \<open>
  The joint command: when no other command comes and the writes succeed, a list of at least two
  positions is acknowledged and both joints end exactly at the requested positions, brought into
  their limits; the first element is for the second joint.
\<close>

theorem gaze_joint_command:
  assumes "asString bo cmd 0 = ''joint''" "asList bo cmd 1 = Some pos" "2 \<le> bsize bo pos" "in_limits g" "171 \<le> n"
  shows "\<exists>g'. gaze_updateModule bo f (replicate n (False, True, True)) cmd g = Some (GAck, True, g')
    \<and> pos_1 g' = limit 10 155 (asInt bo pos 1) \<and> pos_2 g' = limit 10 180 (asInt bo pos 0)"
proof -
  define v where "v = (if 3 \<le> bsize bo pos then asDouble bo pos 2 else 0.2)"
  have lim: "in_limits (g\<lparr>gaze_speed := v\<rparr>)"
    using assms(4) by (simp add: in_limits_def)
  obtain g' where "gaze_setAllJointsPose (replicate n (False, True, True)) (asInt bo pos 1) (asInt bo pos 0) v (g\<lparr>gaze_speed := v\<rparr>)
      = Some (True, g')" "pos_1 g' = limit 10 155 (asInt bo pos 1)" "pos_2 g' = limit 10 180 (asInt bo pos 0)"
    using gaze_motion_reaches [OF lim assms(5), of "[]" "asInt bo pos 1" "asInt bo pos 0" v] by auto
  then show ?thesis
    using assms(1-3) by (simp add: gaze_updateModule_def v_def [symmetric])
qed

theorem gaze_joint_command_witness:
  "\<exists>g'. gaze_updateModule joint_bottle (\<lambda>_ _. 0) (replicate 171 (False, True, True)) 0 gaze_rest = Some (GAck, True, g')
    \<and> pos_1 g' = 70 \<and> pos_2 g' = 40"
  using gaze_joint_command [of joint_bottle 0 1 gaze_rest 171] gaze_rest_ok by (simp add: joint_bottle_def)

end
