(* ===== verification/Funk_Heap.thy ===== *)
theory Funk_Heap
  imports MyCub_Prelude
begin

text \<open>
  The fixed-block heap of the FunkOS kernel (\<^verbatim>\<open>funkos/kernel/heap.c\<close>): a table of blocks in five sizes over
  one pool of bytes.  A pointer into the pool is its index.  Each test-and-set of a block is a critical
  section of the code, so an allocation or a release is one step of the model.
\<close>

section \<open>The heap\<close>

record HEAP_BLOCK_STRUCT =
  usSize :: u16
  usOffset :: u16
  bInUse :: bool

record HEAP_STRUCT =
  astHeapElements :: "HEAP_BLOCK_STRUCT list"
  aucPool :: "u8 list"

abbreviation (input) HEAP_NUM_ELEMENTS :: nat where "HEAP_NUM_ELEMENTS \<equiv> 23"
abbreviation (input) HEAP_SIZE_BYTES :: nat where "HEAP_SIZE_BYTES \<equiv> 344"

text \<open>The number of blocks and the block size of each group.\<close>

definition astHeapInit :: "(nat \<times> u16) list" where
  "astHeapInit = [(10, 8), (6, 12), (4, 16), (2, 32), (1, 64)]"

fun heap_group :: "nat \<Rightarrow> u16 \<Rightarrow> u16 \<Rightarrow> HEAP_BLOCK_STRUCT list \<times> u16" where
  "heap_group 0 sz offset = ([], offset)"
| "heap_group (Suc n) sz offset =
    (let (bs, offset') = heap_group n sz (offset + sz)
     in (\<lparr>usSize = sz, usOffset = offset, bInUse = False\<rparr> # bs, offset'))"

fun heap_groups :: "(nat \<times> u16) list \<Rightarrow> u16 \<Rightarrow> HEAP_BLOCK_STRUCT list" where
  "heap_groups [] offset = []"
| "heap_groups ((n, sz) # gs) offset =
    (let (bs, offset') = heap_group n sz offset in bs @ heap_groups gs offset')"

definition Heap_Init :: HEAP_STRUCT where
  "Heap_Init = \<lparr>astHeapElements = heap_groups astHeapInit 0, aucPool = replicate HEAP_SIZE_BYTES 0\<rparr>"

text \<open>The search of \<^verbatim>\<open>Heap_Alloc\<close>: the first free block that is larger than the request.\<close>

fun heap_take :: "u16 \<Rightarrow> HEAP_BLOCK_STRUCT list \<Rightarrow> nat option \<times> HEAP_BLOCK_STRUCT list" where
  "heap_take sz [] = (None, [])"
| "heap_take sz (b # bs) =
    (if sz < usSize b \<and> \<not> bInUse b then (Some (unat (usOffset b)), b\<lparr>bInUse := True\<rparr> # bs)
     else let (r, bs') = heap_take sz bs in (r, b # bs'))"

definition Heap_Alloc :: "u16 \<Rightarrow> HEAP_STRUCT \<Rightarrow> nat option \<times> HEAP_STRUCT" where
  "Heap_Alloc sz h =
    (let (r, bs) = heap_take sz (astHeapElements h) in (r, h\<lparr>astHeapElements := bs\<rparr>))"

text \<open>The search of \<^verbatim>\<open>Heap_Free\<close>: the first allocated block at the address.\<close>

fun heap_release :: "nat \<Rightarrow> HEAP_BLOCK_STRUCT list \<Rightarrow> HEAP_BLOCK_STRUCT list" where
  "heap_release p [] = []"
| "heap_release p (b # bs) =
    (if bInUse b \<and> unat (usOffset b) = p then b\<lparr>bInUse := False\<rparr> # bs else b # heap_release p bs)"

definition Heap_Free :: "nat \<Rightarrow> HEAP_STRUCT \<Rightarrow> HEAP_STRUCT" where
  "Heap_Free p h = h\<lparr>astHeapElements := heap_release p (astHeapElements h)\<rparr>"

text \<open>The heaps that allocations and releases, with any arguments, lead to.\<close>

inductive heap_reachable :: "HEAP_STRUCT \<Rightarrow> bool" where
  init: "heap_reachable Heap_Init"
| alloc: "heap_reachable h \<Longrightarrow> heap_reachable (snd (Heap_Alloc sz h))"
| free: "heap_reachable h \<Longrightarrow> heap_reachable (Heap_Free p h)"

section \<open>The layout never changes\<close>

definition block_layout :: "HEAP_BLOCK_STRUCT \<Rightarrow> nat \<times> nat" where
  "block_layout b = (unat (usOffset b), unat (usSize b))"

definition heap_layout :: "(nat \<times> nat) list" where
  "heap_layout = map (\<lambda>i. (8 * i, 8)) [0..<10] @ map (\<lambda>i. (80 + 12 * i, 12)) [0..<6]
     @ map (\<lambda>i. (152 + 16 * i, 16)) [0..<4] @ map (\<lambda>i. (216 + 32 * i, 32)) [0..<2] @ [(280, 64)]"

definition heap_ok :: "HEAP_STRUCT \<Rightarrow> bool" where
  "heap_ok h \<longleftrightarrow> map block_layout (astHeapElements h) = heap_layout \<and> length (aucPool h) = HEAP_SIZE_BYTES"

lemma block_layout_flag [simp]: "block_layout (b\<lparr>bInUse := u\<rparr>) = block_layout b"
  by (simp add: block_layout_def)

lemma heap_take_layout: "map block_layout (snd (heap_take sz bs)) = map block_layout bs"
  by (induction bs) (auto simp: split_beta)

lemma heap_release_layout: "map block_layout (heap_release p bs) = map block_layout bs"
  by (induction bs) auto

lemma heap_ok_init: "heap_ok Heap_Init"
proof -
  have "map block_layout (heap_groups astHeapInit 0) = heap_layout"
    by code_simp
  then show ?thesis
    by (simp add: heap_ok_def Heap_Init_def)
qed

lemma heap_ok_alloc: "heap_ok h \<Longrightarrow> heap_ok (snd (Heap_Alloc sz h))"
  by (simp add: heap_ok_def Heap_Alloc_def heap_take_layout split_beta)

lemma heap_ok_free: "heap_ok h \<Longrightarrow> heap_ok (Heap_Free p h)"
  by (simp add: heap_ok_def Heap_Free_def heap_release_layout)

lemma heap_reachable_ok: "heap_reachable h \<Longrightarrow> heap_ok h"
  by (induction rule: heap_reachable.induct) (auto intro: heap_ok_init heap_ok_alloc heap_ok_free)

text \<open>The blocks follow each other without gap or overlap.\<close>

lemma heap_layout_ordered: "sorted_wrt (\<lambda>a b. fst a + snd a \<le> fst b) heap_layout"
  by code_simp

lemma heap_layout_bounded: "\<forall>a\<in>set heap_layout. fst a + snd a \<le> HEAP_SIZE_BYTES \<and> 0 < snd a"
  by code_simp

lemma heap_block_layout:
  "heap_ok h \<Longrightarrow> i < length (astHeapElements h) \<Longrightarrow> block_layout (astHeapElements h ! i) = heap_layout ! i"
  "heap_ok h \<Longrightarrow> length (astHeapElements h) = length heap_layout"
  by (metis heap_ok_def nth_map) (metis heap_ok_def length_map)

lemma heap_blocks_apart:
  assumes "heap_ok h" "i < j" "j < length (astHeapElements h)"
  shows "unat (usOffset (astHeapElements h ! i)) + unat (usSize (astHeapElements h ! i)) \<le> unat (usOffset (astHeapElements h ! j))"
  using sorted_wrt_nth_less [OF heap_layout_ordered assms(2)] heap_block_layout(1) [OF assms(1), of i]
    heap_block_layout(1) [OF assms(1,3)] heap_block_layout(2) [OF assms(1)] assms(2,3)
  by (simp add: block_layout_def prod_eq_iff)

lemma heap_block_inside:
  assumes "heap_ok h" "i < length (astHeapElements h)"
  shows "unat (usOffset (astHeapElements h ! i)) + unat (usSize (astHeapElements h ! i)) \<le> HEAP_SIZE_BYTES
    \<and> 0 < unat (usSize (astHeapElements h ! i))"
proof -
  have "heap_layout ! i \<in> set heap_layout"
    using assms heap_block_layout(2) by (simp add: nth_mem)
  then show ?thesis
    using heap_layout_bounded heap_block_layout(1) [OF assms] by (force simp: block_layout_def prod_eq_iff)
qed

section \<open>Allocation and release\<close>

lemma heap_take_None:
  "fst (heap_take sz bs) = None \<Longrightarrow> (\<forall>b\<in>set bs. sz < usSize b \<longrightarrow> bInUse b) \<and> snd (heap_take sz bs) = bs"
  by (induction bs) (auto simp: split_beta split: if_splits)

lemma heap_take_Some:
  "fst (heap_take sz bs) = Some p \<Longrightarrow> \<exists>i < length bs. \<not> bInUse (bs ! i) \<and> sz < usSize (bs ! i) \<and> p = unat (usOffset (bs ! i))
     \<and> (\<forall>k < i. sz < usSize (bs ! k) \<longrightarrow> bInUse (bs ! k)) \<and> snd (heap_take sz bs) = bs[i := (bs ! i)\<lparr>bInUse := True\<rparr>]"
proof (induction bs)
  case (Cons b bs)
  show ?case
  proof (cases "sz < usSize b \<and> \<not> bInUse b")
    case True
    with Cons.prems show ?thesis
      by (intro exI [of _ 0]) auto
  next
    case False
    with Cons obtain i where "i < length bs" "\<not> bInUse (bs ! i)" "sz < usSize (bs ! i)" "p = unat (usOffset (bs ! i))"
        "\<forall>k < i. sz < usSize (bs ! k) \<longrightarrow> bInUse (bs ! k)" "snd (heap_take sz bs) = bs[i := (bs ! i)\<lparr>bInUse := True\<rparr>]"
      by (auto simp: split_beta)
    with False show ?thesis
      by (intro exI [of _ "Suc i"]) (auto simp: split_beta less_Suc_eq_0_disj)
  qed
qed simp

lemma heap_release_nth:
  assumes "i < length bs" "bInUse (bs ! i)" "\<forall>k < i. usOffset (bs ! k) \<noteq> usOffset (bs ! i)"
  shows "heap_release (unat (usOffset (bs ! i))) bs = bs[i := (bs ! i)\<lparr>bInUse := False\<rparr>]"
  using assms
proof (induction bs arbitrary: i)
  case (Cons b bs)
  then show ?case
    by (cases i) (auto simp: All_less_Suc2 word_unat_eq_iff)
qed simp

lemma heap_offsets_distinct:
  assumes "heap_ok h" "k < i" "i < length (astHeapElements h)"
  shows "usOffset (astHeapElements h ! k) \<noteq> usOffset (astHeapElements h ! i)"
  using heap_blocks_apart [OF assms] heap_block_inside [OF assms(1), of k] assms(2,3) by auto

section \<open>Properties\<close>



text \<open>
  C34.  Allocation is best fit and release undoes it.  A failed allocation changes nothing and every block
  that is larger than the request is in use; a successful one returns the address of the first free
  block larger than the request, marks exactly that block, and releasing the address gives back the
  heap of before.
\<close>

theorem heap_alloc_free:
  assumes "heap_reachable h"
  shows "case Heap_Alloc sz h of
      (None, h') \<Rightarrow> h' = h \<and> (\<forall>b\<in>set (astHeapElements h). sz < usSize b \<longrightarrow> bInUse b)
    | (Some p, h') \<Rightarrow> Heap_Free p h' = h \<and> (\<exists>i < 23. p = unat (usOffset (astHeapElements h ! i))
        \<and> \<not> bInUse (astHeapElements h ! i) \<and> sz < usSize (astHeapElements h ! i)
        \<and> (\<forall>k < i. sz < usSize (astHeapElements h ! k) \<longrightarrow> bInUse (astHeapElements h ! k))
        \<and> h' = h\<lparr>astHeapElements := (astHeapElements h)[i := (astHeapElements h ! i)\<lparr>bInUse := True\<rparr>]\<rparr>)"
proof -
  let ?bs = "astHeapElements h"
  have ok: "heap_ok h"
    using assms by (rule heap_reachable_ok)
  then have len: "length ?bs = 23"
    by (simp add: heap_block_layout(2) heap_layout_def)
  show ?thesis
  proof (cases "fst (heap_take sz ?bs)")
    case None
    then show ?thesis
      using heap_take_None [OF None] by (simp add: Heap_Alloc_def split_beta)
  next
    case (Some p)
    obtain i where i: "i < length ?bs" "\<not> bInUse (?bs ! i)" "sz < usSize (?bs ! i)" "p = unat (usOffset (?bs ! i))"
        "\<forall>k < i. sz < usSize (?bs ! k) \<longrightarrow> bInUse (?bs ! k)" "snd (heap_take sz ?bs) = ?bs[i := (?bs ! i)\<lparr>bInUse := True\<rparr>]"
      using heap_take_Some [OF Some] by blast
    let ?bs' = "?bs[i := (?bs ! i)\<lparr>bInUse := True\<rparr>]"
    have "heap_release p ?bs' = ?bs'[i := (?bs' ! i)\<lparr>bInUse := False\<rparr>]"
      using heap_release_nth [of i ?bs'] i(1,4) heap_offsets_distinct [OF ok] by simp
    then have "heap_release p ?bs' = ?bs"
      using i(1,2) by (simp add: list_update_same_conv)
    then show ?thesis
      using Some i len by (auto simp: Heap_Alloc_def Heap_Free_def split_beta)
  qed
qed

theorem heap_alloc_free_witness:
  "Heap_Alloc 8 Heap_Init = (Some 80, snd (Heap_Alloc 8 Heap_Init)) \<and> Heap_Free 80 (snd (Heap_Alloc 8 Heap_Init)) = Heap_Init"
proof -
  have "fst (Heap_Alloc 8 Heap_Init) = Some 80"
    by code_simp
  then show ?thesis
    using heap_alloc_free [OF heap_reachable.init, of 8] by (cases "Heap_Alloc 8 Heap_Init") simp
qed

text \<open>A request of exactly the size of a block gets a larger one, and the largest block is never used for its own size.\<close>

lemma heap_exact_fit_skipped: "fst (Heap_Alloc 8 Heap_Init) = Some 80" "fst (Heap_Alloc 64 Heap_Init) = None"
  by code_simp+

end
