(* ===== verification/Funk_Task.thy ===== *)
theory Funk_Task
  imports MyCub_Prelude
begin

text \<open>
  The scheduler of the FunkOS kernel (\<^verbatim>\<open>funkos/kernel/task.c\<close>).  The task structures live in a store indexed
  by their address, with address 0 for NULL, and form a circular list through \<^verbatim>\<open>pstNext\<close>.  A loop over the
  list returns None when it follows a NULL pointer or never ends.  The stacks of the tasks lie in a
  memory of bytes with 16-bit addresses, apart from the store; pointers to functions and names are
  their addresses.  \<^verbatim>\<open>Task_YieldSWI\<close> records that the software interrupt is pending, when the
  scheduler is enabled (\<^verbatim>\<open>kernel/atmega328p/kernelswi.c\<close>).
\<close>

section \<open>Tasks\<close>

datatype TASK_STATE = TASK_UNINIT | TASK_READY | TASK_BLOCKED | TASK_SLEEP | TASK_STOPPED | TASK_TIMEOUT

record TASK_STRUCT =
  pwTopStack :: u16
  pwStack :: u16
  usStackSize :: u16
  usStackMargin :: u16
  pacName :: u16
  pfTaskFunc :: u16
  ucPriority :: u8
  eState :: TASK_STATE
  usTimeLeft :: u16
  usQuantum :: u16
  bTimeout :: bool
  ucMutexPriority :: u8
  pstNext :: nat
  pstNextList :: nat

record kernel =
  tasks :: "nat \<Rightarrow> TASK_STRUCT"
  ram :: "u16 \<Rightarrow> u8"
  pstCurrentTask :: nat
  sCriticalCount :: int
  bGlobalTaskEnable :: bool
  swi_pending :: bool

abbreviation (input) TIME_FOREVER :: u16 where "TIME_FOREVER \<equiv> 65535"

definition upd_task :: "nat \<Rightarrow> (TASK_STRUCT \<Rightarrow> TASK_STRUCT) \<Rightarrow> kernel \<Rightarrow> kernel" where
  "upd_task t f k = k\<lparr>tasks := (tasks k)(t := f (tasks k t))\<rparr>"

definition Task_Init :: "kernel \<Rightarrow> kernel" where
  "Task_Init k = k\<lparr>pstCurrentTask := 0, sCriticalCount := 0\<rparr>"

definition KernelSWI_Trigger :: "kernel \<Rightarrow> kernel" where
  "KernelSWI_Trigger k = (if bGlobalTaskEnable k then k\<lparr>swi_pending := True\<rparr> else k)"

definition Task_YieldSWI :: "kernel \<Rightarrow> kernel" where
  "Task_YieldSWI k = KernelSWI_Trigger k"

text \<open>The initial stack of a task: all 0xFF, with the frame that restoring its context pops on top.\<close>

definition TOP_OF_STACK :: "u16 \<Rightarrow> u16 \<Rightarrow> u16" where
  "TOP_OF_STACK x y = x + (y - 1)"

definition PUSH_TO_STACK :: "u8 \<Rightarrow> (u16 \<Rightarrow> u8) \<times> u16 \<Rightarrow> (u16 \<Rightarrow> u8) \<times> u16" where
  "PUSH_TO_STACK y = (\<lambda>(m, x). (m(x := y), x - 1))"

definition clear_stack :: "u16 \<Rightarrow> nat \<Rightarrow> (u16 \<Rightarrow> u8) \<Rightarrow> u16 \<Rightarrow> u8" where
  "clear_stack base n m = fold (\<lambda>i m. m(base + of_nat i := 0xFF)) [0..<n] m"

definition initial_frame :: "u16 \<Rightarrow> u16 \<Rightarrow> u8 list" where
  "initial_frame addr task =
    [ucast addr, ucast (drop_bit 8 addr), 0x00, 0x80, 0x00] @ map of_nat [2..<24] @
    [ucast task, ucast (drop_bit 8 task)] @ map of_nat [26..<32]"

definition Task_InitStack :: "nat \<Rightarrow> kernel \<Rightarrow> kernel" where
  "Task_InitStack t k =
    (let s = tasks k t;
         m = clear_stack (pwStack s) (unat (usStackSize s)) (ram k);
         (m', top) = fold PUSH_TO_STACK (initial_frame (pfTaskFunc s) (of_nat t)) (m, pwTopStack s)
     in upd_task t (\<lambda>s. s\<lparr>pwTopStack := top\<rparr>) (k\<lparr>ram := m'\<rparr>))"

definition Task_CreateTask :: "nat \<Rightarrow> u16 \<Rightarrow> u16 \<Rightarrow> u16 \<Rightarrow> u8 \<Rightarrow> u16 \<Rightarrow> kernel \<Rightarrow> kernel" where
  "Task_CreateTask t name stack stacksize priority func k =
    Task_InitStack t (upd_task t (\<lambda>s. s\<lparr>pacName := name, usStackSize := stacksize, ucPriority := priority,
      eState := TASK_STOPPED, pwTopStack := TOP_OF_STACK stack stacksize, pwStack := stack,
      pfTaskFunc := func, usTimeLeft := 0, usQuantum := 1, pstNextList := 0, ucMutexPriority := 0\<rparr>) k)"

definition Task_Add :: "nat \<Rightarrow> kernel \<Rightarrow> bool \<times> kernel" where
  "Task_Add t k =
    (let k1 = upd_task t (\<lambda>s. s\<lparr>eState := TASK_READY\<rparr>) k
     in if pstCurrentTask k1 = 0
        then (True, upd_task t (\<lambda>s. s\<lparr>pstNext := t\<rparr>) (k1\<lparr>pstCurrentTask := t\<rparr>))
        else
          let k2 = upd_task t (\<lambda>s. s\<lparr>pstNext := pstNext (tasks k1 (pstCurrentTask k1))\<rparr>) k1
          in (True, upd_task (pstCurrentTask k2) (\<lambda>s. s\<lparr>pstNext := t\<rparr>) k2))"

text \<open>The search of \<^verbatim>\<open>Task_Remove\<close> for the predecessor in the list.\<close>

partial_function (option) remove_loop :: "(nat \<Rightarrow> TASK_STRUCT) \<Rightarrow> nat \<Rightarrow> nat \<Rightarrow> nat \<Rightarrow> nat option" where
  "remove_loop ts t prev target =
    (if target = t then Some prev
     else if target = 0 then None
     else remove_loop ts t target (pstNext (ts target)))"

definition Task_Remove :: "nat \<Rightarrow> kernel \<Rightarrow> (bool \<times> kernel) option" where
  "Task_Remove t k =
    (case (if t = 0 then None else remove_loop (tasks k) t t (pstNext (tasks k t))) of
       None \<Rightarrow> None
     | Some prev \<Rightarrow>
         let k1 = upd_task prev (\<lambda>s. s\<lparr>pstNext := pstNext (tasks k t)\<rparr>) k;
             k2 = upd_task t (\<lambda>s. s\<lparr>pstNext := 0, eState := TASK_UNINIT\<rparr>) k1
         in Some (False, Task_YieldSWI k2))"

definition Task_SetQuantum :: "nat \<Rightarrow> u16 \<Rightarrow> kernel \<Rightarrow> kernel" where
  "Task_SetQuantum t ticks k = (if t \<noteq> 0 then upd_task t (\<lambda>s. s\<lparr>usQuantum := ticks\<rparr>) k else k)"

definition Task_Start :: "nat \<Rightarrow> kernel \<Rightarrow> kernel" where
  "Task_Start t = upd_task t (\<lambda>s. s\<lparr>eState := TASK_READY, usTimeLeft := usQuantum s\<rparr>)"

definition Task_Stop :: "nat \<Rightarrow> kernel \<Rightarrow> kernel" where
  "Task_Stop t = upd_task t (\<lambda>s. s\<lparr>eState := TASK_STOPPED\<rparr>)"

section \<open>Choosing the next task\<close>

text \<open>The first loop of \<^verbatim>\<open>Task_Switch\<close>: the highest priority among the ready tasks, at least 0.\<close>

definition raise_priority :: "TASK_STRUCT \<Rightarrow> nat \<Rightarrow> nat" where
  "raise_priority s hi = (if eState s = TASK_READY \<and> hi < unat (ucPriority s) then unat (ucPriority s) else hi)"

partial_function (option) priority_loop :: "(nat \<Rightarrow> TASK_STRUCT) \<Rightarrow> nat \<Rightarrow> nat \<Rightarrow> nat \<Rightarrow> nat option" where
  "priority_loop ts pstEnd t hi =
    (if t = 0 then None
     else
       let hi' = raise_priority (ts t) hi; t' = pstNext (ts t)
       in if pstEnd \<noteq> t' then priority_loop ts pstEnd t' hi' else Some hi')"

text \<open>The second loop: the first ready task of that priority after the current one.\<close>

definition runnable :: "nat \<Rightarrow> TASK_STRUCT \<Rightarrow> bool" where
  "runnable hi s \<longleftrightarrow> eState s = TASK_READY \<and> unat (ucPriority s) = hi"

partial_function (option) choose_loop :: "(nat \<Rightarrow> TASK_STRUCT) \<Rightarrow> nat \<Rightarrow> nat \<Rightarrow> nat \<Rightarrow> nat option" where
  "choose_loop ts pstEnd hi t =
    (if t = 0 then None
     else if runnable hi (ts t) then Some t
     else
       let t' = pstNext (ts t)
       in if pstEnd \<noteq> t' then choose_loop ts pstEnd hi t' else Some t')"

text \<open>The debugging check of the stack: how many bytes at its bottom still hold 0xFF.\<close>

fun stack_margin :: "(u16 \<Rightarrow> u8) \<Rightarrow> u16 \<Rightarrow> nat \<Rightarrow> nat" where
  "stack_margin m base 0 = 0"
| "stack_margin m base (Suc n) = (if m base \<noteq> 0xFF then 0 else Suc (stack_margin m (base + 1) n))"

definition Task_StackCheck :: "kernel \<Rightarrow> kernel" where
  "Task_StackCheck k =
    upd_task (pstCurrentTask k)
      (\<lambda>s. s\<lparr>usStackMargin := of_nat (stack_margin (ram k) (pwStack s) (unat (usStackSize s)))\<rparr>) k"

definition Task_Switch :: "kernel \<Rightarrow> kernel option" where
  "Task_Switch k =
    (case priority_loop (tasks k) (pstCurrentTask k) (pstCurrentTask k) 0 of
       None \<Rightarrow> None
     | Some hi \<Rightarrow>
         let first = pstNext (tasks k (pstCurrentTask k))
         in (case choose_loop (tasks k) first hi first of
               None \<Rightarrow> None
             | Some t \<Rightarrow>
                 Some (Task_StackCheck (upd_task t (\<lambda>s. s\<lparr>usTimeLeft := usQuantum s\<rparr>) (k\<lparr>pstCurrentTask := t\<rparr>)))))"

section \<open>The tick\<close>

text \<open>The quantum of the current task: the new structure, and whether the quantum expired.\<close>

definition tick_quantum :: "TASK_STRUCT \<Rightarrow> TASK_STRUCT \<times> bool" where
  "tick_quantum s =
    (if usTimeLeft s \<noteq> 0 \<and> usTimeLeft s \<noteq> TIME_FOREVER then
       let s' = s\<lparr>usTimeLeft := usTimeLeft s - 1\<rparr>
       in if usTimeLeft s' = 0 then (s'\<lparr>usTimeLeft := usQuantum s'\<rparr>, True) else (s', False)
     else (s, False))"

text \<open>The waiting time of one task: the new structure, and whether it became ready.\<close>

definition tick_task :: "TASK_STRUCT \<Rightarrow> TASK_STRUCT \<times> bool" where
  "tick_task s =
    (if eState s = TASK_BLOCKED then
       (if usTimeLeft s \<noteq> TIME_FOREVER \<and> usTimeLeft s \<noteq> 0 then (s\<lparr>usTimeLeft := usTimeLeft s - 1\<rparr>, False)
        else if usTimeLeft s = 0
        then (s\<lparr>eState := TASK_READY, bTimeout := True, usTimeLeft := usQuantum s\<rparr>, True)
        else (s, False))
     else if eState s = TASK_SLEEP then
       (let s' = (if usTimeLeft s \<noteq> TIME_FOREVER then s\<lparr>usTimeLeft := usTimeLeft s - 1\<rparr> else s)
        in if usTimeLeft s' = 0 then (s'\<lparr>eState := TASK_READY, usTimeLeft := usQuantum s'\<rparr>, True) else (s', False))
     else (s, False))"

partial_function (option) tick_loop :: "nat \<Rightarrow> nat \<Rightarrow> kernel \<Rightarrow> bool \<Rightarrow> (bool \<times> kernel) option" where
  "tick_loop pstEnd t k run =
    (if t = 0 then None
     else
       let (s, woken) = tick_task (tasks k t);
           k' = upd_task t (\<lambda>_. s) k;
           run' = (run \<or> woken \<and> ucPriority (tasks k' (pstCurrentTask k')) < ucPriority s);
           t' = pstNext s
       in if pstEnd \<noteq> t' then tick_loop pstEnd t' k' run' else Some (run', k'))"

definition Task_Tick :: "kernel \<Rightarrow> (bool \<times> kernel) option" where
  "Task_Tick k =
    (let cur = pstCurrentTask k;
         (s, expired) = tick_quantum (tasks k cur)
     in case tick_loop cur cur (upd_task cur (\<lambda>_. s) k) expired of
          None \<Rightarrow> None
        | Some (run, k') \<Rightarrow> Some (bGlobalTaskEnable k' \<and> run, k'))"

definition Task_Sleep :: "u16 \<Rightarrow> kernel \<Rightarrow> kernel" where
  "Task_Sleep time k =
    Task_YieldSWI (upd_task (pstCurrentTask k) (\<lambda>s. s\<lparr>eState := TASK_SLEEP, usTimeLeft := time\<rparr>) k)"

definition Task_IsSchedulerEnabled :: "kernel \<Rightarrow> bool" where
  "Task_IsSchedulerEnabled k = bGlobalTaskEnable k"

definition Task_SetScheduler :: "bool \<Rightarrow> kernel \<Rightarrow> kernel" where
  "Task_SetScheduler b k = k\<lparr>bGlobalTaskEnable := b\<rparr>"

definition Task_SchedulerDisable :: "kernel \<Rightarrow> bool \<times> kernel" where
  "Task_SchedulerDisable k = (Task_IsSchedulerEnabled k, Task_SetScheduler False k)"

definition Task_SchedulerRestore :: "bool \<Rightarrow> kernel \<Rightarrow> kernel" where
  "Task_SchedulerRestore b k = Task_SetScheduler b k"

definition Task_GetCurrentTask :: "kernel \<Rightarrow> nat" where
  "Task_GetCurrentTask k = pstCurrentTask k"

section \<open>The circular list\<close>

text \<open>Following \<^verbatim>\<open>pstNext\<close> from one task through a list of tasks to another, and once around.\<close>

fun segment :: "(nat \<Rightarrow> TASK_STRUCT) \<Rightarrow> nat \<Rightarrow> nat list \<Rightarrow> nat \<Rightarrow> bool" where
  "segment ts p [] q \<longleftrightarrow> p = q"
| "segment ts p (x # xs) q \<longleftrightarrow> p = x \<and> x \<noteq> 0 \<and> segment ts (pstNext (ts x)) xs q"

definition ring :: "kernel \<Rightarrow> nat list \<Rightarrow> bool" where
  "ring k rest \<longleftrightarrow> distinct (pstCurrentTask k # rest) \<and>
     segment (tasks k) (pstCurrentTask k) (pstCurrentTask k # rest) (pstCurrentTask k)"

lemma segment_append: "segment ts p (xs @ ys) q \<longleftrightarrow> (\<exists>r. segment ts p xs r \<and> segment ts r ys q)"
  by (induction xs arbitrary: p) auto

lemma segment_nonzero: "segment ts p xs q \<Longrightarrow> 0 \<notin> set xs"
  by (induction xs arbitrary: p) auto

lemma segment_frame:
  "(\<forall>x\<in>set xs. pstNext (ts' x) = pstNext (ts x)) \<Longrightarrow> segment ts' p xs q = segment ts p xs q"
  by (induction xs arbitrary: p) auto

lemma segment_rotate: "segment ts c (c # rest) c \<Longrightarrow> segment ts (pstNext (ts c)) (rest @ [c]) (pstNext (ts c))"
  by (auto simp: segment_append)

subsection \<open>The loops over a segment\<close>

lemma priority_loop_segment:
  assumes "segment ts p xs q" "xs \<noteq> []" "q \<notin> set (tl xs)"
  shows "priority_loop ts q p hi = Some (fold (\<lambda>x. raise_priority (ts x)) xs hi)"
  using assms
proof (induction xs arbitrary: p hi)
  case (Cons x xs)
  show ?case
  proof (cases xs)
    case Nil
    with Cons.prems show ?thesis
      by (subst priority_loop.simps) simp
  next
    case (Cons y ys)
    with Cons.IH [of "pstNext (ts x)" "raise_priority (ts x) hi"] Cons.prems show ?thesis
      by (subst priority_loop.simps) auto
  qed
qed simp

lemma choose_loop_segment:
  assumes "segment ts p xs q" "xs \<noteq> []" "q \<notin> set (tl xs)"
  shows "choose_loop ts q hi p = Some (case find (\<lambda>x. runnable hi (ts x)) xs of Some t \<Rightarrow> t | None \<Rightarrow> q)"
  using assms
proof (induction xs arbitrary: p)
  case (Cons x xs)
  show ?case
  proof (cases xs)
    case Nil
    with Cons.prems show ?thesis
      by (subst choose_loop.simps) simp
  next
    case (Cons y ys)
    with Cons.IH [of "pstNext (ts x)"] Cons.prems show ?thesis
      by (subst choose_loop.simps) auto
  qed
qed simp

lemma tick_task_keeps [simp]:
  "pstNext (fst (tick_task s)) = pstNext s" "ucPriority (fst (tick_task s)) = ucPriority s"
  by (simp_all add: tick_task_def Let_def)

lemma tick_quantum_keeps [simp]:
  "pstNext (fst (tick_quantum s)) = pstNext s" "ucPriority (fst (tick_quantum s)) = ucPriority s"
  "eState (fst (tick_quantum s)) = eState s"
  by (simp_all add: tick_quantum_def Let_def)

definition tick_tasks :: "nat list \<Rightarrow> (nat \<Rightarrow> TASK_STRUCT) \<Rightarrow> nat \<Rightarrow> TASK_STRUCT" where
  "tick_tasks xs ts t = (if t \<in> set xs then fst (tick_task (ts t)) else ts t)"

lemma tick_tasks_Cons:
  "x \<notin> set xs \<Longrightarrow> tick_tasks xs (ts(x := fst (tick_task (ts x)))) = tick_tasks (x # xs) ts"
  by (auto simp: tick_tasks_def fun_eq_iff)

lemma tick_loop_segment:
  assumes "segment (tasks k) p xs q" "xs \<noteq> []" "q \<notin> set (tl xs)" "distinct xs"
  shows "\<exists>b. tick_loop q p k run = Some (b, k\<lparr>tasks := tick_tasks xs (tasks k)\<rparr>)"
  using assms
proof (induction xs arbitrary: p k run)
  case (Cons x xs)
  obtain s w where t: "tick_task (tasks k x) = (s, w)"
    by fastforce
  have s: "s = fst (tick_task (tasks k x))" "pstNext s = pstNext (tasks k x)"
    using tick_task_keeps(1) [of "tasks k x"] t by simp_all
  have upd: "upd_task x (\<lambda>_. s) k = k\<lparr>tasks := (tasks k)(x := fst (tick_task (tasks k x)))\<rparr>"
    by (simp add: upd_task_def s(1))
  show ?case
  proof (cases xs)
    case Nil
    with Cons.prems show ?thesis
      by (subst tick_loop.simps) (simp add: t s(2) upd, simp add: fun_eq_iff tick_tasks_def upd_task_def t)
  next
    case (Cons y ys)
    have "segment (tasks (upd_task x (\<lambda>_. s) k)) (pstNext (tasks k x)) xs q"
      using Cons.prems by (subst segment_frame [where ts = "tasks k"]) (auto simp: upd_task_def s(2))
    with Cons Cons.IH [of "upd_task x (\<lambda>_. s) k" "pstNext (tasks k x)"] Cons.prems
    have "\<exists>b. tick_loop q (pstNext s) (upd_task x (\<lambda>_. s) k) r =
        Some (b, upd_task x (\<lambda>_. s) k\<lparr>tasks := tick_tasks xs (tasks (upd_task x (\<lambda>_. s) k))\<rparr>)" for r
      by (auto simp: s(2))
    moreover have "q \<noteq> pstNext s" "p = x" "x \<noteq> 0"
      using Cons Cons.prems by (auto simp: s(2))
    moreover have "tick_tasks xs (tasks (upd_task x (\<lambda>_. s) k)) = tick_tasks (x # xs) (tasks k)"
      using Cons.prems by (simp add: upd tick_tasks_Cons)
    ultimately show ?thesis
      by (subst tick_loop.simps) (simp add: t Let_def, simp add: upd_task_def)
  qed
qed simp

lemma remove_loop_segment:
  "segment ts p xs t \<Longrightarrow> t \<notin> set xs \<Longrightarrow> remove_loop ts t prev p = Some (last (prev # xs))"
proof (induction xs arbitrary: p prev)
  case Nil
  then show ?case
    by (subst remove_loop.simps) simp
next
  case (Cons x xs)
  then show ?case
    by (subst remove_loop.simps) auto
qed

lemma segment_relink:
  assumes "segment ts p xs q" "xs \<noteq> []" "distinct xs"
  shows "segment (ts(last xs := (ts (last xs))\<lparr>pstNext := r\<rparr>)) p xs r"
  using assms
proof (induction xs arbitrary: p)
  case (Cons x xs)
  show ?case
  proof (cases xs)
    case Nil
    with Cons.prems show ?thesis by simp
  next
    case (Cons y ys)
    then have "last xs \<in> set xs" "last xs \<noteq> x"
      using last_in_set [of xs] Cons.prems by auto
    with Cons Cons.IH [of "pstNext (ts x)"] Cons.prems show ?thesis by simp
  qed
qed simp

subsection \<open>The operations keep the circular list\<close>

lemma ring_frame:
  assumes "pstCurrentTask k' = pstCurrentTask k" "\<And>t. pstNext (tasks k' t) = pstNext (tasks k t)"
  shows "ring k' rest = ring k rest"
  unfolding ring_def assms(1) by (subst segment_frame [where ts = "tasks k"]) (simp_all add: assms(2))

lemma Task_YieldSWI_keeps [simp]:
  "tasks (Task_YieldSWI k) = tasks k" "pstCurrentTask (Task_YieldSWI k) = pstCurrentTask k"
  "ram (Task_YieldSWI k) = ram k"
  by (simp_all add: Task_YieldSWI_def KernelSWI_Trigger_def)

lemma ring_YieldSWI [simp]: "ring (Task_YieldSWI k) rest = ring k rest"
  by (rule ring_frame) simp_all

lemma upd_task_keeps [simp]:
  "pstCurrentTask (upd_task t f k) = pstCurrentTask k" "ram (upd_task t f k) = ram k"
  "tasks (upd_task t f k) = (tasks k)(t := f (tasks k t))"
  "bGlobalTaskEnable (upd_task t f k) = bGlobalTaskEnable k"
  by (simp_all add: upd_task_def)

lemma ring_upd_task:
  "pstNext (f (tasks k t)) = pstNext (tasks k t) \<Longrightarrow> ring (upd_task t f k) rest = ring k rest"
  by (rule ring_frame) simp_all

lemma ring_rotate:
  assumes "ring k (xs @ t # ys)"
  shows "ring (k\<lparr>pstCurrentTask := t\<rparr>) (ys @ pstCurrentTask k # xs)"
  using assms by (auto simp: ring_def segment_append)

lemma ring_first: "t \<noteq> 0 \<Longrightarrow> ring (snd (Task_Add t (Task_Init k))) []"
  by (simp add: ring_def Task_Add_def Task_Init_def upd_task_def Let_def)

lemma ring_add:
  assumes "ring k rest" "t \<noteq> 0" "t \<noteq> pstCurrentTask k" "t \<notin> set rest"
  shows "ring (snd (Task_Add t k)) (t # rest)" "pstCurrentTask (snd (Task_Add t k)) = pstCurrentTask k"
proof -
  let ?k = "snd (Task_Add t k)"
  have c: "pstCurrentTask k \<noteq> 0" "pstCurrentTask k \<notin> set rest"
    using assms(1) by (auto simp: ring_def)
  then show cur: "pstCurrentTask ?k = pstCurrentTask k"
    by (simp add: Task_Add_def upd_task_def Let_def)
  have nx: "pstNext (tasks ?k (pstCurrentTask k)) = t" "pstNext (tasks ?k t) = pstNext (tasks k (pstCurrentTask k))"
    "\<forall>x\<in>set rest. pstNext (tasks ?k x) = pstNext (tasks k x)"
    using c assms(3, 4) by (auto simp: Task_Add_def upd_task_def Let_def)
  show "ring ?k (t # rest)"
    using assms c segment_frame [OF nx(3), of "pstNext (tasks k (pstCurrentTask k))"] by (auto simp: ring_def cur nx)
qed

lemma ring_remove:
  assumes r: "ring k (xs @ t # ys)"
  shows "\<exists>k'. Task_Remove t k = Some (False, k') \<and> ring k' (xs @ ys) \<and> pstCurrentTask k' = pstCurrentTask k"
proof -
  let ?c = "pstCurrentTask k" and ?n = "pstNext (tasks k t)" and ?p = "last (pstCurrentTask k # xs)"
  let ?ts = "(tasks k)(?p := (tasks k ?p)\<lparr>pstNext := ?n\<rparr>)"
  have d: "distinct (?c # xs @ t # ys)" and seg: "segment (tasks k) ?c (?c # xs) t" "segment (tasks k) ?n ys ?c" "t \<noteq> 0"
    using r by (auto simp: ring_def segment_append)
  have "segment (tasks k) ?n (ys @ ?c # xs) t"
    using seg by (auto simp: segment_append)
  moreover have "last (t # ys @ ?c # xs) = ?p"
    by simp
  ultimately have loop: "remove_loop (tasks k) t t ?n = Some ?p"
    using remove_loop_segment [of "tasks k" ?n "ys @ ?c # xs" t t] d by auto
  have p: "?p \<in> set (?c # xs)"
    by (rule last_in_set) simp
  then have pt: "?p \<noteq> t" "?p \<notin> set ys"
    using d by auto
  define k2 where "k2 = upd_task t (\<lambda>s. s\<lparr>pstNext := 0, eState := TASK_UNINIT\<rparr>) (k\<lparr>tasks := ?ts\<rparr>)"
  have "segment ?ts ?c (?c # xs) ?n"
    by (rule segment_relink [OF seg(1)]) (use d in auto)
  then have "segment (tasks k2) ?c (?c # xs) ?n"
    using d by (subst segment_frame [where ts = ?ts]) (auto simp: k2_def upd_task_def)
  moreover have "segment (tasks k2) ?n ys ?c"
    using seg(2) d pt by (subst segment_frame [where ts = "tasks k"]) (auto simp: k2_def upd_task_def)
  ultimately have "segment (tasks k2) ?c ((?c # xs) @ ys) ?c"
    using segment_append by blast
  moreover have "pstCurrentTask k2 = ?c"
    by (simp add: k2_def upd_task_def)
  ultimately have "ring k2 (xs @ ys)"
    using d by (auto simp: ring_def)
  moreover have "Task_Remove t k = Some (False, Task_YieldSWI k2)"
    using seg(3) by (simp add: Task_Remove_def loop k2_def upd_task_def Let_def)
  moreover have "pstCurrentTask k2 = ?c"
    by (simp add: k2_def upd_task_def)
  ultimately show ?thesis
    by simp
qed

text \<open>The choice of \<^verbatim>\<open>Task_Switch\<close> on a circular list.\<close>

lemma raise_priority_fold:
  "hi \<le> fold (\<lambda>x. raise_priority (ts x)) xs hi \<and>
   (\<forall>x\<in>set xs. eState (ts x) = TASK_READY \<longrightarrow>
      unat (ucPriority (ts x)) \<le> fold (\<lambda>x. raise_priority (ts x)) xs hi) \<and>
   (fold (\<lambda>x. raise_priority (ts x)) xs hi = hi \<or> (\<exists>x\<in>set xs. runnable (fold (\<lambda>x. raise_priority (ts x)) xs hi) (ts x)))"
proof (induction xs arbitrary: hi)
  case (Cons x xs)
  have "hi \<le> raise_priority (ts x) hi" "eState (ts x) = TASK_READY \<longrightarrow> unat (ucPriority (ts x)) \<le> raise_priority (ts x) hi"
    "raise_priority (ts x) hi = hi \<or> runnable (raise_priority (ts x) hi) (ts x)"
    by (auto simp: raise_priority_def runnable_def)
  moreover define f where "f = fold (\<lambda>x. raise_priority (ts x)) xs (raise_priority (ts x) hi)"
  ultimately show ?case
    using Cons.IH [of "raise_priority (ts x) hi"] by (fold f_def, simp, fold f_def) (metis order_trans)
qed simp

lemma find_first: "find P xs = Some x \<Longrightarrow> \<exists>ys zs. xs = ys @ x # zs \<and> P x \<and> (\<forall>y\<in>set ys. \<not> P y)"
proof (induction xs)
  case (Cons a xs)
  show ?case
  proof (cases "P a")
    case True
    with Cons.prems have "a # xs = [] @ x # xs \<and> P x \<and> (\<forall>y\<in>set []. \<not> P y)"
      by simp
    then show ?thesis by blast
  next
    case False
    with Cons obtain ys zs where "xs = ys @ x # zs" "P x" "\<forall>y\<in>set ys. \<not> P y"
      by auto
    with False have "a # xs = (a # ys) @ x # zs \<and> P x \<and> (\<forall>y\<in>set (a # ys). \<not> P y)"
      by simp
    then show ?thesis by blast
  qed
qed simp

definition next_task :: "(nat \<Rightarrow> TASK_STRUCT) \<Rightarrow> nat list \<Rightarrow> nat \<Rightarrow> bool" where
  "next_task ts order t \<longleftrightarrow>
    (if \<exists>u\<in>set order. eState (ts u) = TASK_READY
     then \<exists>ys zs. order = ys @ t # zs \<and> eState (ts t) = TASK_READY \<and>
       (\<forall>u\<in>set order. eState (ts u) = TASK_READY \<longrightarrow> ucPriority (ts u) \<le> ucPriority (ts t)) \<and>
       (\<forall>u\<in>set ys. eState (ts u) = TASK_READY \<longrightarrow> ucPriority (ts u) < ucPriority (ts t))
     else t = hd order)"

lemma next_task_chosen:
  assumes "hi = fold (\<lambda>x. raise_priority (ts x)) (c # rest) 0"
    and "t = (case find (\<lambda>x. runnable hi (ts x)) (rest @ [c]) of Some t \<Rightarrow> t | None \<Rightarrow> hd (rest @ [c]))"
  shows "next_task ts (rest @ [c]) t"
proof -
  have max: "(\<forall>x\<in>set (c # rest). eState (ts x) = TASK_READY \<longrightarrow> unat (ucPriority (ts x)) \<le> hi) \<and>
      (hi = 0 \<or> (\<exists>x\<in>set (c # rest). runnable hi (ts x)))"
    using raise_priority_fold [of 0 ts "c # rest", folded assms(1)] by blast
  show ?thesis
  proof (cases "find (\<lambda>x. runnable hi (ts x)) (rest @ [c])")
    case None
    then have none: "\<forall>x\<in>set (c # rest). \<not> runnable hi (ts x)"
      by (auto simp: find_None_iff)
    then have "hi = 0"
      using max by blast
    then have "\<not> (\<exists>u\<in>set (rest @ [c]). eState (ts u) = TASK_READY)"
      using max none by (auto simp: runnable_def)
    with None assms(2) show ?thesis by (simp add: next_task_def)
  next
    case (Some u)
    with assms(2) have u: "t = u" by simp
    obtain ys zs where ys: "rest @ [c] = ys @ t # zs" "runnable hi (ts t)" "\<forall>y\<in>set ys. \<not> runnable hi (ts y)"
      using find_first [OF Some] u by blast
    have max: "unat (ucPriority (ts x)) \<le> hi" if "x \<in> set (rest @ [c])" "eState (ts x) = TASK_READY" for x
      using max that by auto
    have sub: "set ys \<subseteq> set (rest @ [c])" "t \<in> set (rest @ [c])"
      unfolding ys(1) by auto
    have t: "eState (ts t) = TASK_READY" "unat (ucPriority (ts t)) = hi"
      using ys(2) by (simp_all add: runnable_def)
    have le: "ucPriority (ts x) \<le> ucPriority (ts t)" if "x \<in> set (rest @ [c])" "eState (ts x) = TASK_READY" for x
      using max [OF that] t(2) by (simp add: word_le_nat_alt)
    have less: "ucPriority (ts x) < ucPriority (ts t)" if "x \<in> set ys" "eState (ts x) = TASK_READY" for x
    proof -
      have "unat (ucPriority (ts x)) \<le> hi" "unat (ucPriority (ts x)) \<noteq> hi"
        using max [of x] sub(1) ys(3) that by (auto simp: runnable_def)
      then show ?thesis
        using t(2) by (simp add: word_less_nat_alt)
    qed
    have "\<exists>x\<in>set (rest @ [c]). eState (ts x) = TASK_READY"
      using sub(2) t(1) by blast
    moreover have "rest @ [c] = ys @ t # zs \<and> eState (ts t) = TASK_READY \<and>
        (\<forall>x\<in>set (rest @ [c]). eState (ts x) = TASK_READY \<longrightarrow> ucPriority (ts x) \<le> ucPriority (ts t)) \<and>
        (\<forall>x\<in>set ys. eState (ts x) = TASK_READY \<longrightarrow> ucPriority (ts x) < ucPriority (ts t))"
      using ys(1) t(1) le less by blast
    ultimately show ?thesis
      unfolding next_task_def by (subst if_P) (assumption, rule exI [of _ ys], rule exI [of _ zs])
  qed
qed

lemma Task_Switch_ring:
  assumes r: "ring k rest"
  obtains t where "next_task (tasks k) (rest @ [pstCurrentTask k]) t" "t \<in> set (pstCurrentTask k # rest)"
    "Task_Switch k = Some (Task_StackCheck (upd_task t (\<lambda>s. s\<lparr>usTimeLeft := usQuantum s\<rparr>) (k\<lparr>pstCurrentTask := t\<rparr>)))"
proof -
  let ?c = "pstCurrentTask k" and ?n = "pstNext (tasks k (pstCurrentTask k))"
  define hi where "hi = fold (\<lambda>x. raise_priority (tasks k x)) (?c # rest) 0"
  define t where "t = (case find (\<lambda>x. runnable hi (tasks k x)) (rest @ [?c]) of Some t \<Rightarrow> t | None \<Rightarrow> hd (rest @ [?c]))"
  have seg: "segment (tasks k) ?c (?c # rest) ?c" "distinct (?c # rest)"
    using r by (auto simp: ring_def)
  have hd: "?n = hd (rest @ [?c])" "?n \<notin> set (tl (rest @ [?c]))"
    using seg by (cases rest; auto)+
  have "priority_loop (tasks k) ?c ?c 0 = Some hi"
    unfolding hi_def by (rule priority_loop_segment [OF seg(1)]) (use seg(2) in auto)
  moreover have "choose_loop (tasks k) ?n hi ?n = Some t"
    using choose_loop_segment [OF segment_rotate [OF seg(1)], of hi] hd(2) unfolding t_def hd(1) [symmetric] by simp
  ultimately have "Task_Switch k =
      Some (Task_StackCheck (upd_task t (\<lambda>s. s\<lparr>usTimeLeft := usQuantum s\<rparr>) (k\<lparr>pstCurrentTask := t\<rparr>)))"
    by (simp add: Task_Switch_def Let_def)
  moreover have "next_task (tasks k) (rest @ [?c]) t"
    by (rule next_task_chosen [OF hi_def t_def])
  moreover have "t \<in> set (?c # rest)"
  proof (cases "find (\<lambda>x. runnable hi (tasks k x)) (rest @ [?c])")
    case None
    then show ?thesis
      using hd_in_set [of "rest @ [?c]"] by (simp add: t_def)
  next
    case (Some u)
    then have "u \<in> set (rest @ [?c])"
      using find_first [OF Some] by (metis in_set_conv_decomp)
    with Some show ?thesis by (simp add: t_def)
  qed
  ultimately show ?thesis
    using that by blast
qed

lemma ring_switch:
  assumes r: "ring k rest" and sw: "Task_Switch k = Some k'"
  shows "\<exists>rest'. ring k' rest' \<and> set (pstCurrentTask k' # rest') = set (pstCurrentTask k # rest)"
proof -
  obtain t where t0: "t \<in> set (pstCurrentTask k # rest)"
    "Task_Switch k = Some (Task_StackCheck (upd_task t (\<lambda>s. s\<lparr>usTimeLeft := usQuantum s\<rparr>) (k\<lparr>pstCurrentTask := t\<rparr>)))"
    by (rule Task_Switch_ring [OF r])
  then have t: "t \<in> set (pstCurrentTask k # rest)"
    "k' = Task_StackCheck (upd_task t (\<lambda>s. s\<lparr>usTimeLeft := usQuantum s\<rparr>) (k\<lparr>pstCurrentTask := t\<rparr>))"
    using sw by simp_all
  have same: "ring k' rest' = ring (k\<lparr>pstCurrentTask := t\<rparr>) rest'" "pstCurrentTask k' = t" for rest'
    unfolding t(2) Task_StackCheck_def by (simp_all add: ring_upd_task)
  show ?thesis
  proof (cases "t = pstCurrentTask k")
    case True
    then have "k\<lparr>pstCurrentTask := t\<rparr> = k"
      by simp
    then have "ring k' rest" "pstCurrentTask k' = pstCurrentTask k"
      using r same(1) [of rest] same(2) True by simp_all
    then show ?thesis by auto
  next
    case False
    with t(1) obtain xs ys where "rest = xs @ t # ys"
      by (auto simp: in_set_conv_decomp)
    then have "ring k' (ys @ pstCurrentTask k # xs)" "rest = xs @ t # ys"
      using ring_rotate [of k xs t ys] r same(1) by simp_all
    then show ?thesis
      by (intro exI [of _ "ys @ pstCurrentTask k # xs"]) (auto simp: same(2))
  qed
qed

lemma Task_Tick_ring:
  assumes r: "ring k rest"
  obtains b k' where "Task_Tick k = Some (b, k')" "ring k' rest" "pstCurrentTask k' = pstCurrentTask k"
    "\<And>t. t \<in> set rest \<Longrightarrow> tasks k' t = fst (tick_task (tasks k t))"
proof -
  let ?c = "pstCurrentTask k"
  obtain s e where q: "tick_quantum (tasks k ?c) = (s, e)"
    by fastforce
  define k1 where "k1 = upd_task ?c (\<lambda>_. s) k"
  have s: "pstNext s = pstNext (tasks k ?c)"
    using tick_quantum_keeps(1) [of "tasks k ?c"] q by simp
  have r1: "ring k1 rest" "pstCurrentTask k1 = ?c"
    using r by (simp_all add: k1_def ring_upd_task s)
  then have seg: "segment (tasks k1) ?c (?c # rest) ?c" "distinct (?c # rest)"
    by (simp_all add: ring_def)
  obtain b where loop: "tick_loop ?c ?c k1 e = Some (b, k1\<lparr>tasks := tick_tasks (?c # rest) (tasks k1)\<rparr>)"
    using tick_loop_segment [OF seg(1), of e] seg(2) by auto
  define k2 where "k2 = k1\<lparr>tasks := tick_tasks (?c # rest) (tasks k1)\<rparr>"
  have "Task_Tick k = Some (bGlobalTaskEnable k2 \<and> b, k2)"
    using loop by (simp add: Task_Tick_def q k1_def [symmetric] k2_def)
  moreover have "ring k2 rest"
    using r1(1) by (subst ring_frame [of _ k1]) (simp_all add: k2_def tick_tasks_def)
  moreover have "pstCurrentTask k2 = ?c"
    by (simp add: k2_def r1(2))
  moreover have "tasks k2 t = fst (tick_task (tasks k t))" if "t \<in> set rest" for t
    using that seg(2) by (auto simp: k2_def tick_tasks_def k1_def)
  ultimately show ?thesis
    using that by blast
qed

section \<open>The scheduler's states\<close>

text \<open>
  The states the scheduler's operations reach, with the set of the tasks in the list: a task is
  added once, and a task removes another, not itself.
\<close>

inductive scheduler :: "nat set \<Rightarrow> kernel \<Rightarrow> bool" where
  first: "t \<noteq> 0 \<Longrightarrow> scheduler {t} (snd (Task_Add t (Task_Init k)))"
| add: "scheduler S k \<Longrightarrow> t \<noteq> 0 \<Longrightarrow> t \<notin> S \<Longrightarrow> scheduler (insert t S) (snd (Task_Add t k))"
| remove: "scheduler S k \<Longrightarrow> t \<in> S \<Longrightarrow> t \<noteq> pstCurrentTask k \<Longrightarrow> Task_Remove t k = Some (b, k') \<Longrightarrow> scheduler (S - {t}) k'"
| create: "scheduler S k \<Longrightarrow> t \<notin> S \<Longrightarrow> scheduler S (Task_CreateTask t name stack stacksize priority func k)"
| quantum: "scheduler S k \<Longrightarrow> scheduler S (Task_SetQuantum t q k)"
| start: "scheduler S k \<Longrightarrow> scheduler S (Task_Start t k)"
| stop: "scheduler S k \<Longrightarrow> scheduler S (Task_Stop t k)"
| sleep: "scheduler S k \<Longrightarrow> scheduler S (Task_Sleep n k)"
| enable: "scheduler S k \<Longrightarrow> scheduler S (Task_SetScheduler e k)"
| switch: "scheduler S k \<Longrightarrow> Task_Switch k = Some k' \<Longrightarrow> scheduler S k'"
| tick: "scheduler S k \<Longrightarrow> Task_Tick k = Some (b, k') \<Longrightarrow> scheduler S k'"

definition ring_of :: "nat set \<Rightarrow> kernel \<Rightarrow> bool" where
  "ring_of S k \<longleftrightarrow> (\<exists>rest. ring k rest \<and> S = set (pstCurrentTask k # rest))"

lemma ring_of_frame:
  assumes "pstCurrentTask k' = pstCurrentTask k" "\<And>t. pstNext (tasks k' t) = pstNext (tasks k t)" "ring_of S k"
  shows "ring_of S k'"
  using assms ring_frame [OF assms(1, 2)] by (simp add: ring_of_def)

lemma Task_CreateTask_keeps:
  "pstCurrentTask (Task_CreateTask t name stack stacksize priority func k) = pstCurrentTask k"
  "pstNext (tasks (Task_CreateTask t name stack stacksize priority func k) u) = pstNext (tasks k u)"
  by (simp_all add: Task_CreateTask_def Task_InitStack_def Let_def split_beta)

lemma ring_of_remove:
  assumes "ring_of S k" "t \<in> S" "t \<noteq> pstCurrentTask k" "Task_Remove t k = Some (b, k')"
  shows "ring_of (S - {t}) k'"
proof -
  obtain rest where r: "ring k rest" "S = set (pstCurrentTask k # rest)"
    using assms(1) by (auto simp: ring_of_def)
  then obtain xs ys where x: "rest = xs @ t # ys"
    using assms(2, 3) by (auto simp: in_set_conv_decomp)
  then have d: "t \<notin> set xs" "t \<notin> set ys"
    using r(1) by (auto simp: ring_def)
  have "ring k' (xs @ ys)" "pstCurrentTask k' = pstCurrentTask k"
    using ring_remove [of k xs t ys] r(1) x assms(4) by auto
  moreover have "S - {t} = set (pstCurrentTask k # xs @ ys)"
    using r(2) x d assms(3) by auto
  ultimately show ?thesis
    unfolding ring_of_def by metis
qed

lemma scheduler_ring: "scheduler S k \<Longrightarrow> ring_of S k"
proof (induction rule: scheduler.induct)
  case (first t k)
  have "pstCurrentTask (snd (Task_Add t (Task_Init k))) = t"
    by (simp add: Task_Add_def Task_Init_def Let_def)
  with ring_first [OF first] show ?case
    unfolding ring_of_def by (intro exI [of _ "[]"]) simp
next
  case (add S k t)
  then obtain rest where r: "ring k rest" "S = set (pstCurrentTask k # rest)"
    by (auto simp: ring_of_def)
  with add.hyps ring_add [of k rest t] show ?case
    unfolding ring_of_def by (intro exI [of _ "t # rest"]) auto
next
  case (remove S k t b k')
  then show ?case by (blast intro: ring_of_remove)
next
  case (switch S k k')
  then show ?case
    unfolding ring_of_def using ring_switch by metis
next
  case (tick S k b k')
  then obtain rest where r: "ring k rest" "S = set (pstCurrentTask k # rest)"
    by (auto simp: ring_of_def)
  obtain b1 k1 where "Task_Tick k = Some (b1, k1)" "ring k1 rest" "pstCurrentTask k1 = pstCurrentTask k"
    by (rule Task_Tick_ring [OF r(1)])
  with tick.hyps r(2) show ?case
    unfolding ring_of_def by auto
next
  case (create S k t name stack stacksize priority func)
  then show ?case
    by (intro ring_of_frame [OF Task_CreateTask_keeps])
qed (auto intro: ring_of_frame [rotated 2] simp: Task_SetQuantum_def Task_Start_def Task_Stop_def
  Task_Sleep_def Task_SetScheduler_def)

fun run_ticks :: "nat \<Rightarrow> kernel \<Rightarrow> kernel option" where
  "run_ticks 0 k = Some k"
| "run_ticks (Suc n) k = (case Task_Tick k of None \<Rightarrow> None | Some (_, k') \<Rightarrow> run_ticks n k')"

lemma run_ticks_ring:
  assumes "ring k rest" "t \<in> set rest"
  shows "\<exists>k'. run_ticks m k = Some k' \<and> tasks k' t = ((\<lambda>s. fst (tick_task s)) ^^ m) (tasks k t)"
  using assms(1)
proof (induction m arbitrary: k)
  case (Suc m)
  obtain b k1 where k1: "Task_Tick k = Some (b, k1)" "ring k1 rest" "tasks k1 t = fst (tick_task (tasks k t))"
    using Task_Tick_ring [OF Suc.prems] assms(2) by metis
  with Suc.IH [OF k1(2)] show ?case
    by (auto simp: funpow_Suc_right simp del: funpow.simps)
qed simp

lemma tick_sleeping:
  assumes "eState s = TASK_SLEEP"
  shows "usTimeLeft s = TIME_FOREVER \<Longrightarrow> fst (tick_task s) = s"
    and "usTimeLeft s = 1 \<Longrightarrow> eState (fst (tick_task s)) = TASK_READY"
    and "usTimeLeft s \<noteq> TIME_FOREVER \<Longrightarrow> usTimeLeft s \<noteq> 1 \<Longrightarrow> fst (tick_task s) = s\<lparr>usTimeLeft := usTimeLeft s - 1\<rparr>"
  using assms by (auto simp: tick_task_def Let_def)

lemma ticks_ready: "eState s = TASK_READY \<Longrightarrow> ((\<lambda>s. fst (tick_task s)) ^^ m) s = s"
  by (induction m) (auto simp: tick_task_def)

lemma ticks_forever:
  "eState s = TASK_SLEEP \<Longrightarrow> usTimeLeft s = TIME_FOREVER \<Longrightarrow> ((\<lambda>s. fst (tick_task s)) ^^ m) s = s"
  by (induction m) (auto simp: tick_sleeping)

lemma ticks_sleeping:
  assumes "eState s = TASK_SLEEP"
  shows "eState (((\<lambda>s. fst (tick_task s)) ^^ m) s) =
    (if usTimeLeft s \<noteq> 0 \<and> usTimeLeft s \<noteq> TIME_FOREVER \<and> unat (usTimeLeft s) \<le> m then TASK_READY else TASK_SLEEP)"
  using assms
proof (induction m arbitrary: s)
  case 0
  then show ?case by (auto simp: unat_eq_0)
next
  case (Suc m)
  consider (forever) "usTimeLeft s = TIME_FOREVER" | (one) "usTimeLeft s = 1" | (zero) "usTimeLeft s = 0"
    | (more) "usTimeLeft s \<noteq> TIME_FOREVER" "usTimeLeft s \<noteq> 1" "usTimeLeft s \<noteq> 0"
    by blast
  then show ?case
  proof cases
    case forever
    then show ?thesis
      using ticks_forever [OF Suc.prems forever, of "Suc m"] Suc.prems by simp
  next
    case one
    then have "eState (fst (tick_task s)) = TASK_READY"
      using tick_sleeping(2) [OF Suc.prems] by simp
    with one show ?thesis
      using ticks_ready [of "fst (tick_task s)" m] by (simp add: funpow_Suc_right del: funpow.simps)
  next
    case zero
    define s1 where "s1 = s\<lparr>usTimeLeft := TIME_FOREVER\<rparr>"
    have "fst (tick_task s) = s1"
      using tick_sleeping(3) [OF Suc.prems] zero by (simp add: s1_def)
    moreover have "eState s1 = TASK_SLEEP" "usTimeLeft s1 = TIME_FOREVER"
      using Suc.prems by (simp_all add: s1_def)
    ultimately show ?thesis
      using ticks_forever [of s1 m] zero by (simp add: funpow_Suc_right del: funpow.simps)
  next
    case more
    define s1 where "s1 = s\<lparr>usTimeLeft := usTimeLeft s - 1\<rparr>"
    have "fst (tick_task s) = s1" "eState s1 = TASK_SLEEP"
      using tick_sleeping(3) [OF Suc.prems] more Suc.prems by (simp_all add: s1_def)
    moreover have "unat (usTimeLeft s - 1) = unat (usTimeLeft s) - 1" "unat (usTimeLeft s) \<noteq> 0"
      using more(3) by (simp_all add: unat_minus_one unat_eq_0)
    moreover have "usTimeLeft s - 1 \<noteq> 0" "usTimeLeft s - 1 \<noteq> TIME_FOREVER"
      using more by (auto simp: diff_eq_eq)
    ultimately show ?thesis
      using Suc.IH [of s1] more by (auto simp: funpow_Suc_right s1_def simp del: funpow.simps)
  qed
qed

section \<open>Properties\<close>

text \<open>Small kernels for the instances below: nothing known of the tasks, and two tasks added.\<close>

definition blank_task :: TASK_STRUCT where
  "blank_task = \<lparr>pwTopStack = 0, pwStack = 0, usStackSize = 0, usStackMargin = 0, pacName = 0, pfTaskFunc = 0,
    ucPriority = 1, eState = TASK_UNINIT, usTimeLeft = 0, usQuantum = 1, bTimeout = False, ucMutexPriority = 0,
    pstNext = 0, pstNextList = 0\<rparr>"

definition blank_kernel :: kernel where
  "blank_kernel = \<lparr>tasks = \<lambda>_. blank_task, ram = \<lambda>_. 0, pstCurrentTask = 0, sCriticalCount = 0,
    bGlobalTaskEnable = True, swi_pending = False\<rparr>"

definition two_tasks :: kernel where
  "two_tasks = snd (Task_Add 2 (snd (Task_Add 1 (Task_Init blank_kernel))))"

lemma two_tasks_ring: "ring two_tasks [2]" "pstCurrentTask two_tasks = 1"
  by (simp_all add: ring_def two_tasks_def Task_Add_def Task_Init_def Let_def upd_task_def blank_kernel_def)

lemma two_tasks_scheduler: "scheduler {2, 1} two_tasks"
  unfolding two_tasks_def by (rule scheduler.add [OF scheduler.first]) simp_all



text \<open>
  C7. The context switch is priority-based and round-robin: among the tasks of the list, in the
  order that starts behind the current task and ends with it, it runs the first ready task of the
  highest priority any ready task has; only its time slice and its stack margin are changed.  When
  no task is ready it runs the task behind the current one.
\<close>

theorem task_switch_round_robin:
  assumes "ring k rest"
  shows "\<exists>k' t. Task_Switch k = Some k' \<and> pstCurrentTask k' = t \<and>
    next_task (tasks k) (rest @ [pstCurrentTask k]) t \<and>
    (\<forall>u. u \<noteq> t \<longrightarrow> tasks k' u = tasks k u) \<and>
    tasks k' t = (tasks k t)\<lparr>usTimeLeft := usQuantum (tasks k t),
      usStackMargin := of_nat (stack_margin (ram k) (pwStack (tasks k t)) (unat (usStackSize (tasks k t))))\<rparr>"
  by (rule Task_Switch_ring [OF assms]) (simp add: Task_StackCheck_def)

theorem task_switch_round_robin_witness:
  "ring two_tasks [2] \<and> (\<exists>k' t. Task_Switch two_tasks = Some k' \<and> pstCurrentTask k' = t \<and>
     next_task (tasks two_tasks) [2, 1] t)"
  using task_switch_round_robin [OF two_tasks_ring(1)] two_tasks_ring by auto



text \<open>
  A task that removes itself leaves the scheduler on a structure that is no longer in the list:
  the context switch that follows runs through a NULL pointer.
\<close>

theorem task_remove_self:
  assumes "ring k rest"
  shows "\<exists>k'. Task_Remove (pstCurrentTask k) k = Some (False, k') \<and> Task_Switch k' = None"
proof -
  let ?c = "pstCurrentTask k"
  have "remove_loop (tasks k) ?c ?c (pstNext (tasks k ?c)) = Some (last (?c # rest))" "?c \<noteq> 0"
    using assms remove_loop_segment [of "tasks k" "pstNext (tasks k ?c)" rest ?c ?c] by (auto simp: ring_def)
  then obtain k' where k': "Task_Remove ?c k = Some (False, k')" "pstNext (tasks k' ?c) = 0" "pstCurrentTask k' = ?c"
    by (simp add: Task_Remove_def Let_def)
  have "priority_loop (tasks k') ?c 0 h = None" for h
    by (subst priority_loop.simps) simp
  then have "priority_loop (tasks k') ?c ?c 0 = None"
    using \<open>?c \<noteq> 0\<close> k'(2) by (subst priority_loop.simps) (simp add: Let_def)
  with k' show ?thesis
    by (auto simp: Task_Switch_def)
qed

theorem task_remove_self_witness:
  "ring two_tasks [2] \<and> (\<exists>k'. Task_Remove 1 two_tasks = Some (False, k') \<and> Task_Switch k' = None)"
  using task_remove_self [OF two_tasks_ring(1)] two_tasks_ring by simp

end
