(* ===== verification/Funk_Sync.thy ===== *)
theory Funk_Sync
  imports Funk_Task
begin

text \<open>
  The semaphores and the mutexes of the FunkOS kernel (\<^verbatim>\<open>funkos/kernel/semaphore.c\<close>, \<^verbatim>\<open>mutex.c\<close>).  Both keep the tasks
  that wait in a NULL-terminated list through \<^verbatim>\<open>pstNextList\<close>.  A call that blocks is two
  definitions, cut where the code yields: what it does before the context switch, and what it does
  when the task runs again.
\<close>

section \<open>Semaphores\<close>

record SEMAPHORE_STRUCT =
  usSem :: u16
  usMax :: u16
  pstTask :: nat

definition Semaphore_Init :: SEMAPHORE_STRUCT where
  "Semaphore_Init = \<lparr>usSem = 0, usMax = 1, pstTask = 0\<rparr>"

definition Semaphore_AddToList :: "SEMAPHORE_STRUCT \<Rightarrow> nat \<Rightarrow> kernel \<Rightarrow> SEMAPHORE_STRUCT \<times> kernel" where
  "Semaphore_AddToList s t k =
    (let k' = (if pstTask s = 0 then upd_task t (\<lambda>x. x\<lparr>pstNextList := 0\<rparr>) k
               else upd_task t (\<lambda>x. x\<lparr>pstNextList := pstTask s\<rparr>) k)
     in (s\<lparr>pstTask := t\<rparr>, k'))"

text \<open>The search for a task in a wait list: the last two pointers of the walk.\<close>

partial_function (option) find_loop :: "(nat \<Rightarrow> TASK_STRUCT) \<Rightarrow> nat \<Rightarrow> nat \<Rightarrow> nat \<Rightarrow> (nat \<times> nat) option" where
  "find_loop ts t prev cur =
    (if cur \<noteq> t \<and> cur \<noteq> 0 then find_loop ts t cur (pstNextList (ts cur)) else Some (prev, cur))"

definition Semaphore_DeleteFromList :: "SEMAPHORE_STRUCT \<Rightarrow> nat \<Rightarrow> kernel \<Rightarrow> (SEMAPHORE_STRUCT \<times> kernel) option" where
  "Semaphore_DeleteFromList s t k =
    (case find_loop (tasks k) t (pstTask s) (pstTask s) of
       None \<Rightarrow> None
     | Some (prev, cur) \<Rightarrow>
         if cur = 0 then Some (s, k)
         else
           let nxt = pstNextList (tasks k cur);
               (s1, k1) = (if prev \<noteq> pstTask s then (s, upd_task prev (\<lambda>x. x\<lparr>pstNextList := nxt\<rparr>) k)
                           else (s\<lparr>pstTask := nxt\<rparr>, k))
           in Some (s1, upd_task t (\<lambda>x. x\<lparr>pstNextList := 0\<rparr>) k1))"

text \<open>The search for the waiting task of the highest priority, by the given priority field.\<close>

partial_function (option) chosen_loop ::
    "(TASK_STRUCT \<Rightarrow> u8) \<Rightarrow> (nat \<Rightarrow> TASK_STRUCT) \<Rightarrow> nat \<Rightarrow> u8 \<Rightarrow> nat \<Rightarrow> nat option" where
  "chosen_loop pri ts cur ucMaxPri chosen =
    (if cur = 0 then Some chosen
     else if ucMaxPri < pri (ts cur) then chosen_loop pri ts (pstNextList (ts cur)) (pri (ts cur)) cur
     else chosen_loop pri ts (pstNextList (ts cur)) ucMaxPri chosen)"

definition Semaphore_WakeNextPending :: "SEMAPHORE_STRUCT \<Rightarrow> kernel \<Rightarrow> (SEMAPHORE_STRUCT \<times> kernel) option" where
  "Semaphore_WakeNextPending s k =
    (case chosen_loop ucPriority (tasks k) (pstTask s) 0 (pstTask s) of
       None \<Rightarrow> None
     | Some t \<Rightarrow>
         (case Semaphore_DeleteFromList s t k of
            None \<Rightarrow> None
          | Some (s', k') \<Rightarrow> Some (s', upd_task t (\<lambda>x. x\<lparr>eState := TASK_READY\<rparr>) k')))"

text \<open>
  \<^verbatim>\<open>Semaphore_Pend\<close>: the first part tells whether the task has to wait, in which case the context
  switch is requested; the second part is the return value after the wait.
\<close>

definition Semaphore_Pend :: "SEMAPHORE_STRUCT \<Rightarrow> u16 \<Rightarrow> kernel \<Rightarrow> bool \<times> SEMAPHORE_STRUCT \<times> kernel" where
  "Semaphore_Pend s time k =
    (let t = Task_GetCurrentTask k
     in if usSem s \<noteq> 0 then (False, s\<lparr>usSem := usSem s - 1\<rparr>, k)
        else
          let k1 = upd_task t (\<lambda>x. x\<lparr>eState := TASK_BLOCKED, usTimeLeft := time\<rparr>) k;
              (s', k2) = Semaphore_AddToList s t k1
          in (True, s', Task_YieldSWI k2))"

definition Semaphore_Pend_resume :: "nat \<Rightarrow> SEMAPHORE_STRUCT \<Rightarrow> kernel \<Rightarrow> (bool \<times> SEMAPHORE_STRUCT \<times> kernel) option" where
  "Semaphore_Pend_resume t s k =
    (if bTimeout (tasks k t)
     then (case Semaphore_DeleteFromList s t k of
             None \<Rightarrow> None
           | Some (s', k') \<Rightarrow> Some (False, s', upd_task t (\<lambda>x. x\<lparr>bTimeout := False\<rparr>) k'))
     else Some (True, s, k))"

definition Semaphore_Post :: "SEMAPHORE_STRUCT \<Rightarrow> kernel \<Rightarrow> (SEMAPHORE_STRUCT \<times> kernel) option" where
  "Semaphore_Post s k =
    (if pstTask s = 0
     then Some (if usSem s < usMax s then s\<lparr>usSem := usSem s + 1\<rparr> else s, k)
     else
       case Semaphore_WakeNextPending s k of
         None \<Rightarrow> None
       | Some (s', k') \<Rightarrow> Some (s', Task_YieldSWI k'))"

section \<open>Mutexes\<close>

record MUTEX_STRUCT =
  mx_usSem :: u16
  ucMaxPri :: u8
  mx_pstTask :: nat

definition Mutex_Init :: MUTEX_STRUCT where
  "Mutex_Init = \<lparr>mx_usSem = 1, ucMaxPri = 0, mx_pstTask = 0\<rparr>"

definition Mutex_AddToList :: "MUTEX_STRUCT \<Rightarrow> nat \<Rightarrow> kernel \<Rightarrow> MUTEX_STRUCT \<times> kernel" where
  "Mutex_AddToList mx t k =
    (let k' = (if mx_pstTask mx = 0 then upd_task t (\<lambda>x. x\<lparr>pstNextList := 0\<rparr>) k
               else upd_task t (\<lambda>x. x\<lparr>pstNextList := mx_pstTask mx\<rparr>) k)
     in (mx\<lparr>mx_pstTask := t\<rparr>, k'))"

definition Mutex_DeleteFromList :: "MUTEX_STRUCT \<Rightarrow> nat \<Rightarrow> kernel \<Rightarrow> (MUTEX_STRUCT \<times> kernel) option" where
  "Mutex_DeleteFromList mx t k =
    (case find_loop (tasks k) t (mx_pstTask mx) (mx_pstTask mx) of
       None \<Rightarrow> None
     | Some (prev, cur) \<Rightarrow>
         if cur = 0 then Some (mx, k)
         else
           let nxt = pstNextList (tasks k cur);
               (mx1, k1) = (if prev \<noteq> mx_pstTask mx then (mx, upd_task prev (\<lambda>x. x\<lparr>pstNextList := nxt\<rparr>) k)
                            else (mx\<lparr>mx_pstTask := nxt\<rparr>, k))
           in Some (mx1, upd_task t (\<lambda>x. x\<lparr>pstNextList := 0\<rparr>) k1))"

definition Mutex_WakeNextPending :: "MUTEX_STRUCT \<Rightarrow> kernel \<Rightarrow> (MUTEX_STRUCT \<times> kernel) option" where
  "Mutex_WakeNextPending mx k =
    (if mx_pstTask mx = 0 then Some (mx\<lparr>ucMaxPri := 0, mx_usSem := 1, mx_pstTask := 0\<rparr>, k)
     else
       case chosen_loop ucMutexPriority (tasks k) (mx_pstTask mx) 0 (mx_pstTask mx) of
         None \<Rightarrow> None
       | Some t \<Rightarrow>
           (case Mutex_DeleteFromList mx t k of
              None \<Rightarrow> None
            | Some (mx', k') \<Rightarrow> Some (mx', upd_task t (\<lambda>x. x\<lparr>eState := TASK_READY\<rparr>) k')))"

partial_function (option) inherit_loop :: "u8 \<Rightarrow> nat \<Rightarrow> kernel \<Rightarrow> kernel option" where
  "inherit_loop p cur k =
    (if cur = 0 then Some k
     else
       let k' = upd_task cur (\<lambda>x. x\<lparr>ucPriority := p\<rparr>) k
       in inherit_loop p (pstNextList (tasks k' cur)) k')"

definition Mutex_InheritPriority :: "MUTEX_STRUCT \<Rightarrow> u8 \<Rightarrow> kernel \<Rightarrow> (MUTEX_STRUCT \<times> kernel) option" where
  "Mutex_InheritPriority mx p k =
    (if ucMaxPri mx < p
     then (case inherit_loop p (mx_pstTask mx) k of None \<Rightarrow> None | Some k' \<Rightarrow> Some (mx\<lparr>ucMaxPri := p\<rparr>, k'))
     else Some (mx, k))"

definition Mutex_Claim :: "MUTEX_STRUCT \<Rightarrow> u16 \<Rightarrow> kernel \<Rightarrow> (bool \<times> MUTEX_STRUCT \<times> kernel) option" where
  "Mutex_Claim mx time k =
    (let k0 = snd (Task_SchedulerDisable k);
         t = Task_GetCurrentTask k0;
         k1 = upd_task t (\<lambda>x. x\<lparr>ucMutexPriority := ucPriority x\<rparr>) k0
     in if mx_usSem mx \<noteq> 0
        then Some (False, mx\<lparr>mx_usSem := 0, ucMaxPri := ucPriority (tasks k1 t)\<rparr>, Task_SchedulerRestore True k1)
        else
          let k2 = upd_task t (\<lambda>x. x\<lparr>eState := TASK_BLOCKED, usTimeLeft := time\<rparr>) k1;
              (mx', k3) = Mutex_AddToList mx t k2
          in case Mutex_InheritPriority mx' (ucPriority (tasks k3 t)) k3 of
               None \<Rightarrow> None
             | Some (mx'', k4) \<Rightarrow> Some (True, mx'', Task_YieldSWI (Task_SchedulerRestore True k4)))"

definition Mutex_Claim_resume :: "nat \<Rightarrow> MUTEX_STRUCT \<Rightarrow> kernel \<Rightarrow> (bool \<times> MUTEX_STRUCT \<times> kernel) option" where
  "Mutex_Claim_resume t mx k =
    (let k0 = snd (Task_SchedulerDisable k)
     in if bTimeout (tasks k0 t)
        then (case Mutex_DeleteFromList mx t k0 of
                None \<Rightarrow> None
              | Some (mx', k1) \<Rightarrow>
                  Some (False, mx', Task_SchedulerRestore True (upd_task t (\<lambda>x. x\<lparr>bTimeout := False\<rparr>) k1)))
        else Some (True, mx, Task_SchedulerRestore True k0))"

definition Mutex_Release :: "MUTEX_STRUCT \<Rightarrow> kernel \<Rightarrow> (MUTEX_STRUCT \<times> kernel) option" where
  "Mutex_Release mx k =
    (let k0 = snd (Task_SchedulerDisable k);
         t = Task_GetCurrentTask k0;
         k1 = upd_task t (\<lambda>x. x\<lparr>ucPriority := ucMutexPriority x, ucMutexPriority := 0\<rparr>) k0
     in if mx_pstTask mx = 0 then Some (mx\<lparr>mx_usSem := 1\<rparr>, Task_SchedulerRestore True k1)
        else
          case Mutex_WakeNextPending mx k1 of
            None \<Rightarrow> None
          | Some (mx', k2) \<Rightarrow> Some (mx', Task_YieldSWI (Task_SchedulerRestore True k2)))"

section \<open>Wait lists\<close>

fun pending :: "(nat \<Rightarrow> TASK_STRUCT) \<Rightarrow> nat \<Rightarrow> nat list \<Rightarrow> bool" where
  "pending ts p [] \<longleftrightarrow> p = 0"
| "pending ts p (x # xs) \<longleftrightarrow> p = x \<and> x \<noteq> 0 \<and> pending ts (pstNextList (ts x)) xs"

lemma pending_unique: "pending ts p xs \<Longrightarrow> pending ts p ys \<Longrightarrow> xs = ys"
proof (induction xs arbitrary: p ys)
  case Nil
  then show ?case by (cases ys) auto
next
  case (Cons x xs)
  then show ?case by (cases ys) auto
qed

lemma pending_suffix: "pending ts p (xs @ x # ys) \<Longrightarrow> pending ts x (x # ys)"
  by (induction xs arbitrary: p) auto

lemma pending_distinct: "pending ts p xs \<Longrightarrow> distinct xs"
proof (induction xs arbitrary: p)
  case (Cons x xs)
  have "x \<notin> set xs"
  proof
    assume "x \<in> set xs"
    then obtain ys zs where xs: "xs = ys @ x # zs"
      by (auto simp: in_set_conv_decomp)
    then have "pending ts x (x # zs)"
      using Cons.prems pending_suffix [of ts p "x # ys" x zs] by simp
    then have "x # zs = x # xs"
      using Cons.prems pending_unique [of ts x "x # zs" "x # xs"] by simp
    with xs show False by simp
  qed
  with Cons show ?case by auto
qed simp

lemma pending_nonzero: "pending ts p xs \<Longrightarrow> 0 \<notin> set xs"
  by (induction xs arbitrary: p) auto

lemma pending_frame: "(\<forall>x\<in>set xs. pstNextList (ts' x) = pstNextList (ts x)) \<Longrightarrow> pending ts' p xs = pending ts p xs"
  by (induction xs arbitrary: p) auto

lemma pending_upd [simp]: "t \<notin> set xs \<Longrightarrow> pending (ts(t := v)) p xs = pending ts p xs"
  "t \<notin> set xs \<Longrightarrow> pending (\<lambda>a. if a = t then v else ts a) p xs = pending ts p xs"
  by (rule pending_frame, force)+

lemma find_loop_pending:
  "pending ts p (ys @ t # zs) \<Longrightarrow> t \<notin> set ys \<Longrightarrow> find_loop ts t prev p = Some (last (prev # ys), t)"
proof (induction ys arbitrary: p prev)
  case Nil
  then show ?case by (subst find_loop.simps) simp
next
  case (Cons y ys)
  then show ?case by (subst find_loop.simps) auto
qed

lemma pending_relink:
  "pending ts p (ys @ t # zs) \<Longrightarrow> ys \<noteq> [] \<Longrightarrow>
    pending (ts(last ys := (ts (last ys))\<lparr>pstNextList := pstNextList (ts t)\<rparr>)) p (ys @ zs)"
proof (induction ys arbitrary: p)
  case (Cons y ys)
  have d: "distinct ((y # ys) @ t # zs)"
    using pending_distinct [OF Cons.prems(1)] .
  show ?case
  proof (cases ys)
    case Nil
    with Cons.prems d show ?thesis
      by auto
  next
    case (Cons a as)
    then have "last ys \<noteq> y"
      using d last_in_set [of ys] by auto
    with Cons Cons.IH [of "pstNextList (ts y)"] Cons.prems show ?thesis by simp
  qed
qed simp

text \<open>What remains of a wait list when the code deletes its element behind \<^term>\<open>ys\<close>.\<close>

definition after_delete :: "nat list \<Rightarrow> nat list \<Rightarrow> nat list" where
  "after_delete ys zs = (if length ys = 1 then zs else ys @ zs)"

lemma delete_pending:
  assumes "pending (tasks k) h (ys @ t # zs)"
  shows "find_loop (tasks k) t h h = Some (last (h # ys), t)" "t \<noteq> 0"
    and "length ys \<le> 1 \<Longrightarrow> last (h # ys) = h \<and>
      pending ((tasks k)(t := (tasks k t)\<lparr>pstNextList := 0\<rparr>)) (pstNextList (tasks k t)) (after_delete ys zs)"
    and "1 < length ys \<Longrightarrow> last (h # ys) \<noteq> h \<and> last (h # ys) \<noteq> t \<and>
      pending ((tasks k)(last (h # ys) := (tasks k (last (h # ys)))\<lparr>pstNextList := pstNextList (tasks k t)\<rparr>,
        t := (tasks k t)\<lparr>pstNextList := 0\<rparr>)) h (after_delete ys zs)"
proof -
  have d: "distinct (ys @ t # zs)"
    by (rule pending_distinct [OF assms])
  show "find_loop (tasks k) t h h = Some (last (h # ys), t)"
    by (rule find_loop_pending [OF assms]) (use d in auto)
  have suffix: "pending (tasks k) t (t # zs)"
    by (rule pending_suffix [OF assms])
  then show "t \<noteq> 0" by simp
  show "last (h # ys) = h \<and>
      pending ((tasks k)(t := (tasks k t)\<lparr>pstNextList := 0\<rparr>)) (pstNextList (tasks k t)) (after_delete ys zs)"
    if "length ys \<le> 1"
    using that assms suffix d by (cases ys) (auto simp: after_delete_def)
  show "last (h # ys) \<noteq> h \<and> last (h # ys) \<noteq> t \<and>
      pending ((tasks k)(last (h # ys) := (tasks k (last (h # ys)))\<lparr>pstNextList := pstNextList (tasks k t)\<rparr>,
        t := (tasks k t)\<lparr>pstNextList := 0\<rparr>)) h (after_delete ys zs)"
    if len: "1 < length ys"
  proof -
    obtain y ys' where ys: "ys = y # ys'" "ys' \<noteq> []"
      using len by (cases ys) auto
    then have l: "last (h # ys) = last ys'" "last ys' \<in> set ys'"
      by simp_all
    with assms d ys have ne: "last (h # ys) \<noteq> h" "last (h # ys) \<noteq> t"
      by auto
    have "pending ((tasks k)(last (h # ys) := (tasks k (last (h # ys)))\<lparr>pstNextList := pstNextList (tasks k t)\<rparr>)) h (ys @ zs)"
      using pending_relink [OF assms] ys by simp
    moreover have "after_delete ys zs = ys @ zs"
      using len by (simp add: after_delete_def)
    moreover have "t \<notin> set (ys @ zs)"
      using d by auto
    ultimately show ?thesis
      using ne by simp
  qed
qed

definition choose_step :: "(TASK_STRUCT \<Rightarrow> u8) \<Rightarrow> (nat \<Rightarrow> TASK_STRUCT) \<Rightarrow> nat \<Rightarrow> u8 \<times> nat \<Rightarrow> u8 \<times> nat" where
  "choose_step pri ts x = (\<lambda>(mx, c). if mx < pri (ts x) then (pri (ts x), x) else (mx, c))"

lemma choose_step_apply:
  "choose_step pri ts x (mx, c) = (if mx < pri (ts x) then (pri (ts x), x) else (mx, c))"
  by (simp add: choose_step_def)

lemma chosen_loop_fold:
  "pending ts p xs \<Longrightarrow> chosen_loop pri ts p mx ch = Some (snd (fold (choose_step pri ts) xs (mx, ch)))"
proof (induction xs arbitrary: p mx ch)
  case Nil
  then show ?case by (subst chosen_loop.simps) simp
next
  case (Cons x xs)
  then show ?case by (subst chosen_loop.simps) (auto simp: choose_step_apply)
qed

lemma choose_fold:
  assumes "fold (choose_step pri ts) xs (mx, ch) = (mx', c)"
  shows "mx \<le> mx' \<and> (\<forall>x\<in>set xs. pri (ts x) \<le> mx') \<and>
    (mx' = mx \<and> c = ch \<or> (\<exists>ys zs. xs = ys @ c # zs \<and> mx' = pri (ts c) \<and> (\<forall>x\<in>set ys. pri (ts x) < mx')))"
  using assms
proof (induction xs arbitrary: mx' c rule: rev_induct)
  case (snoc x xs)
  obtain m1 c1 where f: "fold (choose_step pri ts) xs (mx, ch) = (m1, c1)"
    by fastforce
  have IH: "mx \<le> m1" "\<forall>x\<in>set xs. pri (ts x) \<le> m1"
    "m1 = mx \<and> c1 = ch \<or> (\<exists>ys zs. xs = ys @ c1 # zs \<and> m1 = pri (ts c1) \<and> (\<forall>x\<in>set ys. pri (ts x) < m1))"
    using snoc.IH [OF f] by blast+
  show ?case
  proof (cases "m1 < pri (ts x)")
    case True
    then have c: "mx' = pri (ts x)" "c = x"
      using snoc.prems f by (auto simp: choose_step_apply)
    have less: "\<forall>y\<in>set xs. pri (ts y) < mx'" "mx \<le> mx'"
      using IH(1, 2) True c(1) by (blast intro: le_less_trans, simp)
    then have "\<forall>y\<in>set (xs @ [x]). pri (ts y) \<le> mx'"
      using c(1) by (simp add: less_imp_le)
    moreover have "xs @ [x] = xs @ c # [] \<and> mx' = pri (ts c) \<and> (\<forall>y\<in>set xs. pri (ts y) < mx')"
      using c less(1) by blast
    ultimately show ?thesis
      using less(2) by blast
  next
    case False
    then have c: "mx' = m1" "c = c1" "pri (ts x) \<le> m1"
      using snoc.prems f by (auto simp: choose_step_apply)
    have "\<forall>y\<in>set (xs @ [x]). pri (ts y) \<le> mx'"
      using IH(2) c by simp
    moreover have "xs @ [x] = ys @ c # (zs @ [x])" if "xs = ys @ c1 # zs" for ys zs
      using that c(2) by simp
    ultimately show ?thesis
      using IH(1, 3) c(1, 2) by blast
  qed
qed simp

text \<open>The chosen task is the first one of the highest priority.\<close>

lemma chosen_loop_pending:
  assumes "pending ts p xs" "xs \<noteq> []"
  obtains ys t zs where "chosen_loop pri ts p 0 p = Some t" "xs = ys @ t # zs"
    "\<forall>x\<in>set xs. pri (ts x) \<le> pri (ts t)" "\<forall>x\<in>set ys. pri (ts x) < pri (ts t)"
proof -
  obtain m c where f: "fold (choose_step pri ts) xs (0, p) = (m, c)"
    by fastforce
  have loop: "chosen_loop pri ts p 0 p = Some c"
    using chosen_loop_fold [OF assms(1), of pri 0 p] f by simp
  note F = choose_fold [OF f]
  show ?thesis
  proof (cases "m = 0 \<and> c = p")
    case True
    obtain xs' where "xs = [] @ c # xs'"
      using assms True by (cases xs) auto
    moreover have "\<forall>x\<in>set xs. pri (ts x) \<le> pri (ts c)"
      using F True by simp
    ultimately show ?thesis
      using that [OF loop, of "[]" xs'] by simp
  next
    case False
    then obtain ys zs where "xs = ys @ c # zs" "m = pri (ts c)" "\<forall>x\<in>set ys. pri (ts x) < m"
      using F by blast
    with F that [OF loop, of ys zs] show ?thesis by simp
  qed
qed

section \<open>The wait list as an interface\<close>

text \<open>
  What the semaphore and the mutex promise of their wait lists: adding puts a task in front, and
  deleting a task leaves \<^const>\<open>after_delete\<close>, which is the rest of the list except when the task is the
  second one.  Waking is choosing by a priority, deleting and making ready.
\<close>

definition only_links :: "kernel \<Rightarrow> kernel \<Rightarrow> bool" where
  "only_links k k' \<longleftrightarrow> pstCurrentTask k' = pstCurrentTask k \<and>
    (\<forall>u. tasks k' u = (tasks k u)\<lparr>pstNextList := pstNextList (tasks k' u)\<rparr>)"

lemma only_links_fields:
  assumes "only_links k k'"
  shows "eState (tasks k' u) = eState (tasks k u)" "ucPriority (tasks k' u) = ucPriority (tasks k u)"
    "ucMutexPriority (tasks k' u) = ucMutexPriority (tasks k u)"
proof -
  have u: "tasks k' u = (tasks k u)\<lparr>pstNextList := pstNextList (tasks k' u)\<rparr>"
    using assms unfolding only_links_def by blast
  show "eState (tasks k' u) = eState (tasks k u)" "ucPriority (tasks k' u) = ucPriority (tasks k u)"
    "ucMutexPriority (tasks k' u) = ucMutexPriority (tasks k u)"
    by (subst u, simp)+
qed

locale wait_list =
  fixes list_head :: "'s \<Rightarrow> nat"
    and add_to :: "'s \<Rightarrow> nat \<Rightarrow> kernel \<Rightarrow> 's \<times> kernel"
    and delete_from :: "'s \<Rightarrow> nat \<Rightarrow> kernel \<Rightarrow> ('s \<times> kernel) option"
    and wake :: "'s \<Rightarrow> kernel \<Rightarrow> ('s \<times> kernel) option"
    and pri :: "TASK_STRUCT \<Rightarrow> u8"
  assumes add_law: "add_to s t k = (s', k') \<Longrightarrow>
      list_head s' = t \<and> k' = upd_task t (\<lambda>x. x\<lparr>pstNextList := list_head s\<rparr>) k"
    and delete_law: "pending (tasks k) (list_head s) (ys @ t # zs) \<Longrightarrow>
      \<exists>s' k'. delete_from s t k = Some (s', k') \<and> pending (tasks k') (list_head s') (after_delete ys zs) \<and> only_links k k'"
    and wake_law: "list_head s \<noteq> 0 \<Longrightarrow> wake s k =
      (case chosen_loop pri (tasks k) (list_head s) 0 (list_head s) of
         None \<Rightarrow> None
       | Some t \<Rightarrow>
           (case delete_from s t k of
              None \<Rightarrow> None
            | Some (s', k') \<Rightarrow> Some (s', upd_task t (\<lambda>x. x\<lparr>eState := TASK_READY\<rparr>) k')))"
begin

lemma add_pending:
  assumes "pending (tasks k) (list_head s) xs" "t \<noteq> 0" "t \<notin> set xs" "add_to s t k = (s', k')"
  shows "pending (tasks k') (list_head s') (t # xs)"
  using add_law [OF assms(4)] assms(1-3) by simp

lemma wake_highest:
  assumes p: "pending (tasks k) (list_head s) xs" and ne: "xs \<noteq> []"
  shows "\<exists>ys t zs s' k'. xs = ys @ t # zs \<and> wake s k = Some (s', k') \<and>
    (\<forall>x\<in>set xs. pri (tasks k x) \<le> pri (tasks k t)) \<and> (\<forall>x\<in>set ys. pri (tasks k x) < pri (tasks k t)) \<and>
    eState (tasks k' t) = TASK_READY \<and> (\<forall>u. u \<noteq> t \<longrightarrow> eState (tasks k' u) = eState (tasks k u)) \<and>
    (\<forall>u. ucPriority (tasks k' u) = ucPriority (tasks k u)) \<and> pending (tasks k') (list_head s') (after_delete ys zs)"
proof -
  obtain ys t zs where c: "chosen_loop pri (tasks k) (list_head s) 0 (list_head s) = Some t" "xs = ys @ t # zs"
    "\<forall>x\<in>set xs. pri (tasks k x) \<le> pri (tasks k t)" "\<forall>x\<in>set ys. pri (tasks k x) < pri (tasks k t)"
    by (rule chosen_loop_pending [OF p ne])
  obtain s' k' where d: "delete_from s t k = Some (s', k')" "pending (tasks k') (list_head s') (after_delete ys zs)"
    and same: "only_links k k'"
    using delete_law [of k s ys t zs] p c(2) by blast
  have "list_head s \<noteq> 0"
    using p ne by (cases xs) auto
  then have w: "wake s k = Some (s', upd_task t (\<lambda>x. x\<lparr>eState := TASK_READY\<rparr>) k')"
    using wake_law c(1) d(1) by simp
  have "pending (tasks (upd_task t (\<lambda>x. x\<lparr>eState := TASK_READY\<rparr>) k')) (list_head s') (after_delete ys zs)"
    using d(2) by (subst pending_frame [where ts = "tasks k'"]) auto
  then show ?thesis
    using c w only_links_fields(1, 2) [OF same] by (intro exI [of _ ys] exI [of _ t] exI [of _ zs]) auto
qed

end

lemma delete_result:
  assumes "pending (tasks k) h (ys @ t # zs)"
  shows "\<exists>h' k'. (if last (h # ys) \<noteq> h then (h, upd_task (last (h # ys)) (\<lambda>x. x\<lparr>pstNextList := pstNextList (tasks k t)\<rparr>) k)
      else (pstNextList (tasks k t), k)) = (h', k') \<and>
    pending (tasks (upd_task t (\<lambda>x. x\<lparr>pstNextList := 0\<rparr>) k')) h' (after_delete ys zs) \<and>
    only_links k (upd_task t (\<lambda>x. x\<lparr>pstNextList := 0\<rparr>) k')"
proof (cases "length ys \<le> 1")
  case True
  then show ?thesis
    using delete_pending(3) [OF assms] by (simp add: only_links_def)
next
  case False
  then show ?thesis
    using delete_pending(4) [OF assms] by (simp add: only_links_def)
qed

interpretation sl: wait_list pstTask Semaphore_AddToList Semaphore_DeleteFromList Semaphore_WakeNextPending ucPriority
proof unfold_locales
  fix s t k s' k'
  assume "Semaphore_AddToList s t k = (s', k')"
  then show "pstTask s' = t \<and> k' = upd_task t (\<lambda>x. x\<lparr>pstNextList := pstTask s\<rparr>) k"
    by (auto simp: Semaphore_AddToList_def)
next
  fix k :: kernel and s :: SEMAPHORE_STRUCT and ys t zs
  assume p: "pending (tasks k) (pstTask s) (ys @ t # zs)"
  from delete_result [OF this] delete_pending(1, 2) [OF this]
  show "\<exists>s' k'. Semaphore_DeleteFromList s t k = Some (s', k') \<and> pending (tasks k') (pstTask s') (after_delete ys zs) \<and> only_links k k'"
    by (auto simp: Semaphore_DeleteFromList_def Let_def split: if_splits)
qed (simp add: Semaphore_WakeNextPending_def)

interpretation ml: wait_list mx_pstTask Mutex_AddToList Mutex_DeleteFromList Mutex_WakeNextPending ucMutexPriority
proof unfold_locales
  fix mx t k mx' k'
  assume "Mutex_AddToList mx t k = (mx', k')"
  then show "mx_pstTask mx' = t \<and> k' = upd_task t (\<lambda>x. x\<lparr>pstNextList := mx_pstTask mx\<rparr>) k"
    by (auto simp: Mutex_AddToList_def)
next
  fix k :: kernel and mx :: MUTEX_STRUCT and ys t zs
  assume p: "pending (tasks k) (mx_pstTask mx) (ys @ t # zs)"
  from delete_result [OF this] delete_pending(1, 2) [OF this]
  show "\<exists>mx' k'. Mutex_DeleteFromList mx t k = Some (mx', k') \<and> pending (tasks k') (mx_pstTask mx') (after_delete ys zs) \<and> only_links k k'"
    by (auto simp: Mutex_DeleteFromList_def Let_def split: if_splits)
qed (simp add: Mutex_WakeNextPending_def)

lemma Mutex_Delete_keeps: "Mutex_DeleteFromList mx t k = Some (mx', k') \<Longrightarrow> mx_usSem mx' = mx_usSem mx"
  by (auto simp: Mutex_DeleteFromList_def Let_def split: option.splits if_splits)

lemma Mutex_Wake_keeps: "Mutex_WakeNextPending mx k = Some (mx', k') \<Longrightarrow> mx_pstTask mx \<noteq> 0 \<Longrightarrow> mx_usSem mx' = mx_usSem mx"
  by (auto simp: Mutex_WakeNextPending_def dest: Mutex_Delete_keeps split: option.splits)

lemma inherit_loop_pending:
  "pending (tasks k) p xs \<Longrightarrow>
    inherit_loop v p k = Some (k\<lparr>tasks := \<lambda>u. if u \<in> set xs then (tasks k u)\<lparr>ucPriority := v\<rparr> else tasks k u\<rparr>)"
proof (induction xs arbitrary: p k)
  case Nil
  then show ?case by (subst inherit_loop.simps) simp
next
  case (Cons x xs)
  define k1 where "k1 = upd_task x (\<lambda>s. s\<lparr>ucPriority := v\<rparr>) k"
  have x: "p = x" "x \<noteq> 0" "x \<notin> set xs" "pending (tasks k) (pstNextList (tasks k x)) xs"
    using Cons.prems pending_distinct [OF Cons.prems] by auto
  then have "pending (tasks k1) (pstNextList (tasks k1 x)) xs"
    by (simp add: k1_def)
  moreover have "inherit_loop v p k = inherit_loop v (pstNextList (tasks k1 x)) k1"
    using x by (subst inherit_loop.simps) (simp add: k1_def Let_def)
  ultimately show ?case
    using x(3) by (simp add: Cons.IH) (simp add: k1_def upd_task_def fun_eq_iff)
qed

section \<open>Properties\<close>

text \<open>
  C29. Posting a semaphore tasks wait for wakes exactly one of them, the first of the highest
  priority in the wait list.  The rest of the list stays, except when the woken task is the second
  of the list: then the first one, still blocked, is dropped from the list too.
\<close>

theorem semaphore_post_wakes:
  assumes "pending (tasks k) (pstTask s) xs" "xs \<noteq> []"
  shows "\<exists>ys t zs s' k'. xs = ys @ t # zs \<and> Semaphore_Post s k = Some (s', k') \<and>
    (\<forall>x\<in>set xs. ucPriority (tasks k x) \<le> ucPriority (tasks k t)) \<and>
    (\<forall>x\<in>set ys. ucPriority (tasks k x) < ucPriority (tasks k t)) \<and>
    eState (tasks k' t) = TASK_READY \<and> (\<forall>u. u \<noteq> t \<longrightarrow> eState (tasks k' u) = eState (tasks k u)) \<and>
    pending (tasks k') (pstTask s') (if length ys = 1 then zs else ys @ zs)"
proof -
  obtain ys t zs s' k' where w: "xs = ys @ t # zs" "Semaphore_WakeNextPending s k = Some (s', k')"
    "\<forall>x\<in>set xs. ucPriority (tasks k x) \<le> ucPriority (tasks k t)"
    "\<forall>x\<in>set ys. ucPriority (tasks k x) < ucPriority (tasks k t)"
    "eState (tasks k' t) = TASK_READY" "\<forall>u. u \<noteq> t \<longrightarrow> eState (tasks k' u) = eState (tasks k u)"
    "pending (tasks k') (pstTask s') (after_delete ys zs)"
    using sl.wake_highest [OF assms] by blast
  have "pstTask s \<noteq> 0"
    using assms by (cases xs) auto
  then have "Semaphore_Post s k = Some (s', Task_YieldSWI k')"
    using w(2) by (simp add: Semaphore_Post_def)
  then show ?thesis
    using w unfolding after_delete_def
    by (intro exI [of _ ys] exI [of _ t] exI [of _ zs] exI [of _ s'] exI [of _ "Task_YieldSWI k'"]) simp
qed

text \<open>Two blocked tasks in a wait list: task 1 with priority 1, and behind it task 2 with priority 5.\<close>

definition two_waiting :: kernel where
  "two_waiting = blank_kernel\<lparr>pstCurrentTask := 3, tasks := (\<lambda>_. blank_task)
    (1 := blank_task\<lparr>eState := TASK_BLOCKED, ucPriority := 1, ucMutexPriority := 1, pstNextList := 2\<rparr>,
     2 := blank_task\<lparr>eState := TASK_BLOCKED, ucPriority := 5, ucMutexPriority := 5\<rparr>,
     3 := blank_task\<lparr>eState := TASK_READY, ucPriority := 7\<rparr>)\<rparr>"

lemma two_waiting_pending: "pending (tasks two_waiting) 1 [1, 2]"
  by (simp add: two_waiting_def blank_task_def)

lemma two_waiting_second:
  assumes "[1, 2] = ys @ t # zs" "\<forall>x\<in>set [1, 2]. pri (tasks two_waiting x) \<le> pri (tasks two_waiting t)"
    and "pri = ucPriority \<or> pri = ucMutexPriority"
  shows "ys = [1]" "t = 2" "zs = []"
proof -
  have "ys = [] \<and> t = 1 \<or> ys = [1] \<and> t = 2 \<and> zs = []"
    using assms(1) by (auto simp: Cons_eq_append_conv)
  moreover have "t \<noteq> 1"
    using assms(2, 3) by (auto simp: two_waiting_def blank_task_def word_le_nat_alt)
  ultimately show "ys = [1]" "t = 2" "zs = []"
    by auto
qed

theorem semaphore_post_wakes_witness:
  "\<exists>s' k'. Semaphore_Post \<lparr>usSem = 0, usMax = 1, pstTask = 1\<rparr> two_waiting = Some (s', k') \<and>
    eState (tasks k' 2) = TASK_READY \<and> eState (tasks k' 1) = TASK_BLOCKED \<and> pending (tasks k') (pstTask s') []"
proof -
  let ?s = "\<lparr>usSem = 0, usMax = 1, pstTask = 1\<rparr> :: SEMAPHORE_STRUCT"
  have p: "pending (tasks two_waiting) (pstTask ?s) [1, 2]" "[1, 2 :: nat] \<noteq> []"
    using two_waiting_pending by simp_all
  obtain ys t zs s' k' where w: "[1, 2] = ys @ t # zs" "Semaphore_Post ?s two_waiting = Some (s', k')"
    "\<forall>x\<in>set [1, 2]. ucPriority (tasks two_waiting x) \<le> ucPriority (tasks two_waiting t)"
    "eState (tasks k' t) = TASK_READY" "\<forall>u. u \<noteq> t \<longrightarrow> eState (tasks k' u) = eState (tasks two_waiting u)"
    "pending (tasks k') (pstTask s') (if length ys = 1 then zs else ys @ zs)"
    using semaphore_post_wakes [OF p] by blast
  note c = two_waiting_second [OF w(1, 3)]
  have "eState (tasks two_waiting 1) = TASK_BLOCKED"
    by (simp add: two_waiting_def)
  then show ?thesis
    using w(2, 4-6) c by simp
qed

text \<open>
  C30. Claiming a mutex another task holds blocks the caller: it is put in front of the wait list and
  the mutex stays held.  When the caller's priority is above the highest one the mutex has seen, every
  waiting task gets that priority.  The holder is not in the list and keeps its priority, as does
  every task that does not wait.
\<close>

theorem mutex_claim_blocks:
  assumes "mx_usSem mx = 0" "pending (tasks k) (mx_pstTask mx) xs"
    and "t = pstCurrentTask k" "t \<noteq> 0" "t \<notin> set xs" "p = ucPriority (tasks k t)"
  shows "\<exists>mx' k'. Mutex_Claim mx time k = Some (True, mx', k') \<and> mx_usSem mx' = 0 \<and>
    pending (tasks k') (mx_pstTask mx') (t # xs) \<and> eState (tasks k' t) = TASK_BLOCKED \<and>
    ucMutexPriority (tasks k' t) = p \<and> ucMaxPri mx' = max (ucMaxPri mx) p \<and>
    (\<forall>u\<in>set xs. ucPriority (tasks k' u) = (if ucMaxPri mx < p then p else ucPriority (tasks k u))) \<and>
    (\<forall>u. u \<notin> set (t # xs) \<longrightarrow> tasks k' u = tasks k u)"
proof -
  let ?f = "\<lambda>x. x\<lparr>ucMutexPriority := ucPriority x, eState := TASK_BLOCKED, usTimeLeft := time, pstNextList := mx_pstTask mx\<rparr>"
  define k3 where "k3 = upd_task t ?f (snd (Task_SchedulerDisable k))"
  have dis: "pstCurrentTask (snd (Task_SchedulerDisable k)) = t" "tasks (snd (Task_SchedulerDisable k)) = tasks k"
    by (simp_all add: Task_SchedulerDisable_def Task_SetScheduler_def assms(3))
  have pend: "pending (tasks k3) t (t # xs)"
    using assms(2, 4, 5) by (simp add: k3_def dis)
  have claim: "Mutex_Claim mx time k =
      (case Mutex_InheritPriority (mx\<lparr>mx_pstTask := t\<rparr>) p k3 of
         None \<Rightarrow> None
       | Some (mx'', k4) \<Rightarrow> Some (True, mx'', Task_YieldSWI (Task_SchedulerRestore True k4)))"
    using assms(1, 6) by (simp add: Mutex_Claim_def Mutex_AddToList_def Task_GetCurrentTask_def dis Let_def k3_def upd_task_def)
  have restore: "tasks (Task_SchedulerRestore True k4) = tasks k4" for k4
    by (simp add: Task_SchedulerRestore_def Task_SetScheduler_def)
  show ?thesis
  proof (cases "ucMaxPri mx < p")
    case True
    then have "Mutex_InheritPriority (mx\<lparr>mx_pstTask := t\<rparr>) p k3 = Some (mx\<lparr>mx_pstTask := t, ucMaxPri := p\<rparr>,
        k3\<lparr>tasks := \<lambda>u. if u \<in> set (t # xs) then (tasks k3 u)\<lparr>ucPriority := p\<rparr> else tasks k3 u\<rparr>)"
      using inherit_loop_pending [OF pend, of p] by (simp add: Mutex_InheritPriority_def)
    moreover have "pending (\<lambda>u. if u \<in> set (t # xs) then (tasks k3 u)\<lparr>ucPriority := p\<rparr> else tasks k3 u) t (t # xs)"
      using pend by (subst pending_frame [where ts = "tasks k3"]) auto
    ultimately show ?thesis
      using True assms(1, 5, 6) unfolding claim by (auto simp: restore k3_def dis max_def)
  next
    case False
    then have "Mutex_InheritPriority (mx\<lparr>mx_pstTask := t\<rparr>) p k3 = Some (mx\<lparr>mx_pstTask := t\<rparr>, k3)"
      by (simp add: Mutex_InheritPriority_def)
    then show ?thesis
      using False assms(1, 5, 6) pend unfolding claim by (auto simp: restore k3_def dis max_def)
  qed
qed

theorem mutex_claim_blocks_witness:
  "\<exists>mx' k'. Mutex_Claim \<lparr>mx_usSem = 0, ucMaxPri = 5, mx_pstTask = 1\<rparr> 10 two_waiting = Some (True, mx', k') \<and>
    pending (tasks k') (mx_pstTask mx') [3, 1, 2] \<and> ucPriority (tasks k' 1) = 7 \<and> tasks k' 9 = tasks two_waiting 9"
proof -
  have "pstCurrentTask two_waiting = 3" "ucPriority (tasks two_waiting 3) = 7"
    by (simp_all add: two_waiting_def)
  with mutex_claim_blocks [of "\<lparr>mx_usSem = 0, ucMaxPri = 5, mx_pstTask = 1\<rparr>" two_waiting "[1, 2]" 3 7 10] two_waiting_pending
  show ?thesis
    by auto
qed

text \<open>
  Releasing a mutex that tasks wait for passes it on: the mutex stays held, and exactly one
  waiting task becomes ready, the first one of the highest priority it had when it claimed the mutex.
  The releasing task gets back the priority it had when it claimed.  With no task waiting the mutex
  becomes free.
\<close>

theorem mutex_release_hands_over:
  assumes "mx_usSem mx = 0" "pending (tasks k) (mx_pstTask mx) xs" "pstCurrentTask k \<notin> set xs"
  shows "\<exists>mx' k'. Mutex_Release mx k = Some (mx', k') \<and>
    ucPriority (tasks k' (pstCurrentTask k)) = ucMutexPriority (tasks k (pstCurrentTask k)) \<and>
    (if xs = [] then mx_usSem mx' = 1 \<and> (\<forall>u. eState (tasks k' u) = eState (tasks k u))
     else mx_usSem mx' = 0 \<and> (\<exists>ys t zs. xs = ys @ t # zs \<and>
       (\<forall>x\<in>set xs. ucMutexPriority (tasks k x) \<le> ucMutexPriority (tasks k t)) \<and>
       (\<forall>x\<in>set ys. ucMutexPriority (tasks k x) < ucMutexPriority (tasks k t)) \<and>
       eState (tasks k' t) = TASK_READY \<and> (\<forall>u. u \<noteq> t \<longrightarrow> eState (tasks k' u) = eState (tasks k u))))"
proof -
  let ?c = "pstCurrentTask k"
  define k1 where "k1 = upd_task ?c (\<lambda>x. x\<lparr>ucPriority := ucMutexPriority x, ucMutexPriority := 0\<rparr>) (snd (Task_SchedulerDisable k))"
  have k1: "pstCurrentTask k1 = ?c" "\<And>u. eState (tasks k1 u) = eState (tasks k u)" "\<And>u. u \<noteq> ?c \<Longrightarrow> tasks k1 u = tasks k u"
    "ucPriority (tasks k1 ?c) = ucMutexPriority (tasks k ?c)"
    by (simp_all add: k1_def Task_SchedulerDisable_def Task_SetScheduler_def)
  have cur: "Task_GetCurrentTask (snd (Task_SchedulerDisable k)) = ?c"
    by (simp add: Task_GetCurrentTask_def Task_SchedulerDisable_def Task_SetScheduler_def)
  have restore: "tasks (Task_SchedulerRestore True k4) = tasks k4" for k4
    by (simp add: Task_SchedulerRestore_def Task_SetScheduler_def)
  have same: "tasks k1 u = tasks k u" if "u \<in> set xs" for u
    by (rule k1(3)) (use that assms(3) in blast)
  have pend: "pending (tasks k1) (mx_pstTask mx) xs"
    using assms(2) same by (subst pending_frame [where ts = "tasks k"]) simp_all
  show ?thesis
  proof (cases "xs = []")
    case True
    then have "Mutex_Release mx k = Some (mx\<lparr>mx_usSem := 1\<rparr>, Task_SchedulerRestore True k1)"
      using assms(2) by (simp add: Mutex_Release_def cur k1_def Let_def)
    then show ?thesis
      using True k1(2, 4) by (simp add: restore)
  next
    case False
    have ne: "mx_pstTask mx \<noteq> 0"
      using pend False by (cases xs) auto
    obtain ys t zs mx' k2 where w: "xs = ys @ t # zs" "Mutex_WakeNextPending mx k1 = Some (mx', k2)"
      "\<forall>x\<in>set xs. ucMutexPriority (tasks k1 x) \<le> ucMutexPriority (tasks k1 t)"
      "\<forall>x\<in>set ys. ucMutexPriority (tasks k1 x) < ucMutexPriority (tasks k1 t)"
      "eState (tasks k2 t) = TASK_READY" "\<forall>u. u \<noteq> t \<longrightarrow> eState (tasks k2 u) = eState (tasks k1 u)"
      "ucPriority (tasks k2 ?c) = ucPriority (tasks k1 ?c)"
      using ml.wake_highest [OF pend False] by blast
    have "Mutex_Release mx k = Some (mx', Task_YieldSWI (Task_SchedulerRestore True k2))"
      using ne w(2) by (simp add: Mutex_Release_def cur k1_def [symmetric] Let_def)
    moreover have "mx_usSem mx' = 0"
      using Mutex_Wake_keeps [OF w(2) ne] assms(1) by simp
    moreover have "\<forall>x\<in>set xs. ucMutexPriority (tasks k x) \<le> ucMutexPriority (tasks k t)"
        "\<forall>x\<in>set ys. ucMutexPriority (tasks k x) < ucMutexPriority (tasks k t)"
      using w(1, 3, 4) same by auto
    ultimately show ?thesis
      using False w(1, 5-7) k1(2, 4) by (simp add: restore) blast
  qed
qed

theorem mutex_release_hands_over_witness:
  "\<exists>mx' k'. Mutex_Release \<lparr>mx_usSem = 0, ucMaxPri = 5, mx_pstTask = 1\<rparr> two_waiting = Some (mx', k') \<and>
    mx_usSem mx' = 0 \<and> eState (tasks k' 2) = TASK_READY"
proof -
  let ?mx = "\<lparr>mx_usSem = 0, ucMaxPri = 5, mx_pstTask = 1\<rparr> :: MUTEX_STRUCT"
  have p: "mx_usSem ?mx = 0" "pending (tasks two_waiting) (mx_pstTask ?mx) [1, 2]" "pstCurrentTask two_waiting \<notin> set [1, 2]"
    using two_waiting_pending by (simp_all add: two_waiting_def)
  obtain mx' k' ys t zs where w: "Mutex_Release ?mx two_waiting = Some (mx', k')" "mx_usSem mx' = 0" "[1, 2] = ys @ t # zs"
    "\<forall>x\<in>set [1, 2]. ucMutexPriority (tasks two_waiting x) \<le> ucMutexPriority (tasks two_waiting t)"
    "eState (tasks k' t) = TASK_READY"
    using mutex_release_hands_over [OF p] by (simp only: list.distinct if_False) (elim exE conjE, rule that)
  with two_waiting_second [OF w(3, 4)] show ?thesis by auto
qed

end
