(* ===== verification/Funk_Port.thy ===== *)
theory Funk_Port
  imports Funk_Task
begin

text \<open>
  The port of the FunkOS kernel to the AVR processor (\<^verbatim>\<open>funkos/kernel/atmega328p/taskport.{c,h}\<close>): saving and
  restoring the context of a task on its stack, and starting a new task from the frame
  \<^verbatim>\<open>Task_InitStack\<close> builds.  The processor is its 32 registers, the status register, the
  stack pointer and the program counter; its instructions act on the byte memory of the kernel.
  The C function called between saving and restoring may change every register and the memory below
  the saved frame, so the properties allow both to be arbitrary there.
\<close>

section \<open>The processor\<close>

record avr =
  R :: "nat \<Rightarrow> u8"
  SREG :: u8
  SP :: u16
  PC :: u16

text \<open>The instructions of the context switch: \<^verbatim>\<open>push\<close>, \<^verbatim>\<open>pop\<close>, \<^verbatim>\<open>cli\<close>, \<^verbatim>\<open>clr\<close>, the interrupt and \<^verbatim>\<open>reti\<close>.\<close>

definition avr_push :: "nat \<Rightarrow> avr \<times> (u16 \<Rightarrow> u8) \<Rightarrow> avr \<times> (u16 \<Rightarrow> u8)" where
  "avr_push i = (\<lambda>(c, m). (c\<lparr>SP := SP c - 1\<rparr>, m(SP c := R c i)))"

definition avr_pop :: "(u16 \<Rightarrow> u8) \<Rightarrow> nat \<Rightarrow> avr \<Rightarrow> avr" where
  "avr_pop m i c = c\<lparr>SP := SP c + 1, R := (R c)(i := m (SP c + 1))\<rparr>"

definition avr_in_sreg :: "nat \<Rightarrow> avr \<times> (u16 \<Rightarrow> u8) \<Rightarrow> avr \<times> (u16 \<Rightarrow> u8)" where
  "avr_in_sreg i = (\<lambda>(c, m). (c\<lparr>R := (R c)(i := SREG c)\<rparr>, m))"

definition avr_cli :: "avr \<times> (u16 \<Rightarrow> u8) \<Rightarrow> avr \<times> (u16 \<Rightarrow> u8)" where
  "avr_cli = (\<lambda>(c, m). (c\<lparr>SREG := SREG c AND 0x7F\<rparr>, m))"

definition avr_clr :: "nat \<Rightarrow> avr \<times> (u16 \<Rightarrow> u8) \<Rightarrow> avr \<times> (u16 \<Rightarrow> u8)" where
  "avr_clr i = (\<lambda>(c, m). (c\<lparr>R := (R c)(i := 0), SREG := (SREG c AND 0xE1) OR 0x02\<rparr>, m))"

definition avr_interrupt :: "u16 \<Rightarrow> avr \<times> (u16 \<Rightarrow> u8) \<Rightarrow> avr \<times> (u16 \<Rightarrow> u8)" where
  "avr_interrupt vector = (\<lambda>(c, m).
    (c\<lparr>SP := SP c - 2, PC := vector, SREG := SREG c AND 0x7F\<rparr>,
     m(SP c := ucast (PC c), SP c - 1 := ucast (drop_bit 8 (PC c)))))"

definition avr_reti :: "(u16 \<Rightarrow> u8) \<Rightarrow> avr \<Rightarrow> avr" where
  "avr_reti m c =
    c\<lparr>SP := SP c + 2, PC := push_bit 8 (ucast (m (SP c + 1))) OR ucast (m (SP c + 2)), SREG := SREG c OR 0x80\<rparr>"

section \<open>Saving and restoring the context\<close>

text \<open>The last four instructions store the stack pointer in \<^verbatim>\<open>pwTopStack\<close>, the first field of the current task.\<close>

definition Task_SaveContext :: "avr \<times> kernel \<Rightarrow> avr \<times> kernel" where
  "Task_SaveContext = (\<lambda>(c, k).
    let (c1, m) = (fold avr_push [2..<32] \<circ> avr_clr 1 \<circ> avr_push 1 \<circ> avr_push 0 \<circ> avr_cli \<circ> avr_in_sreg 0 \<circ>
          avr_push 0) (c, ram k);
        x = of_nat (pstCurrentTask k) + 2 :: u16;
        c2 = c1\<lparr>R := (R c1)(26 := ucast x, 27 := ucast (drop_bit 8 x), 0 := ucast (drop_bit 8 (SP c1)))\<rparr>
    in (c2, upd_task (pstCurrentTask k) (\<lambda>s. s\<lparr>pwTopStack := SP c1\<rparr>) (k\<lparr>ram := m\<rparr>)))"

definition Task_RestoreContext :: "kernel \<Rightarrow> avr \<Rightarrow> avr" where
  "Task_RestoreContext k c =
    (let x = of_nat (pstCurrentTask k) + 2 :: u16;
         sp = pwTopStack (tasks k (pstCurrentTask k));
         c1 = c\<lparr>R := (R c)(26 := ucast x, 27 := ucast (drop_bit 8 x), 28 := ucast sp, 29 := ucast (drop_bit 8 sp)), SP := sp\<rparr>;
         c2 = fold (avr_pop (ram k)) (rev [1..<32] @ [0]) c1;
         c3 = c2\<lparr>SREG := R c2 0\<rparr>
     in avr_pop (ram k) 0 c3)"

definition Task_Yield :: "avr \<times> kernel \<Rightarrow> (avr \<times> kernel) option" where
  "Task_Yield s =
    (let (c, k) = Task_SaveContext s
     in case Task_Switch k of None \<Rightarrow> None | Some k' \<Rightarrow> Some (Task_RestoreContext k' c, k'))"

text \<open>The software interrupt: a context switch and the return to the task it chose.\<close>

definition INT0_vect :: "avr \<times> kernel \<Rightarrow> (avr \<times> kernel) option" where
  "INT0_vect s = (case Task_Yield s of None \<Rightarrow> None | Some (c, k) \<Rightarrow> Some (avr_reti (ram k) c, k))"

section \<open>Frames on the stack\<close>

definition frame_at :: "(u16 \<Rightarrow> u8) \<Rightarrow> u16 \<Rightarrow> u8 list \<Rightarrow> bool" where
  "frame_at m base xs \<longleftrightarrow> (\<forall>j<length xs. m (base - of_nat j) = xs ! j)"

lemma of_nat_u16_inj:
  assumes "(of_nat i :: u16) = of_nat j" "i < 65536" "j < 65536"
  shows "i = j"
proof -
  have "unat (of_nat i :: u16) = unat (of_nat j :: u16)"
    unfolding assms(1) ..
  with assms(2, 3) show ?thesis
    by (simp add: unat_of_nat)
qed

lemma push_all:
  assumes "length xs \<le> 65536"
  shows "snd (fold PUSH_TO_STACK xs (m, p)) = p - of_nat (length xs)"
    and "frame_at (fst (fold PUSH_TO_STACK xs (m, p))) p xs"
    and "(\<forall>j<length xs. a \<noteq> p - of_nat j) \<Longrightarrow> fst (fold PUSH_TO_STACK xs (m, p)) a = m a"
proof -
  have len: "snd (fold PUSH_TO_STACK ys (n, q)) = q - of_nat (length ys)" for ys n q
    by (induction ys arbitrary: n q) (simp_all add: PUSH_TO_STACK_def)
  show "snd (fold PUSH_TO_STACK xs (m, p)) = p - of_nat (length xs)"
    by (rule len)
  have "frame_at (fst (fold PUSH_TO_STACK xs (m, p))) p xs \<and>
      ((\<forall>j<length xs. a \<noteq> p - of_nat j) \<longrightarrow> fst (fold PUSH_TO_STACK xs (m, p)) a = m a)" for a
    using assms
  proof (induction xs arbitrary: a rule: rev_induct)
    case (snoc x xs)
    let ?r = "fold PUSH_TO_STACK xs (m, p)"
    have r: "fst (fold PUSH_TO_STACK (xs @ [x]) (m, p)) = (fst ?r)(p - of_nat (length xs) := x)"
      using len [of xs m p] by (simp add: PUSH_TO_STACK_def split_beta)
    have ne: "p - of_nat j \<noteq> p - of_nat (length xs)" if "j < length xs" for j
    proof
      assume "p - of_nat j = p - of_nat (length xs)"
      then have "(of_nat j :: u16) = of_nat (length xs)"
        by simp
      from of_nat_u16_inj [OF this] that snoc.prems show False
        by simp
    qed
    show ?case
      using snoc.IH [of a] snoc.prems ne unfolding r frame_at_def by (auto simp: nth_append less_Suc_eq)
  qed (simp add: frame_at_def)
  then show "frame_at (fst (fold PUSH_TO_STACK xs (m, p))) p xs"
    and "(\<forall>j<length xs. a \<noteq> p - of_nat j) \<Longrightarrow> fst (fold PUSH_TO_STACK xs (m, p)) a = m a"
    by blast+
qed

lemma push_apply:
  "avr_push i (c, m) = (c\<lparr>SP := SP c - 1\<rparr>, m(SP c := R c i))" "PUSH_TO_STACK v (m, p) = (m(p := v), p - 1)"
  by (simp_all add: avr_push_def PUSH_TO_STACK_def)

lemma avr_push_all:
  "fold avr_push is (c, m) =
    (c\<lparr>SP := snd (fold PUSH_TO_STACK (map (R c) is) (m, SP c))\<rparr>, fst (fold PUSH_TO_STACK (map (R c) is) (m, SP c)))"
proof (induction "is" arbitrary: c m)
  case (Cons i "is")
  show ?case
    by (simp only: fold.simps list.map o_apply push_apply Cons.IH) (simp add: fun_upd_def)
qed simp

lemma avr_pop_all:
  "SP (fold (avr_pop m) is c) = SP c + of_nat (length is)" "SREG (fold (avr_pop m) is c) = SREG c"
  "PC (fold (avr_pop m) is c) = PC c" "i \<notin> set is \<Longrightarrow> R (fold (avr_pop m) is c) i = R c i"
  by (induction "is" arbitrary: c) (simp_all add: avr_pop_def)

lemma avr_pop_nth:
  "distinct is \<Longrightarrow> j < length is \<Longrightarrow> R (fold (avr_pop m) is c) (is ! j) = m (SP c + 1 + of_nat j)"
proof (induction "is" arbitrary: c j)
  case (Cons i "is")
  show ?case
  proof (cases j)
    case 0
    with Cons.prems show ?thesis
      by (simp add: avr_pop_all(4)) (simp add: avr_pop_def)
  next
    case (Suc j')
    with Cons.prems Cons.IH [of j' "avr_pop m i c"] show ?thesis
      by (simp add: avr_pop_def ac_simps)
  qed
qed simp

text \<open>Restoring from a frame of 33 bytes loads every register from it.\<close>

lemma frame_at_pop:
  assumes f: "frame_at m base xs" and j: "j < length xs"
  shows "m (base - of_nat (length xs) + 1 + of_nat j) = xs ! (length xs - 1 - j)"
proof -
  have "(of_nat (length xs - 1 - j) :: u16) = of_nat (length xs) - 1 - of_nat j"
    using j by (simp add: of_nat_diff)
  then have eq: "base - of_nat (length xs) + 1 + of_nat j = base - of_nat (length xs - 1 - j)"
    by simp
  have "length xs - 1 - j < length xs"
    using j by simp
  then show ?thesis
    unfolding eq by (rule f [unfolded frame_at_def, rule_format])
qed

lemma Task_RestoreContext_frame:
  assumes f: "frame_at (ram k) base (r0 # sr # rs)" and len: "length rs = 31"
    and top: "pwTopStack (tasks k (pstCurrentTask k)) = base - 33"
    and c': "c' = Task_RestoreContext k c"
  shows "SP c' = base \<and> SREG c' = sr \<and> PC c' = PC c \<and> R c' 0 = r0 \<and> (\<forall>i<31. R c' (Suc i) = rs ! i)"
proof -
  let ?m = "ram k" and ?is = "rev [1..<32] @ [0]"
  obtain c1 where rest: "c' = avr_pop ?m 0 ((fold (avr_pop ?m) ?is c1)\<lparr>SREG := R (fold (avr_pop ?m) ?is c1) 0\<rparr>)"
    and c1: "SP c1 = base - 33" "PC c1 = PC c"
    using c' [unfolded Task_RestoreContext_def top Let_def] by (rule that) simp_all
  have pop: "?m (SP c1 + 1 + of_nat j) = (r0 # sr # rs) ! (32 - j)" if "j < 33" for j
    using frame_at_pop [OF f, of j] that len c1(1) by simp
  define c2 where "c2 = fold (avr_pop ?m) ?is c1"
  have reg: "R c2 (?is ! j) = (r0 # sr # rs) ! (32 - j)" if "j < 32" for j
    using avr_pop_nth [of ?is j ?m c1] pop [of j] that unfolding c2_def by simp
  have sp: "SP c2 = SP c1 + 32" "PC c2 = PC c"
    unfolding c2_def avr_pop_all by (simp_all add: c1(2))
  have "R c2 (Suc i) = rs ! i" if "i < 31" for i
  proof -
    have "?is ! (30 - i) = Suc i" "32 - (30 - i) = Suc (Suc i)"
      using that by (auto simp: nth_append rev_nth)
    with reg [of "30 - i"] show ?thesis by simp
  qed
  moreover have "R c2 0 = sr"
    using reg [of 31] by (simp add: nth_append)
  moreover have "?m (SP c2 + 1) = r0"
    using pop [of 32] by (simp add: sp(1) ac_simps)
  moreover have "SP c2 + 1 = base"
    by (simp add: sp(1) c1(1))
  ultimately show ?thesis
    unfolding rest c2_def [symmetric] by (simp add: avr_pop_def sp(2))
qed

lemma Task_SaveContext_frame:
  assumes "Task_SaveContext (c, k) = (c', k')"
  shows "frame_at (ram k') (SP c) (R c 0 # SREG c # map (R c) [1..<32])"
    and "pwTopStack (tasks k' (pstCurrentTask k)) = SP c - 33" and "pstCurrentTask k' = pstCurrentTask k"
    and "(\<forall>j<33. a \<noteq> SP c - of_nat j) \<Longrightarrow> ram k' a = ram k a"
proof -
  let ?xs = "R c 0 # SREG c # map (R c) [1..<32]"
  have two: "[1..<32] = 1 # [2..<32::nat]"
    by (simp add: upt_rec)
  have other: "map ((R c)(0 := x, Suc 0 := y)) [2..<32] = map (R c) [2..<32]" for x y
    by simp
  obtain c1 where saved: "(fold avr_push [2..<32] \<circ> avr_clr 1 \<circ> avr_push 1 \<circ> avr_push 0 \<circ> avr_cli \<circ> avr_in_sreg 0 \<circ>
          avr_push 0) (c, ram k) = (c1, fst (fold PUSH_TO_STACK ?xs (ram k, SP c)))"
      "SP c1 = snd (fold PUSH_TO_STACK ?xs (ram k, SP c))"
    unfolding two by (simp add: push_apply avr_in_sreg_def avr_cli_def avr_clr_def avr_push_all other)
  then have k': "k' = upd_task (pstCurrentTask k) (\<lambda>s. s\<lparr>pwTopStack := SP c1\<rparr>)
      (k\<lparr>ram := fst (fold PUSH_TO_STACK ?xs (ram k, SP c))\<rparr>)"
    using assms unfolding Task_SaveContext_def prod.case saved(1) Let_def by simp
  have len: "length ?xs = 33"
    by simp
  show "frame_at (ram k') (SP c) ?xs"
    unfolding k' using push_all(2) [of ?xs "ram k" "SP c"] by simp
  show "pwTopStack (tasks k' (pstCurrentTask k)) = SP c - 33"
    unfolding k' using push_all(1) [of ?xs "ram k" "SP c"] saved(2) by simp
  show "pstCurrentTask k' = pstCurrentTask k"
    unfolding k' by simp
  show "ram k' a = ram k a" if "\<forall>j<33. a \<noteq> SP c - of_nat j"
    unfolding k' using push_all(3) [of ?xs a "SP c" "ram k"] that by (simp only: len) simp
qed

section \<open>Properties\<close>

lemma word16_bytes: "push_bit 8 (ucast (ucast (drop_bit 8 w :: u16) :: u8)) OR ucast (ucast w :: u8) = (w :: u16)"
  by (rule bit_word_eqI) (auto simp: bit_simps)

lemma reti_frame:
  assumes "m (sp - 1) = ucast (drop_bit 8 a)" "m sp = ucast a" "SP c = sp - 2"
  shows "avr_reti m c = c\<lparr>SP := sp, PC := a, SREG := SREG c OR 0x80\<rparr>"
proof -
  have sp: "SP c + 1 = sp - 1" "SP c + 2 = sp"
    using assms(3) by simp_all
  show ?thesis
    unfolding avr_reti_def sp assms(1, 2) word16_bytes ..
qed

lemma sreg_interrupt: "bit w 7 \<Longrightarrow> (w AND 0x7F) OR 0x80 = (w :: u8)"
proof -
  assume w: "bit w 7"
  show ?thesis
  proof (rule bit_word_eqI)
    fix n assume "n < LENGTH(8)"
    then have "n \<in> {0, 1, 2, 3, 4, 5, 6, 7}"
      by auto
    then show "bit ((w AND 0x7F) OR 0x80) n = bit w n"
      using w by (auto simp: bit_simps)
  qed
qed

text \<open>
  C8. A task the software interrupt preempts loses nothing.  The interrupt and the saving of the
  context leave the registers, the status and the return address in 35 bytes at the top of the task's
  stack; restoring from that frame and returning from the interrupt, with whatever the registers hold
  by then, gives back all 32 registers, the stack pointer, the program counter and, as interrupts were
  enabled, the status register.
\<close>

theorem context_save_restore:
  assumes "bit (SREG c) 7"
    and "avr_interrupt vector (c, ram k) = (c1, m1)"
    and "Task_SaveContext (c1, k\<lparr>ram := m1\<rparr>) = (c2, k2)"
    and "pstCurrentTask k3 = pstCurrentTask k"
    and "pwTopStack (tasks k3 (pstCurrentTask k)) = pwTopStack (tasks k2 (pstCurrentTask k))"
    and "\<forall>j<35. ram k3 (SP c - of_nat j) = ram k2 (SP c - of_nat j)"
    and "c' = avr_reti (ram k3) (Task_RestoreContext k3 c3)"
  shows "(\<forall>i<32. R c' i = R c i) \<and> SP c' = SP c \<and> PC c' = PC c \<and> SREG c' = SREG c"
proof -
  have c1: "SP c1 = SP c - 2" "R c1 = R c" "SREG c1 = SREG c AND 0x7F"
    "m1 = (ram k)(SP c := ucast (PC c), SP c - 1 := ucast (drop_bit 8 (PC c)))"
    using assms(2) by (auto simp: avr_interrupt_def)
  note saved = Task_SaveContext_frame [OF assms(3)]
  let ?xs = "R c 0 # (SREG c AND 0x7F) # map (R c) [1..<32]"
  have frame: "frame_at (ram k3) (SP c - 2) ?xs"
    unfolding frame_at_def
  proof (intro allI impI)
    fix j assume j: "j < length ?xs"
    then have "ram k3 (SP c - of_nat (j + 2)) = ram k2 (SP c - of_nat (j + 2))"
      by (intro assms(6) [rule_format]) simp
    moreover have "ram k2 (SP c - 2 - of_nat j) = ?xs ! j"
      using saved(1) j unfolding frame_at_def c1 by simp
    ultimately show "ram k3 (SP c - 2 - of_nat j) = ?xs ! j"
      by (simp add: algebra_simps)
  qed
  define c4 where "c4 = Task_RestoreContext k3 c3"
  have top: "pwTopStack (tasks k3 (pstCurrentTask k3)) = SP c - 2 - 33"
    using assms(4, 5) saved(2) c1(1) by simp
  have c4: "SP c4 = SP c - 2" "SREG c4 = SREG c AND 0x7F" "R c4 0 = R c 0" "\<forall>i<31. R c4 (Suc i) = R c (Suc i)"
    using Task_RestoreContext_frame [OF frame _ top c4_def] by (simp_all add: nth_append)
  have out: "ram k3 (SP c - of_nat j) = m1 (SP c - of_nat j)" if "j < 2" for j
  proof -
    have "\<forall>i<33. SP c - of_nat j \<noteq> SP c - 2 - of_nat i"
    proof (intro allI impI notI)
      fix i :: nat assume i: "i < 33" and "SP c - of_nat j = SP c - 2 - of_nat i"
      then have "(of_nat j :: u16) = of_nat (i + 2)"
        by (simp add: algebra_simps)
      from of_nat_u16_inj [OF this] that i show False
        by simp
    qed
    then show ?thesis
      using saved(4) [of "SP c - of_nat j"] assms(6) that c1(1) by simp
  qed
  have "c' = c4\<lparr>SP := SP c, PC := PC c, SREG := SREG c4 OR 0x80\<rparr>"
    unfolding assms(7) c4_def [symmetric]
    by (rule reti_frame) (use out [of 0] out [of 1] c1(4) c4(1) in simp_all)
  moreover have "R c4 i = R c i" if "i < 32" for i
    using that c4(3, 4) by (cases i) auto
  ultimately show ?thesis
    using c4(2) sreg_interrupt [OF assms(1)] by simp
qed

definition counting_cpu :: avr where
  "counting_cpu = \<lparr>R = \<lambda>i. of_nat i, SREG = 0x82, SP = 500, PC = 4660\<rparr>"

theorem context_save_restore_witness:
  "\<exists>c1 m1 c2 k2 c'. avr_interrupt 2 (counting_cpu, ram two_tasks) = (c1, m1) \<and>
    Task_SaveContext (c1, two_tasks\<lparr>ram := m1\<rparr>) = (c2, k2) \<and>
    c' = avr_reti (ram k2) (Task_RestoreContext k2 c2) \<and>
    R c' 5 = 5 \<and> SP c' = 500 \<and> PC c' = 4660 \<and> SREG c' = 0x82"
proof -
  obtain c1 m1 where 1: "avr_interrupt 2 (counting_cpu, ram two_tasks) = (c1, m1)"
    by fastforce
  obtain c2 k2 where 2: "Task_SaveContext (c1, two_tasks\<lparr>ram := m1\<rparr>) = (c2, k2)"
    by fastforce
  have "bit (SREG counting_cpu) 7"
    by (simp add: counting_cpu_def bit_simps)
  from context_save_restore [OF this 1 2 _ refl _ refl, of c2] Task_SaveContext_frame(3) [OF 2] 1 2 show ?thesis
    by (auto simp: counting_cpu_def)
qed

subsection \<open>Starting a new task\<close>

lemma clear_stack_cleared: "i < n \<Longrightarrow> clear_stack base n m (base + of_nat i) = 0xFF"
  unfolding clear_stack_def by (induction n) (auto simp: less_Suc_eq)

lemma clear_stack_outside: "(\<forall>i<n. a \<noteq> base + of_nat i) \<Longrightarrow> clear_stack base n m a = m a"
  unfolding clear_stack_def by (induction n) auto

lemma stack_margin_first:
  "(\<forall>i<n. m (base + of_nat i) = 0xFF) \<Longrightarrow> n < l \<Longrightarrow> m (base + of_nat n) \<noteq> 0xFF \<Longrightarrow> stack_margin m base l = n"
proof (induction m base l arbitrary: n rule: stack_margin.induct)
  case (2 m base l)
  show ?case
  proof (cases n)
    case 0
    with 2(4) show ?thesis by simp
  next
    case (Suc n')
    have "m base = 0xFF"
      using spec [OF 2(2), of 0] Suc by simp
    moreover have "\<forall>i<n'. m (base + 1 + of_nat i) = 0xFF"
    proof (intro allI impI)
      fix i assume "i < n'"
      with spec [OF 2(2), of "Suc i"] Suc show "m (base + 1 + of_nat i) = 0xFF"
        by (simp add: ac_simps)
    qed
    moreover have "m (base + 1 + of_nat n') \<noteq> 0xFF"
      using 2(4) Suc by (simp add: ac_simps)
    ultimately show ?thesis
      using 2(1) [of n'] 2(3) Suc by simp
  qed
qed simp

lemma initial_frame_shape:
  "initial_frame addr task = ucast addr # ucast (drop_bit 8 addr) # 0 # 0x80 # (0 # map of_nat [2..<24] @
     [ucast task, ucast (drop_bit 8 task)] @ map of_nat [26..<32])"
  by (simp add: initial_frame_def)

lemma initial_frame_length: "length (initial_frame addr task) = 35"
  by (simp add: initial_frame_def)

lemma Task_CreateTask_stack:
  fixes t name stack stacksize priority func k
  defines "k' \<equiv> Task_CreateTask t name stack stacksize priority func k"
    and "xs \<equiv> initial_frame func (of_nat t)"
  shows "frame_at (ram k') (stack + (stacksize - 1)) xs" "pwTopStack (tasks k' t) = stack + (stacksize - 1) - 35"
    and "(\<forall>j<35. a \<noteq> stack + (stacksize - 1) - of_nat j) \<Longrightarrow> ram k' a = clear_stack stack (unat stacksize) (ram k) a"
    and "pwStack (tasks k' t) = stack" "usStackSize (tasks k' t) = stacksize"
proof -
  let ?p = "(clear_stack stack (unat stacksize) (ram k), stack + (stacksize - 1))"
  have k': "ram k' = fst (fold PUSH_TO_STACK xs ?p)" "pwTopStack (tasks k' t) = snd (fold PUSH_TO_STACK xs ?p)"
    "pwStack (tasks k' t) = stack" "usStackSize (tasks k' t) = stacksize"
    by (simp_all add: k'_def xs_def Task_CreateTask_def Task_InitStack_def TOP_OF_STACK_def Let_def split_beta)
  have len: "length xs = 35"
    by (simp add: xs_def initial_frame_length)
  show "frame_at (ram k') (stack + (stacksize - 1)) xs" "pwTopStack (tasks k' t) = stack + (stacksize - 1) - 35"
    unfolding k' using push_all(1, 2) [of xs] len by simp_all
  show "ram k' a = clear_stack stack (unat stacksize) (ram k) a" if "\<forall>j<35. a \<noteq> stack + (stacksize - 1) - of_nat j"
    unfolding k' by (rule push_all(3)) (use len that in simp_all)
qed (simp_all add: k'_def Task_CreateTask_def Task_InitStack_def Let_def split_beta)

lemma frame_at_drop2:
  assumes "frame_at m base (x # y # xs)"
  shows "m base = x" "m (base - 1) = y" "frame_at m (base - 2) xs"
proof -
  have nth: "m (base - of_nat j) = (x # y # xs) ! j" if "j < length xs + 2" for j
    using assms that by (simp add: frame_at_def)
  show "m base = x" "m (base - 1) = y"
    using nth [of 0] nth [of 1] by simp_all
  show "frame_at m (base - 2) xs"
    unfolding frame_at_def
  proof (intro allI impI)
    fix j assume "j < length xs"
    then show "m (base - 2 - of_nat j) = xs ! j"
      using nth [of "j + 2"] by (simp add: algebra_simps)
  qed
qed

lemma stack_address: "j < unat stacksize \<Longrightarrow> stack + (stacksize - 1) - of_nat j = stack + of_nat (unat stacksize - 1 - j)"
  for stack stacksize :: u16
  by (simp add: of_nat_diff)

lemma Task_CreateTask_outside:
  assumes "35 \<le> unat stacksize" "unat stack + unat stacksize \<le> 65536"
    and a: "unat a < unat stack \<or> unat stack + unat stacksize \<le> unat a"
  shows "ram (Task_CreateTask t name stack stacksize priority func k) a = ram k a"
proof -
  have ne: "a \<noteq> stack + of_nat i" if "i < unat stacksize" for i
  proof
    assume "a = stack + of_nat i"
    moreover have "unat (stack + of_nat i) = unat stack + i"
      using that assms(2) by (subst unat_plus_if') (simp add: unat_of_nat)
    ultimately show False
      using that a by simp
  qed
  have "a \<noteq> stack + (stacksize - 1) - of_nat j" if "j < 35" for j
    unfolding stack_address [OF order_less_le_trans [OF that assms(1)], of stack]
    by (rule ne) (use assms(1) in simp)
  with ne show ?thesis
    by (simp add: Task_CreateTask_stack(3) clear_stack_outside)
qed

lemma Task_CreateTask_margin:
  assumes "35 \<le> unat stacksize"
  shows "stack_margin (ram (Task_CreateTask t name stack stacksize priority func k)) stack (unat stacksize) = unat stacksize - 35"
proof (rule stack_margin_first)
  let ?k = "Task_CreateTask t name stack stacksize priority func k" and ?n = "unat stacksize"
  have "ram ?k (stack + (stacksize - 1) - of_nat 34) = 31"
    using Task_CreateTask_stack(1) [unfolded frame_at_def initial_frame_length, rule_format, of 34]
    by (simp add: initial_frame_def nth_append)
  moreover have "stack + (stacksize - 1) - of_nat 34 = stack + of_nat (?n - 35)"
    using assms by (simp add: of_nat_diff)
  ultimately have "ram ?k (stack + of_nat (?n - 35)) = 31"
    by (simp only:)
  then show "ram ?k (stack + of_nat (?n - 35)) \<noteq> 0xFF"
    by simp
  have "ram ?k (stack + of_nat i) = 0xFF" if i: "i < ?n - 35" for i
  proof -
    have "\<forall>j<35. stack + of_nat i \<noteq> stack + (stacksize - 1) - of_nat j"
    proof (intro allI impI notI)
      fix j :: nat assume j: "j < 35" and "stack + of_nat i = stack + (stacksize - 1) - of_nat j"
      then have "(of_nat i :: u16) = of_nat (?n - 1 - j)"
        using stack_address [of j stacksize stack] assms by simp
      from of_nat_u16_inj [OF this] i j show False
        using unsigned_less [of stacksize, where ?'a = nat] by fastforce
    qed
    then show ?thesis
      using clear_stack_cleared [of i ?n stack "ram k"] i by (simp add: Task_CreateTask_stack(3))
  qed
  then show "\<forall>i<?n - 35. ram ?k (stack + of_nat i) = 0xFF"
    by blast
qed (use assms in simp)

text \<open>
  C27. A task created with a stack of at least 35 bytes starts in its entry function the first time
  the scheduler restores it: the program counter is the function, the registers 24 and 25 hold the
  pointer to the task (the first parameter of the calling convention), register 1 holds 0, interrupts
  are enabled and the stack is empty.  No byte outside its stack is written, and the stack check
  reports all but those 35 bytes as unused.
\<close>

theorem new_task_starts:
  assumes "35 \<le> unat stacksize" "unat stack + unat stacksize \<le> 65536"
    and "k' = (Task_CreateTask t name stack stacksize priority func k)\<lparr>pstCurrentTask := t\<rparr>"
    and "c' = avr_reti (ram k') (Task_RestoreContext k' c)"
  shows "PC c' = func \<and> R c' 24 = ucast (of_nat t :: u16) \<and> R c' 25 = ucast (drop_bit 8 (of_nat t :: u16)) \<and>
    R c' 1 = 0 \<and> bit (SREG c') 7 \<and> SP c' = stack + (stacksize - 1) \<and>
    (\<forall>a. unat a < unat stack \<or> unat stack + unat stacksize \<le> unat a \<longrightarrow> ram k' a = ram k a) \<and>
    usStackMargin (tasks (Task_StackCheck k') t) = stacksize - 35"
proof -
  let ?top = "stack + (stacksize - 1)" and ?k = "Task_CreateTask t name stack stacksize priority func k"
  let ?rs = "0 # map of_nat [2..<24] @ [ucast (of_nat t :: u16), ucast (drop_bit 8 (of_nat t :: u16))] @ map of_nat [26..<32]"
  note made = Task_CreateTask_stack [where t = t and name = name and stack = stack and stacksize = stacksize and
      priority = priority and func = func and k = k]
  have k': "ram k' = ram ?k" "pstCurrentTask k' = t" "tasks k' = tasks ?k"
    by (simp_all add: assms(3))
  note ret = frame_at_drop2 [OF made(1) [unfolded initial_frame_shape, folded k'(1)]]
  define c1 where "c1 = Task_RestoreContext k' c"
  have top: "pwTopStack (tasks k' (pstCurrentTask k')) = ?top - 2 - 33"
    using made(2) k' by simp
  have c1: "SP c1 = ?top - 2" "SREG c1 = 0x80" "\<forall>i<31. R c1 (Suc i) = ?rs ! i"
    using Task_RestoreContext_frame [OF ret(3) _ top c1_def] by simp_all
  have c': "c' = c1\<lparr>SP := ?top, PC := func, SREG := SREG c1 OR 0x80\<rparr>"
    unfolding assms(4) c1_def [symmetric] by (rule reti_frame [OF ret(2, 1) c1(1)])
  have regs: "R c1 24 = ?rs ! 23" "R c1 25 = ?rs ! 24" "R c1 1 = ?rs ! 0"
    using c1(3) [rule_format, of 23] c1(3) [rule_format, of 24] c1(3) [rule_format, of 0] by simp_all
  have "usStackMargin (tasks (Task_StackCheck k') t) = of_nat (unat stacksize - 35)"
    using Task_CreateTask_margin [OF assms(1)] made(4, 5) by (simp add: Task_StackCheck_def k')
  then have "usStackMargin (tasks (Task_StackCheck k') t) = stacksize - 35"
    using assms(1) by (simp add: of_nat_diff)
  with regs Task_CreateTask_outside [OF assms(1, 2)] show ?thesis
    unfolding c' by (simp add: c1(2) nth_append bit_simps k')
qed

theorem new_task_starts_witness:
  "PC (avr_reti (ram ((Task_CreateTask 3 0 256 64 1 4660 blank_kernel)\<lparr>pstCurrentTask := 3\<rparr>))
     (Task_RestoreContext ((Task_CreateTask 3 0 256 64 1 4660 blank_kernel)\<lparr>pstCurrentTask := 3\<rparr>) counting_cpu)) = 4660 \<and>
   usStackMargin (tasks (Task_StackCheck ((Task_CreateTask 3 0 256 64 1 4660 blank_kernel)\<lparr>pstCurrentTask := 3\<rparr>)) 3) = 29"
  using new_task_starts [OF _ _ refl refl, of 64 256 3 0 1 4660 blank_kernel counting_cpu] by simp

end
