(* ===== verification/Funk_Services.thy ===== *)
theory Funk_Services
  imports Funk_Sync Funk_Port
begin

text \<open>
  The services of the FunkOS kernel: message queues (\<^verbatim>\<open>funkos/kernel/message.c\<close>), timers (\<^verbatim>\<open>timer.c\<close>) with the
  timer interrupt that drives them and the scheduler's tick (\<^verbatim>\<open>atmega328p/taskport.c\<close>), and the task watchdog
  (\<^verbatim>\<open>watchdog.c\<close>).
\<close>

section \<open>Message queues\<close>

record EVENT_STRUCT =
  usEventID :: u16
  usEventData :: u16

record MESSAGE_STRUCT =
  pstEvents :: "nat \<Rightarrow> EVENT_STRUCT"
  usSize :: u16
  usHead :: u16
  usTail :: u16
  bEmpty :: bool
  bFull :: bool
  stSem :: SEMAPHORE_STRUCT

definition Message_Init :: "(nat \<Rightarrow> EVENT_STRUCT) \<Rightarrow> u16 \<Rightarrow> MESSAGE_STRUCT" where
  "Message_Init events _ = \<lparr>pstEvents = events, usSize = 0, usHead = 0, usTail = 0, bEmpty = True, bFull = False,
    stSem = Semaphore_Init\<rparr>"

definition Message_Send :: "MESSAGE_STRUCT \<Rightarrow> u16 \<Rightarrow> u16 \<Rightarrow> kernel \<Rightarrow> (bool \<times> MESSAGE_STRUCT \<times> kernel) option" where
  "Message_Send q ident data k =
    (if bFull q then Some (False, q, k)
     else
       let ev = (pstEvents q)(unat (usHead q) := \<lparr>usEventID = ident, usEventData = data\<rparr>);
           h0 = usSize q + 1;
           h = (if usSize q \<le> h0 then 0 else h0);
           q' = q\<lparr>pstEvents := ev, usHead := h, bFull := (h = usTail q), bEmpty := False\<rparr>
       in case Semaphore_Post (stSem q') k of
            None \<Rightarrow> None
          | Some (s, k') \<Rightarrow> Some (True, q'\<lparr>stSem := s\<rparr>, k'))"

text \<open>\<^verbatim>\<open>Message_Read\<close>: whether an event was read, its identifier and data (both 0 when not), the queue.\<close>

definition Message_Read :: "MESSAGE_STRUCT \<Rightarrow> bool \<times> u16 \<times> u16 \<times> MESSAGE_STRUCT" where
  "Message_Read q =
    (if bEmpty q then (False, 0, 0, q)
     else
       let ev = pstEvents q (unat (usTail q));
           t0 = usSize q + 1;
           t = (if usSize q \<le> t0 then 0 else t0)
       in (True, usEventID ev, usEventData ev, q\<lparr>usTail := t, bEmpty := (usHead q = t), bFull := False\<rparr>))"

section \<open>Timers\<close>

datatype TIMER_STATE = TIMER_STATE_UNINIT | TIMER_STATE_CLOSED | TIMER_STATE_OPEN

record TIMER_STRUCT =
  usTicks :: u16
  usOffset :: u16
  usTickCount :: u16
  tm_eState :: TIMER_STATE
  pfCallback :: nat

abbreviation (input) NUM_TIMERS :: nat where "NUM_TIMERS \<equiv> 4"

definition Timer_Init :: "TIMER_STRUCT list \<Rightarrow> TIMER_STRUCT list" where
  "Timer_Init = map (\<lambda>x. x\<lparr>usTicks := 0, usOffset := 0, tm_eState := TIMER_STATE_UNINIT, pfCallback := 0\<rparr>)"

fun Timer_Add_from :: "nat \<Rightarrow> u16 \<Rightarrow> u16 \<Rightarrow> nat \<Rightarrow> TIMER_STRUCT list \<Rightarrow> nat option \<times> TIMER_STRUCT list" where
  "Timer_Add_from i ticks offset cb [] = (None, [])"
| "Timer_Add_from i ticks offset cb (x # xs) =
    (if tm_eState x = TIMER_STATE_UNINIT
     then (Some i, x\<lparr>tm_eState := TIMER_STATE_CLOSED, usTicks := ticks, usTickCount := 0, usOffset := offset, pfCallback := cb\<rparr> # xs)
     else let (r, ys) = Timer_Add_from (Suc i) ticks offset cb xs in (r, x # ys))"

definition Timer_Add :: "u16 \<Rightarrow> u16 \<Rightarrow> nat \<Rightarrow> TIMER_STRUCT list \<Rightarrow> nat option \<times> TIMER_STRUCT list" where
  "Timer_Add = Timer_Add_from 0"

definition Timer_Start :: "nat \<Rightarrow> TIMER_STRUCT list \<Rightarrow> TIMER_STRUCT list" where
  "Timer_Start i xs = xs[i := (xs ! i)\<lparr>usTickCount := 0, tm_eState := TIMER_STATE_OPEN\<rparr>]"

definition Timer_Stop :: "nat \<Rightarrow> TIMER_STRUCT list \<Rightarrow> TIMER_STRUCT list" where
  "Timer_Stop i xs = xs[i := (xs ! i)\<lparr>tm_eState := TIMER_STATE_CLOSED\<rparr>]"

text \<open>One timer's part of a tick: its new state and the callback it runs, if any.\<close>

definition timer_step :: "TIMER_STRUCT \<Rightarrow> TIMER_STRUCT \<times> nat list" where
  "timer_step x =
    (if tm_eState x = TIMER_STATE_OPEN then
       let x' = x\<lparr>usTickCount := usTickCount x + 1\<rparr>
       in if usTickCount x' = usTicks x' + usOffset x'
          then (x'\<lparr>usTickCount := usOffset x'\<rparr>, if pfCallback x' \<noteq> 0 then [pfCallback x'] else [])
          else (x', [])
     else (x, []))"

text \<open>The callbacks of a tick, in the order they run; a callback leaves the table of timers alone.\<close>

definition Timer_Tick :: "TIMER_STRUCT list \<Rightarrow> TIMER_STRUCT list \<times> nat list" where
  "Timer_Tick xs = (map (fst \<circ> timer_step) xs, concat (map (snd \<circ> timer_step) xs))"

text \<open>
  The timer interrupt: the timers run, and the scheduler's tick when the scheduler was enabled.  The
  result of the tick is not used: the code sets \<^verbatim>\<open>bRunScheduler\<close> to TRUE itself.
\<close>

definition TIMER1_COMPA_vect :: "kernel \<times> TIMER_STRUCT list \<Rightarrow> ((kernel \<times> TIMER_STRUCT list) \<times> nat list) option" where
  "TIMER1_COMPA_vect = (\<lambda>(k, tm).
    let bSchedulerState = Task_IsSchedulerEnabled k;
        k1 = Task_SetScheduler False k;
        (tm', calls) = Timer_Tick tm;
        bRunScheduler = True
    in case (if bSchedulerState then map_option snd (Task_Tick k1) else Some k1) of
         None \<Rightarrow> None
       | Some k2 \<Rightarrow>
           let k3 = Task_SetScheduler bSchedulerState k2;
               k4 = (if bRunScheduler \<and> bSchedulerState then Task_YieldSWI k3 else k3)
           in Some ((k4, tm'), calls))"

section \<open>The task watchdog\<close>

datatype WATCHDOG_STATE = WDT_TASK_UNINIT | WDT_TASK_IDLE | WDT_TASK_ACTIVE

record WATCHDOG_TASK =
  usTimeout :: u16
  usCurrentTime :: u16
  wd_eState :: WATCHDOG_STATE

record watchdog =
  pstWDT :: "nat list"
  wd_tasks :: "nat \<Rightarrow> WATCHDOG_TASK"
  kicks :: nat

abbreviation (input) NUM_WDT_ENTRIES :: nat where "NUM_WDT_ENTRIES \<equiv> 20"
abbreviation (input) TIME_PER_KICK_MS :: u16 where "TIME_PER_KICK_MS \<equiv> 200"

definition Watchdog_Init :: "watchdog \<Rightarrow> watchdog" where
  "Watchdog_Init w = w\<lparr>pstWDT := replicate NUM_WDT_ENTRIES 0\<rparr>"

text \<open>The loop of \<^verbatim>\<open>Watchdog_AddTask\<close> returns in its first iteration.\<close>

definition Watchdog_AddTask :: "nat \<Rightarrow> u16 \<Rightarrow> watchdog \<Rightarrow> bool \<times> watchdog" where
  "Watchdog_AddTask t time w =
    (let w' = (if pstWDT w ! 0 \<noteq> 0
               then w\<lparr>pstWDT := (pstWDT w)[0 := t],
                 wd_tasks := (wd_tasks w)(t := \<lparr>usTimeout = time, usCurrentTime = 0, wd_eState = WDT_TASK_IDLE\<rparr>)\<rparr>
               else w)
     in (True, w'))"

definition Watchdog_RemoveTask :: "nat \<Rightarrow> watchdog \<Rightarrow> watchdog" where
  "Watchdog_RemoveTask t w =
    (if t \<in> set (pstWDT w)
     then w\<lparr>pstWDT := map (\<lambda>p. if p = t then 0 else p) (pstWDT w),
       wd_tasks := (wd_tasks w)(t := (wd_tasks w t)\<lparr>wd_eState := WDT_TASK_IDLE\<rparr>)\<rparr>
     else w)"

definition Watchdog_StartTask :: "nat \<Rightarrow> watchdog \<Rightarrow> watchdog" where
  "Watchdog_StartTask t w = w\<lparr>wd_tasks := (wd_tasks w)(t := (wd_tasks w t)\<lparr>wd_eState := WDT_TASK_ACTIVE, usCurrentTime := 0\<rparr>)\<rparr>"

definition Watchdog_IdleTask :: "nat \<Rightarrow> watchdog \<Rightarrow> watchdog" where
  "Watchdog_IdleTask t w = w\<lparr>wd_tasks := (wd_tasks w)(t := (wd_tasks w t)\<lparr>wd_eState := WDT_TASK_IDLE, usCurrentTime := 0\<rparr>)\<rparr>"

definition watchdog_entry :: "nat \<Rightarrow> bool \<times> (nat \<Rightarrow> WATCHDOG_TASK) \<Rightarrow> bool \<times> (nat \<Rightarrow> WATCHDOG_TASK)" where
  "watchdog_entry p = (\<lambda>(kick, ts).
    if p \<noteq> 0 \<and> wd_eState (ts p) = WDT_TASK_ACTIVE then
      (if usCurrentTime (ts p) < usTimeout (ts p)
       then (kick, ts(p := (ts p)\<lparr>usCurrentTime := usCurrentTime (ts p) + TIME_PER_KICK_MS\<rparr>))
       else (False, ts))
    else (kick, ts))"

definition Watchdog_Tick :: "watchdog \<Rightarrow> watchdog" where
  "Watchdog_Tick w =
    (let (kick, ts) = fold watchdog_entry (pstWDT w) (True, wd_tasks w)
     in w\<lparr>wd_tasks := ts, kicks := (if kick then kicks w + 1 else kicks w)\<rparr>)"

section \<open>Properties of the services\<close>

lemma next_index_zero: "(if n \<le> n + 1 then 0 else n + 1) = (0 :: u16)"
proof (cases "n \<le> n + 1")
  case False
  then have "n = - 1"
    using inc_less_eq_self_iff_eq by fastforce
  then show ?thesis by simp
qed simp

lemma Semaphore_Post_returns:
  assumes "pending (tasks k) (pstTask s) xs"
  shows "\<exists>s' k'. Semaphore_Post s k = Some (s', k')"
proof (cases xs)
  case Nil
  with assms show ?thesis by (simp add: Semaphore_Post_def)
next
  case (Cons x ys)
  then obtain s' k' where "Semaphore_WakeNextPending s k = Some (s', k')"
    using sl.wake_highest [OF assms] by blast
  with assms Cons show ?thesis by (auto simp: Semaphore_Post_def)
qed

text \<open>The one-place mailbox a message queue is.\<close>

definition mailbox :: "MESSAGE_STRUCT \<Rightarrow> (u16 \<times> u16) option" where
  "mailbox q = (if bEmpty q then None else Some (usEventID (pstEvents q 0), usEventData (pstEvents q 0)))"

definition queue_ok :: "MESSAGE_STRUCT \<Rightarrow> bool" where
  "queue_ok q \<longleftrightarrow> usHead q = 0 \<and> usTail q = 0 \<and> bFull q = (\<not> bEmpty q)"

text \<open>
  C31. A message queue is a mailbox for one event, whatever size it was made with.  A fresh queue is
  empty; sending succeeds exactly when the mailbox is empty and fills it; reading returns its content
  and empties it, and returns zeros from an empty one.
\<close>

theorem message_queue_mailbox:
  assumes "queue_ok q" "pending (tasks k) (pstTask (stSem q)) xs"
  shows "queue_ok (Message_Init events n) \<and> mailbox (Message_Init events n) = None \<and>
    (\<exists>q' k'. Message_Send q ident data k = Some (mailbox q = None, q', k') \<and> queue_ok q' \<and>
      mailbox q' = (if mailbox q = None then Some (ident, data) else mailbox q)) \<and>
    (\<exists>q'. Message_Read q = (mailbox q \<noteq> None, fst (case mailbox q of None \<Rightarrow> (0, 0) | Some e \<Rightarrow> e),
        snd (case mailbox q of None \<Rightarrow> (0, 0) | Some e \<Rightarrow> e), q') \<and>
      queue_ok q' \<and> mailbox q' = None)"
proof (intro conjI)
  show "queue_ok (Message_Init events n)" "mailbox (Message_Init events n) = None"
    by (simp_all add: queue_ok_def mailbox_def Message_Init_def)
  show "\<exists>q' k'. Message_Send q ident data k = Some (mailbox q = None, q', k') \<and> queue_ok q' \<and>
      mailbox q' = (if mailbox q = None then Some (ident, data) else mailbox q)"
  proof (cases "bEmpty q")
    case True
    obtain s' k' where "Semaphore_Post (stSem q) k = Some (s', k')"
      using Semaphore_Post_returns [OF assms(2)] by blast
    with True assms(1) show ?thesis
      by (simp add: Message_Send_def queue_ok_def mailbox_def next_index_zero Let_def)
  next
    case False
    with assms(1) show ?thesis
      by (simp add: Message_Send_def queue_ok_def mailbox_def)
  qed
  show "\<exists>q'. Message_Read q = (mailbox q \<noteq> None, fst (case mailbox q of None \<Rightarrow> (0, 0) | Some e \<Rightarrow> e),
      snd (case mailbox q of None \<Rightarrow> (0, 0) | Some e \<Rightarrow> e), q') \<and> queue_ok q' \<and> mailbox q' = None"
    using assms(1) by (simp add: Message_Read_def queue_ok_def mailbox_def next_index_zero Let_def)
qed

definition no_events :: "nat \<Rightarrow> EVENT_STRUCT" where
  "no_events _ = \<lparr>usEventID = 0, usEventData = 0\<rparr>"

theorem message_queue_mailbox_witness:
  "\<exists>q' k'. Message_Send (Message_Init no_events 8) 5 6 blank_kernel = Some (True, q', k') \<and> mailbox q' = Some (5, 6)"
proof -
  have "queue_ok (Message_Init no_events 8)" "pending (tasks blank_kernel) (pstTask (stSem (Message_Init no_events 8))) []"
    "mailbox (Message_Init no_events 8) = None"
    by (simp_all add: queue_ok_def mailbox_def Message_Init_def Semaphore_Init_def)
  with message_queue_mailbox [OF this(1, 2), of no_events 8 5 6] show ?thesis by auto
qed

subsection \<open>Timers\<close>

fun timer_ticks :: "nat \<Rightarrow> TIMER_STRUCT list \<Rightarrow> TIMER_STRUCT list \<times> nat list" where
  "timer_ticks 0 xs = (xs, [])"
| "timer_ticks (Suc n) xs =
    (let (ys, cs) = timer_ticks n xs; (zs, ds) = Timer_Tick ys in (zs, cs @ ds))"

text \<open>A running timer and the number of its calls after some ticks.\<close>

definition timer_after :: "nat \<Rightarrow> TIMER_STRUCT \<Rightarrow> TIMER_STRUCT" where
  "timer_after n x =
    (let T = unat (usTicks x); off = unat (usOffset x)
     in x\<lparr>usTickCount := of_nat (if n < off then n else off + (n - off) mod T)\<rparr>)"

lemma timer_step_after:
  assumes "tm_eState x = TIMER_STATE_OPEN" "usTickCount x = 0" "0 < unat (usTicks x)"
    "unat (usTicks x) + unat (usOffset x) < 65536" "pfCallback x \<noteq> 0"
  shows "timer_step (timer_after n x) = (timer_after (Suc n) x,
    if unat (usOffset x) \<le> n \<and> Suc (n - unat (usOffset x)) mod unat (usTicks x) = 0 then [pfCallback x] else [])"
proof -
  let ?T = "unat (usTicks x)" and ?o = "unat (usOffset x)"
  define c where "c = (if n < ?o then n else ?o + (n - ?o) mod ?T)"
  have c: "c < ?T + ?o"
    using assms(3) mod_less_divisor [of ?T "n - ?o"] by (simp add: c_def)
  have "usTicks x + usOffset x = of_nat (?T + ?o)" "of_nat c + 1 = (of_nat (Suc c) :: u16)"
    by (simp_all add: ac_simps)
  then have eq: "of_nat c + 1 = usTicks x + usOffset x \<longleftrightarrow> Suc c = ?T + ?o"
    using of_nat_u16_inj [of "Suc c" "?T + ?o"] c assms(4) by (auto simp del: of_nat_Suc of_nat_add)
  have step: "timer_step (timer_after n x) =
      (if Suc c = ?T + ?o then (x\<lparr>usTickCount := usOffset x\<rparr>, [pfCallback x]) else (x\<lparr>usTickCount := of_nat (Suc c)\<rparr>, []))"
    using assms(1, 5) eq by (simp add: timer_step_def timer_after_def c_def [symmetric] Let_def ac_simps)
  show ?thesis
  proof (cases "n < ?o")
    case True
    then have "c = n" "Suc c \<noteq> ?T + ?o"
      using assms(3) by (auto simp: c_def)
    moreover have "(if Suc n < ?o then Suc n else ?o + (Suc n - ?o) mod ?T) = Suc n"
      using True by (cases "Suc n < ?o") auto
    then have "timer_after (Suc n) x = x\<lparr>usTickCount := of_nat (Suc n)\<rparr>"
      by (simp only: timer_after_def Let_def)
    ultimately show ?thesis
      using True step by simp
  next
    case False
    then have n: "c = ?o + (n - ?o) mod ?T" "Suc n - ?o = Suc (n - ?o)"
      by (auto simp: c_def)
    then have "Suc c = ?T + ?o \<longleftrightarrow> Suc (n - ?o) mod ?T = 0"
      using assms(3) by (auto simp: mod_Suc)
    moreover have "Suc (n - ?o) mod ?T = (if Suc c = ?T + ?o then 0 else Suc ((n - ?o) mod ?T))"
      using assms(3) n(1) by (auto simp: mod_Suc)
    ultimately show ?thesis
      using False step n by (auto simp: timer_after_def Let_def)
  qed
qed

lemma timer_ticks_index:
  assumes "i < length xs" "tm_eState (xs ! i) = TIMER_STATE_OPEN" "usTickCount (xs ! i) = 0"
    "0 < unat (usTicks (xs ! i))" "unat (usTicks (xs ! i)) + unat (usOffset (xs ! i)) < 65536" "pfCallback (xs ! i) \<noteq> 0"
  shows "length (fst (timer_ticks n xs)) = length xs \<and> fst (timer_ticks n xs) ! i = timer_after n (xs ! i) \<and>
    (\<forall>j<length xs. pfCallback (fst (timer_ticks n xs) ! j) = pfCallback (xs ! j))"
proof (induction n)
  case 0
  have "timer_after 0 (xs ! i) = xs ! i"
    using assms(3) by (simp add: timer_after_def Let_def)
  then show ?case by simp
next
  case (Suc n)
  have "pfCallback (fst (timer_step x)) = pfCallback x" for x
    by (simp add: timer_step_def Let_def)
  with Suc assms(1) timer_step_after [OF assms(2-6), of n] show ?case
    by (auto simp: Timer_Tick_def split_beta Let_def)
qed

lemma timer_calls_single:
  assumes "i < length ys" "\<And>j. j < length ys \<Longrightarrow> j \<noteq> i \<Longrightarrow> pfCallback (ys ! j) \<noteq> cb"
  shows "count_list (snd (Timer_Tick ys)) cb = count_list (snd (timer_step (ys ! i))) cb"
proof -
  have other: "count_list (snd (timer_step x)) cb = 0" if "pfCallback x \<noteq> cb" for x
    using that by (simp add: timer_step_def Let_def)
  have zero: "count_list (concat (map (snd \<circ> timer_step) zs)) cb = 0" if "\<forall>z\<in>set zs. pfCallback z \<noteq> cb" for zs
    using that by (induction zs) (simp_all add: other)
  have "ys = take i ys @ ys ! i # drop (Suc i) ys"
    by (rule id_take_nth_drop [OF assms(1)])
  then have "snd (Timer_Tick ys) = concat (map (snd \<circ> timer_step) (take i ys)) @ snd (timer_step (ys ! i)) @
      concat (map (snd \<circ> timer_step) (drop (Suc i) ys))"
    unfolding Timer_Tick_def by (metis comp_apply concat.simps(2) concat_append list.simps(9) map_append snd_conv)
  moreover have "pfCallback z \<noteq> cb" if "z \<in> set (take i ys) \<union> set (drop (Suc i) ys)" for z
  proof -
    consider j where "j < i" "z = ys ! j" | j where "j < length ys - Suc i" "z = ys ! (Suc i + j)"
      using \<open>z \<in> set (take i ys) \<union> set (drop (Suc i) ys)\<close> assms(1) by (auto simp: in_set_conv_nth)
    then obtain j where "j < length ys" "j \<noteq> i" "z = ys ! j"
    proof cases
      case (1 j)
      then show ?thesis using that [of j] assms(1) by simp
    next
      case (2 j)
      then show ?thesis using that [of "Suc i + j"] by simp
    qed
    then show ?thesis
      using assms(2) by blast
  qed
  ultimately show ?thesis
    by (simp add: zero)
qed

lemma div_Suc_count: "0 < T \<Longrightarrow> Suc n div T = n div T + (if Suc n mod T = 0 then 1 else 0)"
  by (simp add: div_Suc)

text \<open>
  C32. A timer started with a period of T ticks (T at least 1) and an offset, the two together below
  65536, runs its callback first after offset + T ticks and then every T ticks: in n ticks it has run
  it (n - offset) div T times, 0 times up to the offset.
\<close>

theorem timer_fires_periodically:
  assumes "i < length xs" "tm_eState (xs ! i) = TIMER_STATE_OPEN" "usTickCount (xs ! i) = 0"
    "0 < unat (usTicks (xs ! i))" "unat (usTicks (xs ! i)) + unat (usOffset (xs ! i)) < 65536" "pfCallback (xs ! i) \<noteq> 0"
    and "\<And>j. j < length xs \<Longrightarrow> j \<noteq> i \<Longrightarrow> pfCallback (xs ! j) \<noteq> pfCallback (xs ! i)"
  shows "count_list (snd (timer_ticks n xs)) (pfCallback (xs ! i)) = (n - unat (usOffset (xs ! i))) div unat (usTicks (xs ! i))"
proof (induction n)
  case (Suc n)
  let ?T = "unat (usTicks (xs ! i))" and ?o = "unat (usOffset (xs ! i))" and ?cb = "pfCallback (xs ! i)"
  let ?ys = "fst (timer_ticks n xs)"
  have ys: "length ?ys = length xs" "?ys ! i = timer_after n (xs ! i)" "\<forall>j<length xs. pfCallback (?ys ! j) = pfCallback (xs ! j)"
    using timer_ticks_index [OF assms(1-6)] by blast+
  have "count_list (snd (Timer_Tick ?ys)) ?cb = count_list (snd (timer_step (?ys ! i))) ?cb"
    by (rule timer_calls_single) (use ys(1, 3) assms(1, 7) in auto)
  then have "count_list (snd (Timer_Tick ?ys)) ?cb = (if ?o \<le> n \<and> Suc (n - ?o) mod ?T = 0 then 1 else 0)"
    unfolding ys(2) timer_step_after [OF assms(2-6)] by simp
  moreover have "snd (timer_ticks (Suc n) xs) = snd (timer_ticks n xs) @ snd (Timer_Tick ?ys)"
    by (simp add: split_beta Let_def)
  moreover have "(Suc n - ?o) div ?T = (n - ?o) div ?T + (if ?o \<le> n \<and> Suc (n - ?o) mod ?T = 0 then 1 else 0)"
    using div_Suc_count [OF assms(4), of "n - ?o"] by (cases "?o \<le> n") (auto simp: Suc_diff_le)
  ultimately show ?case
    using Suc.IH by simp
qed simp

theorem timer_fires_periodically_witness:
  "count_list (snd (timer_ticks 17 [\<lparr>usTicks = 5, usOffset = 2, usTickCount = 0, tm_eState = TIMER_STATE_OPEN, pfCallback = 9\<rparr>])) 9 = 3"
  using timer_fires_periodically
    [of 0 "[\<lparr>usTicks = 5, usOffset = 2, usTickCount = 0, tm_eState = TIMER_STATE_OPEN, pfCallback = 9\<rparr>]" 17]
  by simp

subsection \<open>The timer interrupt\<close>

lemma Task_Tick_disabled:
  assumes "ring k rest" "\<not> bGlobalTaskEnable k" "Task_Tick k = Some (b, k')"
  shows "\<not> b"
proof -
  obtain s e where q: "tick_quantum (tasks k (pstCurrentTask k)) = (s, e)"
    by fastforce
  define k1 where "k1 = upd_task (pstCurrentTask k) (\<lambda>_. s) k"
  have "pstNext s = pstNext (tasks k (pstCurrentTask k))"
    using tick_quantum_keeps(1) [of "tasks k (pstCurrentTask k)"] q by simp
  then have "ring k1 rest" "pstCurrentTask k1 = pstCurrentTask k"
    using assms(1) by (simp_all add: k1_def ring_upd_task)
  then obtain c where "tick_loop (pstCurrentTask k) (pstCurrentTask k) k1 e =
      Some (c, k1\<lparr>tasks := tick_tasks (pstCurrentTask k # rest) (tasks k1)\<rparr>)"
    using tick_loop_segment [of k1 "pstCurrentTask k" "pstCurrentTask k # rest" "pstCurrentTask k" e] by (auto simp: ring_def)
  then show ?thesis
    using assms(2, 3) q by (auto simp: Task_Tick_def k1_def Let_def)
qed

text \<open>
  One timer interrupt with the scheduler enabled runs the timers and one tick of the scheduler,
  and leaves the scheduler enabled.  It requests a context switch whatever the tick returned, so the
  tasks of one priority change at every tick, before their time slices of several ticks are used up.
\<close>

theorem tick_interrupt_switches:
  assumes "ring k rest" "bGlobalTaskEnable k"
  shows "\<exists>b k1 k'. Task_Tick (Task_SetScheduler False k) = Some (b, k1) \<and> \<not> b \<and> ring k' rest \<and>
    TIMER1_COMPA_vect (k, tm) = Some ((k', fst (Timer_Tick tm)), snd (Timer_Tick tm)) \<and>
    tasks k' = tasks k1 \<and> bGlobalTaskEnable k' \<and> swi_pending k'"
proof -
  have r: "ring (Task_SetScheduler False k) rest"
    using assms(1) by (subst ring_frame [of _ k]) (simp_all add: Task_SetScheduler_def)
  obtain b k1 where k1: "Task_Tick (Task_SetScheduler False k) = Some (b, k1)" "ring k1 rest"
    by (rule Task_Tick_ring [OF r])
  have "\<not> b"
    using Task_Tick_disabled [OF r _ k1(1)] by (simp add: Task_SetScheduler_def)
  define k' where "k' = Task_YieldSWI (Task_SetScheduler True k1)"
  have "TIMER1_COMPA_vect (k, tm) = Some ((k', fst (Timer_Tick tm)), snd (Timer_Tick tm))"
    using assms(2) k1(1) by (simp add: TIMER1_COMPA_vect_def Task_IsSchedulerEnabled_def Let_def split_beta k'_def)
  moreover have "ring k' rest"
    using k1(2) by (subst ring_frame [of _ k1]) (simp_all add: k'_def Task_SetScheduler_def)
  moreover have "tasks k' = tasks k1" "bGlobalTaskEnable k'" "swi_pending k'"
    by (simp_all add: k'_def Task_YieldSWI_def KernelSWI_Trigger_def Task_SetScheduler_def)
  ultimately show ?thesis
    using k1(1) \<open>\<not> b\<close> by blast
qed

theorem tick_interrupt_switches_witness:
  "\<exists>k'. TIMER1_COMPA_vect (two_tasks, []) = Some ((k', []), []) \<and> swi_pending k'"
proof -
  have "bGlobalTaskEnable two_tasks"
    by (simp add: two_tasks_def Task_Add_def Task_Init_def blank_kernel_def Let_def)
  with tick_interrupt_switches [OF two_tasks_ring(1), of "[]"] show ?thesis
    by (auto simp: Timer_Tick_def)
qed

subsection \<open>The watchdog\<close>

inductive watchdog_reachable :: "watchdog \<Rightarrow> bool" where
  init: "watchdog_reachable (Watchdog_Init w)"
| add: "watchdog_reachable w \<Longrightarrow> watchdog_reachable (snd (Watchdog_AddTask t time w))"
| remove: "watchdog_reachable w \<Longrightarrow> t \<noteq> 0 \<Longrightarrow> watchdog_reachable (Watchdog_RemoveTask t w)"
| start: "watchdog_reachable w \<Longrightarrow> watchdog_reachable (Watchdog_StartTask t w)"
| idle: "watchdog_reachable w \<Longrightarrow> watchdog_reachable (Watchdog_IdleTask t w)"
| tick: "watchdog_reachable w \<Longrightarrow> watchdog_reachable (Watchdog_Tick w)"

lemma Watchdog_Tick_keeps: "pstWDT (Watchdog_Tick w) = pstWDT w"
  by (simp add: Watchdog_Tick_def split_beta Let_def)

lemma watchdog_table: "watchdog_reachable w \<Longrightarrow> pstWDT w = replicate NUM_WDT_ENTRIES 0"
  by (induction rule: watchdog_reachable.induct)
    (auto simp: Watchdog_Init_def Watchdog_AddTask_def Watchdog_RemoveTask_def Watchdog_StartTask_def
      Watchdog_IdleTask_def Watchdog_Tick_keeps)

lemma watchdog_entry_null: "(watchdog_entry 0 ^^ n) s = s"
  by (induction n) (auto simp: watchdog_entry_def split_beta)

text \<open>
  C35. The task watchdog never watches a task.  Whatever tasks are added, started and removed, adding
  reports success but the table stays empty, and every tick kicks the hardware watchdog, even when an
  active task is past its deadline.
\<close>

theorem watchdog_never_watches:
  assumes "watchdog_reachable w"
  shows "Watchdog_AddTask t time w = (True, w) \<and> Watchdog_Tick w = w\<lparr>kicks := kicks w + 1\<rparr>"
  using watchdog_table [OF assms]
  by (simp add: Watchdog_AddTask_def Watchdog_Tick_def watchdog_entry_null split_beta Let_def del: replicate.simps)

definition late_task :: watchdog where
  "late_task = Watchdog_Init \<lparr>pstWDT = [], wd_tasks = \<lambda>_. \<lparr>usTimeout = 100, usCurrentTime = 400, wd_eState = WDT_TASK_ACTIVE\<rparr>, kicks = 0\<rparr>"

theorem watchdog_never_watches_witness:
  "watchdog_reachable late_task \<and> fst (Watchdog_AddTask 1 100 late_task) \<and> kicks (Watchdog_Tick late_task) = 1"
proof -
  have "watchdog_reachable late_task"
    unfolding late_task_def by (rule watchdog_reachable.init)
  with watchdog_never_watches [OF this, of 1 100] show ?thesis
    by (simp add: late_task_def Watchdog_Init_def)
qed

end
