(* ===== verification/Lcd.thy ===== *)
theory Lcd
  imports Lcd_Font
begin

text \<open>
  The driver of the PCD8544 display (\<^verbatim>\<open>displayDriver/PCD8544.cpp\<close>): drawing into the memory buffer, and sending the
  buffer to the display bit by bit.  The calls of the wiringPi library (\<^verbatim>\<open>pinMode\<close>, \<^verbatim>\<open>digitalWrite\<close>) are recorded
  in a trace.  A drawing operation returns None when one of its loops with an 8-bit counter never
  ends, or when it reads past the font.  \<^verbatim>\<open>updateBoundingBox\<close> does nothing in the configuration the code has.  A \<^verbatim>\<open>char\<close> is unsigned, as on the
  ARM processor of the host.
\<close>

abbreviation (input) LCDWIDTH :: nat where "LCDWIDTH \<equiv> 84"
abbreviation (input) LCDHEIGHT :: nat where "LCDHEIGHT \<equiv> 48"
abbreviation (input) BLACK :: u8 where "BLACK \<equiv> 1"

section \<open>State\<close>

datatype gpio = PinOutput u8 | DigitalWrite u8 bool

record lcd =
  pcd8544_buffer :: "u8 list"
  cursor_x :: u8
  cursor_y :: u8
  textsize :: u8
  textcolor :: u8
  pin_din :: u8
  pin_sclk :: u8
  pin_dc :: u8
  pin_rst :: u8
  pin_cs :: u8
  pin_trace :: "gpio list"

definition emit :: "gpio list \<Rightarrow> lcd \<Rightarrow> lcd" where
  "emit es l = l\<lparr>pin_trace := pin_trace l @ es\<rparr>"

definition lcd_draw :: "(u8 list \<Rightarrow> u8 list) \<Rightarrow> lcd \<Rightarrow> lcd" where
  "lcd_draw f l = l\<lparr>pcd8544_buffer := f (pcd8544_buffer l)\<rparr>"

section \<open>Pixels\<close>

definition my_setpixel :: "u8 \<Rightarrow> u8 \<Rightarrow> u8 \<Rightarrow> u8 list \<Rightarrow> u8 list" where
  "my_setpixel x y color buf =
    (if LCDWIDTH \<le> unat x \<or> LCDHEIGHT \<le> unat y then buf
     else
       let n = unat x + (unat y div 8) * LCDWIDTH; bv = push_bit (unat y mod 8) 1
       in if color \<noteq> 0 then buf[n := buf ! n OR bv] else buf[n := buf ! n AND NOT bv])"

definition LCDsetPixel :: "u8 \<Rightarrow> u8 \<Rightarrow> u8 \<Rightarrow> lcd \<Rightarrow> lcd" where
  "LCDsetPixel x y color l =
    (if LCDWIDTH \<le> unat x \<or> LCDHEIGHT \<le> unat y then l
     else
       let n = unat x + (unat y div 8) * LCDWIDTH; bv = push_bit (unat y mod 8) 1; buf = pcd8544_buffer l
       in if color \<noteq> 0 then l\<lparr>pcd8544_buffer := buf[n := buf ! n OR bv]\<rparr>
          else l\<lparr>pcd8544_buffer := buf[n := buf ! n AND NOT bv]\<rparr>)"

definition LCDgetPixel :: "u8 \<Rightarrow> u8 \<Rightarrow> lcd \<Rightarrow> u8" where
  "LCDgetPixel x y l =
    (if LCDWIDTH \<le> unat x \<or> LCDHEIGHT \<le> unat y then 0
     else drop_bit (7 - unat y mod 8) (pcd8544_buffer l ! (unat x + (unat y div 8) * LCDWIDTH)) AND 1)"

definition LCDclear :: "lcd \<Rightarrow> lcd" where
  "LCDclear l = l\<lparr>pcd8544_buffer := replicate 504 0, cursor_x := 0, cursor_y := 0\<rparr>"

section \<open>Shapes\<close>

text \<open>A loop with an 8-bit counter and a limit that is an int: the counter wraps at 256.\<close>

partial_function (option) for_u8 :: "u8 \<Rightarrow> nat \<Rightarrow> (u8 \<Rightarrow> 's \<Rightarrow> 's option) \<Rightarrow> 's \<Rightarrow> 's option" where
  "for_u8 i lim body s =
    (if unat i < lim then Option.bind (body i s) (\<lambda>s'. for_u8 (i + 1) lim body s') else Some s)"

definition LCDfillrect :: "u8 \<Rightarrow> u8 \<Rightarrow> u8 \<Rightarrow> u8 \<Rightarrow> u8 \<Rightarrow> u8 list \<Rightarrow> u8 list option" where
  "LCDfillrect x y w h color =
    for_u8 x (unat x + unat w)
      (\<lambda>i. for_u8 y (unat y + unat h) (\<lambda>j buf. Some (my_setpixel i j color buf)))"

definition LCDdrawrect :: "u8 \<Rightarrow> u8 \<Rightarrow> u8 \<Rightarrow> u8 \<Rightarrow> u8 \<Rightarrow> u8 list \<Rightarrow> u8 list option" where
  "LCDdrawrect x y w h color buf =
    Option.bind
      (for_u8 x (unat x + unat w) (\<lambda>i b. Some (my_setpixel i (y + h - 1) color (my_setpixel i y color b))) buf)
      (for_u8 y (unat y + unat h) (\<lambda>i b. Some (my_setpixel (x + w - 1) i color (my_setpixel x i color b))))"

text \<open>The 8-bit signed error term of the line.\<close>

definition wrap8 :: "int \<Rightarrow> int" where
  "wrap8 n = (n + 128) mod 256 - 128"

partial_function (option) line_loop ::
    "bool \<Rightarrow> u8 \<Rightarrow> u8 \<Rightarrow> u8 \<Rightarrow> u8 \<Rightarrow> u8 \<Rightarrow> u8 \<Rightarrow> u8 \<Rightarrow> int \<Rightarrow> u8 list \<Rightarrow> u8 list option" where
  "line_loop steep x1 dx dy ystep color x0 y0 err buf =
    (if x0 \<le> x1 then
       let buf' = (if steep then my_setpixel y0 x0 color buf else my_setpixel x0 y0 color buf);
           err1 = wrap8 (err - uint dy)
       in if err1 < 0
          then line_loop steep x1 dx dy ystep color (x0 + 1) (y0 + ystep) (wrap8 (err1 + uint dx)) buf'
          else line_loop steep x1 dx dy ystep color (x0 + 1) y0 err1 buf'
     else Some buf)"

definition LCDdrawline :: "u8 \<Rightarrow> u8 \<Rightarrow> u8 \<Rightarrow> u8 \<Rightarrow> u8 \<Rightarrow> u8 list \<Rightarrow> u8 list option" where
  "LCDdrawline x0 y0 x1 y1 color buf =
    (let steep = \<bar>uint y1 - uint y0\<bar> > \<bar>uint x1 - uint x0\<bar>;
         (x0, y0, x1, y1) = (if steep then (y0, x0, y1, x1) else (x0, y0, x1, y1));
         (x0, y0, x1, y1) = (if x0 > x1 then (x1, y1, x0, y0) else (x0, y0, x1, y1));
         dx = x1 - x0;
         dy = word_of_int \<bar>uint y1 - uint y0\<bar>;
         err = wrap8 (uint dx div 2);
         ystep = (if y0 < y1 then 1 else - 1)
     in line_loop steep x1 dx dy ystep color x0 y0 err buf)"

text \<open>The loop the two circle functions share: the octant of the circle, and what to draw for each of its points.\<close>

partial_function (option) circle_loop ::
    "(int \<Rightarrow> int \<Rightarrow> u8 list \<Rightarrow> u8 list option) \<Rightarrow> int \<Rightarrow> int \<Rightarrow> int \<Rightarrow> int \<Rightarrow> int \<Rightarrow> u8 list \<Rightarrow> u8 list option" where
  "circle_loop pts f ddF_x ddF_y x y buf =
    (if x < y then
       let (y', ddF_y', f') = (if 0 \<le> f then (wrap8 (y - 1), wrap8 (ddF_y + 2), wrap8 (f + wrap8 (ddF_y + 2)))
                               else (y, ddF_y, f));
           x' = wrap8 (x + 1);
           ddF_x' = wrap8 (ddF_x + 2);
           f'' = wrap8 (f' + ddF_x')
       in Option.bind (pts x' y' buf) (\<lambda>buf'. circle_loop pts f'' ddF_x' ddF_y' x' y' buf')
     else Some buf)"

definition LCDdrawcircle :: "u8 \<Rightarrow> u8 \<Rightarrow> u8 \<Rightarrow> u8 \<Rightarrow> u8 list \<Rightarrow> u8 list option" where
  "LCDdrawcircle x0 y0 r color buf =
    (let plot = (\<lambda>dx dy. my_setpixel (x0 + word_of_int dx) (y0 + word_of_int dy) color);
         buf' = fold (\<lambda>(dx, dy). plot dx dy) [(0, uint r), (0, - uint r), (uint r, 0), (- uint r, 0)] buf
     in circle_loop
          (\<lambda>x y b. Some (fold (\<lambda>(dx, dy). plot dx dy)
             [(x, y), (- x, y), (x, - y), (- x, - y), (y, x), (- y, x), (y, - x), (- y, - x)] b))
          (wrap8 (1 - uint r)) 1 (wrap8 (- 2 * uint r)) 0 (wrap8 (uint r)) buf')"

text \<open>The vertical lines of the filled circle: the loop condition compares the 8-bit counter with an int.\<close>

partial_function (option) column_loop :: "u8 \<Rightarrow> int \<Rightarrow> (u8 \<Rightarrow> u8 list \<Rightarrow> u8 list) \<Rightarrow> u8 list \<Rightarrow> u8 list option" where
  "column_loop i lim draw buf = (if uint i \<le> lim then column_loop (i + 1) lim draw (draw i buf) else Some buf)"

definition LCDfillcircle :: "u8 \<Rightarrow> u8 \<Rightarrow> u8 \<Rightarrow> u8 \<Rightarrow> u8 list \<Rightarrow> u8 list option" where
  "LCDfillcircle x0 y0 r color buf =
    Option.bind (column_loop (y0 - r) (uint y0 + uint r) (\<lambda>i. my_setpixel x0 i color) buf)
      (circle_loop
        (\<lambda>x y b. Option.bind
          (column_loop (y0 - word_of_int y) (uint y0 + y)
             (\<lambda>i b. my_setpixel (x0 - word_of_int x) i color (my_setpixel (x0 + word_of_int x) i color b)) b)
          (column_loop (y0 - word_of_int x) (uint y0 + x)
             (\<lambda>i b. my_setpixel (x0 - word_of_int y) i color (my_setpixel (x0 + word_of_int y) i color b))))
        (wrap8 (1 - uint r)) 1 (wrap8 (- 2 * uint r)) 0 (wrap8 (uint r)))"

definition LCDdrawbitmap :: "u8 \<Rightarrow> u8 \<Rightarrow> u8 list \<Rightarrow> u8 \<Rightarrow> u8 \<Rightarrow> u8 \<Rightarrow> u8 list \<Rightarrow> u8 list" where
  "LCDdrawbitmap x y bitmap w h color =
    fold (\<lambda>j. fold (\<lambda>i buf.
        if bit (bitmap ! (i + (j div 8) * unat w)) (j mod 8) then my_setpixel (x + of_nat i) (y + of_nat j) color buf else buf)
      [0..<unat w]) [0..<unat h]"

section \<open>Text\<close>

definition glyph_column :: "u8 \<Rightarrow> u8 \<Rightarrow> u8 \<Rightarrow> u8 \<Rightarrow> u8 list \<Rightarrow> u8 list" where
  "glyph_column x y d color =
    fold (\<lambda>j. my_setpixel x (y + of_nat j) (if bit d j then color else (if color = 0 then 1 else 0))) [0..<8]"

definition LCDdrawchar :: "u8 \<Rightarrow> u8 \<Rightarrow> u8 \<Rightarrow> lcd \<Rightarrow> lcd option" where
  "LCDdrawchar x y c l =
    (if LCDHEIGHT \<le> unat y then Some l
     else if LCDWIDTH \<le> unat x + 5 then Some l
     else if length font \<le> unat c * 5 + 4 then None
     else
       Some (lcd_draw
         (glyph_column (x + 5) y 0 (textcolor l) \<circ>
          fold (\<lambda>i. glyph_column (x + of_nat i) y (font ! (unat c * 5 + i)) (textcolor l)) [0..<5]) l))"

definition LCDwrite :: "u8 \<Rightarrow> lcd \<Rightarrow> lcd option" where
  "LCDwrite c l =
    (if c = 10 then Some (l\<lparr>cursor_y := cursor_y l + textsize l * 8, cursor_x := 0\<rparr>)
     else if c = 13 then Some l
     else
       case LCDdrawchar (cursor_x l) (cursor_y l) c l of
         None \<Rightarrow> None
       | Some l1 \<Rightarrow>
           let l2 = l1\<lparr>cursor_x := cursor_x l1 + textsize l1 * 6\<rparr>;
               l3 = (if LCDWIDTH - 5 \<le> unat (cursor_x l2) then l2\<lparr>cursor_x := 0, cursor_y := cursor_y l2 + 8\<rparr> else l2)
           in Some (if LCDHEIGHT \<le> unat (cursor_y l3) then l3\<lparr>cursor_y := 0\<rparr> else l3))"

fun write_all :: "u8 list \<Rightarrow> lcd \<Rightarrow> lcd option" where
  "write_all [] l = Some l"
| "write_all (c # cs) l = (case LCDwrite c l of None \<Rightarrow> None | Some l' \<Rightarrow> write_all cs l')"

definition LCDsetCursor :: "u8 \<Rightarrow> u8 \<Rightarrow> lcd \<Rightarrow> lcd" where
  "LCDsetCursor x y l = l\<lparr>cursor_x := x, cursor_y := y\<rparr>"

definition LCDdrawstring :: "u8 \<Rightarrow> u8 \<Rightarrow> u8 list \<Rightarrow> lcd \<Rightarrow> lcd option" where
  "LCDdrawstring x y str l = write_all str (l\<lparr>cursor_x := x, cursor_y := y\<rparr>)"

definition LCDdrawstring_P :: "u8 \<Rightarrow> u8 \<Rightarrow> u8 list \<Rightarrow> lcd \<Rightarrow> lcd option" where
  "LCDdrawstring_P x y str l = write_all str (l\<lparr>cursor_x := x, cursor_y := y\<rparr>)"

section \<open>The serial interface\<close>

definition shiftOut :: "u8 \<Rightarrow> u8 \<Rightarrow> bool \<Rightarrow> u8 \<Rightarrow> lcd \<Rightarrow> lcd" where
  "shiftOut dataPin clockPin msbfirst val =
    emit (concat (map (\<lambda>i. [DigitalWrite dataPin (if msbfirst then bit val (7 - i) else bit val i),
      DigitalWrite clockPin True, DigitalWrite clockPin False]) [0..<8]))"

definition LCDspiwrite :: "u8 \<Rightarrow> lcd \<Rightarrow> lcd" where
  "LCDspiwrite c l = shiftOut (pin_din l) (pin_sclk l) True c l"

definition LCDcommand :: "u8 \<Rightarrow> lcd \<Rightarrow> lcd" where
  "LCDcommand c l = LCDspiwrite c (emit [DigitalWrite (pin_dc l) False] l)"

definition LCDdata :: "u8 \<Rightarrow> lcd \<Rightarrow> lcd" where
  "LCDdata c l = LCDspiwrite c (emit [DigitalWrite (pin_dc l) True] l)"

definition LCDsetContrast :: "u8 \<Rightarrow> lcd \<Rightarrow> lcd" where
  "LCDsetContrast val =
    (LCDcommand 0x20 \<circ> LCDcommand (0x80 OR (if 0x7F < val then 0x7F else val)) \<circ> LCDcommand (0x20 OR 0x01))"

definition LCDdisplay :: "lcd \<Rightarrow> lcd" where
  "LCDdisplay l =
    LCDcommand 0x40 (fold (\<lambda>p l1.
      fold (\<lambda>col l2. LCDdata (pcd8544_buffer l2 ! (LCDWIDTH * p + col)) l2) [0..<LCDWIDTH]
        (LCDcommand (0x80 OR 0) (LCDcommand (0x40 OR of_nat p) l1))) [0..<6] l)"

definition LCDshowLogo :: "lcd \<Rightarrow> lcd" where
  "LCDshowLogo l = LCDdisplay (l\<lparr>pcd8544_buffer := map (\<lambda>i. pi_logo ! i) [0..<504]\<rparr>)"

definition LCDInit :: "u8 \<Rightarrow> u8 \<Rightarrow> u8 \<Rightarrow> u8 \<Rightarrow> u8 \<Rightarrow> u8 \<Rightarrow> lcd \<Rightarrow> lcd" where
  "LCDInit SCLK DIN DC CS RST contrast l =
    (let l1 = l\<lparr>pin_din := DIN, pin_sclk := SCLK, pin_dc := DC, pin_rst := RST, pin_cs := CS,
           cursor_x := 0, cursor_y := 0, textsize := 1, textcolor := BLACK\<rparr>;
         l2 = emit (map PinOutput [DIN, SCLK, DC, RST, CS]) l1;
         l3 = (if 0 < sint CS then emit [DigitalWrite CS False] l2 else l2);
         l4 = emit [DigitalWrite RST False, DigitalWrite RST True] l3
     in (LCDcommand (0x08 OR 0x04) \<circ> LCDcommand 0x20 \<circ>
         LCDcommand (0x80 OR (if 0x7F < contrast then 0x7F else contrast)) \<circ>
         LCDcommand (0x10 OR 0x4) \<circ> LCDcommand (0x20 OR 0x01)) l4)"

section \<open>The buffer as a picture\<close>

definition pixel :: "u8 list \<Rightarrow> nat \<Rightarrow> nat \<Rightarrow> bool" where
  "pixel buf a b = bit (buf ! (a + (b div 8) * LCDWIDTH)) (b mod 8)"

lemma my_setpixel_length [simp]: "length (my_setpixel x y color buf) = length buf"
  by (simp add: my_setpixel_def Let_def)

lemma pixel_index:
  assumes "x < 84" "a < 84"
  shows "x + m * 84 = a + n * 84 \<longleftrightarrow> x = a \<and> m = (n :: nat)"
proof
  assume eq: "x + m * 84 = a + n * 84"
  have "(x + m * 84) mod 84 = x" "(a + n * 84) mod 84 = a"
    using assms by simp_all
  with eq show "x = a \<and> m = n" by simp
qed simp

lemma pixel_setpixel:
  assumes "length buf = 504" "a < 84" "b < 48"
  shows "pixel (my_setpixel x y color buf) a b = (if unat x = a \<and> unat y = b then color \<noteq> 0 else pixel buf a b)"
proof (cases "unat x < 84 \<and> unat y < 48")
  case True
  let ?n = "unat x + (unat y div 8) * 84"
  have "unat y div 8 < 6"
    using True by (simp add: div_less_iff_less_mult)
  then have n: "?n < 504"
    using True by linarith
  have same: "?n = a + (b div 8) * 84 \<longleftrightarrow> unat x = a \<and> unat y div 8 = b div 8"
    using pixel_index [of "unat x" a] True assms(2) by simp
  have row: "unat y = b \<longleftrightarrow> unat y div 8 = b div 8 \<and> unat y mod 8 = b mod 8"
    by (metis div_mult_mod_eq)
  have len: "b mod 8 < LENGTH(8)" "unat y mod 8 < LENGTH(8)"
    by simp_all
  have bits: "bit (w OR 2 ^ (unat y mod 8)) (b mod 8) \<longleftrightarrow> bit w (b mod 8) \<or> unat y mod 8 = b mod 8"
    "bit (w AND NOT (2 ^ (unat y mod 8))) (b mod 8) \<longleftrightarrow> bit w (b mod 8) \<and> unat y mod 8 \<noteq> b mod 8" for w :: u8
    using len by (auto simp: bit_simps)
  have "pixel (my_setpixel x y color buf) a b =
      (if ?n = a + (b div 8) * 84 then (if color \<noteq> 0 then bit (buf ! ?n) (b mod 8) \<or> unat y mod 8 = b mod 8
         else bit (buf ! ?n) (b mod 8) \<and> unat y mod 8 \<noteq> b mod 8)
       else pixel buf a b)"
    using True n assms(1) by (simp add: my_setpixel_def pixel_def Let_def bits)
  then show ?thesis
    unfolding same row by (auto simp: pixel_def)
next
  case False
  then show ?thesis
    using assms(2, 3) by (auto simp: my_setpixel_def)
qed

text \<open>Drawing a list of points.\<close>

definition plot :: "u8 \<Rightarrow> (nat \<times> nat) list \<Rightarrow> u8 list \<Rightarrow> u8 list" where
  "plot color = fold (\<lambda>(i, j). my_setpixel (of_nat i) (of_nat j) color)"

lemma plot_length [simp]: "length (plot color ps buf) = length buf"
  unfolding plot_def by (induction ps arbitrary: buf) auto

lemma pixel_plot:
  assumes "length buf = 504" "a < 84" "b < 48" "\<forall>(i, j)\<in>set ps. i < 256 \<and> j < 256"
  shows "pixel (plot color ps buf) a b = (if (a, b) \<in> set ps then color \<noteq> 0 else pixel buf a b)"
  using assms(1, 4) unfolding plot_def
proof (induction ps arbitrary: buf)
  case (Cons q ps)
  obtain i j where q: "q = (i, j)"
    by fastforce
  have "unat (of_nat i :: u8) = i" "unat (of_nat j :: u8) = j"
    using Cons.prems q by (simp_all add: unat_of_nat)
  with Cons q assms(2, 3) show ?case
    by (auto simp: pixel_setpixel)
qed simp

lemma for_u8_fold:
  assumes "lim \<le> 255" "\<And>i s. body i s = Some (g i s)"
  shows "for_u8 i lim body s = Some (fold (\<lambda>n. g (of_nat n)) [unat i..<lim] s)"
proof (induction "lim - unat i" arbitrary: i s)
  case 0
  then show ?case by (subst for_u8.simps) simp
next
  case (Suc n)
  then have i: "unat i < lim"
    by simp
  then have nxt: "unat (i + 1) = Suc (unat i)"
    using assms(1) by (subst unat_plus_if') simp
  have "for_u8 i lim body s = for_u8 (i + 1) lim body (g i s)"
    using i assms(2) by (subst for_u8.simps) simp
  also have "\<dots> = Some (fold (\<lambda>n. g (of_nat n)) [Suc (unat i)..<lim] (g i s))"
    using Suc.hyps(1) [of "i + 1" "g i s"] Suc.hyps(2) nxt by simp
  finally show ?case
    using i by (simp add: upt_conv_Cons)
qed

lemma for_u8_returns:
  assumes "for_u8 i lim body s = Some r"
  shows "lim \<le> 255"
proof (rule for_u8.raw_induct [of "\<lambda>i lim body s r. lim \<le> 255", OF _ assms])
  fix f :: "u8 \<Rightarrow> nat \<Rightarrow> (u8 \<Rightarrow> 'a \<Rightarrow> 'a option) \<Rightarrow> 'a \<Rightarrow> 'a option" and i lim body s r
  assume "\<And>i lim body s r. f i lim body s = Some r \<Longrightarrow> lim \<le> 255"
    and "(if unat i < lim then Option.bind (body i s) (f (i + 1) lim body) else Some s) = Some r"
  then show "lim \<le> 255"
    using unsigned_less [of i, where 'a = nat] by (auto simp: bind_eq_Some_conv split: if_splits)
qed

lemma for_u8_diverges: "255 < lim \<Longrightarrow> for_u8 i lim body s = None"
  using for_u8_returns [of i lim body s] by (cases "for_u8 i lim body s") auto

lemma fold_product: "fold (\<lambda>i. fold (\<lambda>j. f (i, j)) js) is s = fold f (List.product is js) s"
  by (induction "is" arbitrary: s) (simp_all add: fold_map comp_def)

lemma LCDfillrect_plot:
  assumes "unat x + unat w \<le> 255" "unat y + unat h \<le> 255"
  shows "LCDfillrect x y w h color buf =
    Some (plot color (List.product [unat x..<unat x + unat w] [unat y..<unat y + unat h]) buf)"
proof -
  have inner: "for_u8 y (unat y + unat h) (\<lambda>j buf. Some (my_setpixel i j color buf)) b =
      Some (fold (\<lambda>j. my_setpixel i (of_nat j) color) [unat y..<unat y + unat h] b)" for i b
    by (rule for_u8_fold) (use assms(2) in simp_all)
  show ?thesis
    unfolding LCDfillrect_def
    by (subst for_u8_fold [OF assms(1) inner])
      (simp add: plot_def fold_product [where f = "\<lambda>(i, j). my_setpixel (of_nat i) (of_nat j) color", symmetric])
qed

lemma LCDdrawrect_plot:
  assumes "unat x + unat w \<le> 255" "unat y + unat h \<le> 255" "0 < unat w" "0 < unat h"
  shows "LCDdrawrect x y w h color buf =
    Some (plot color (concat (map (\<lambda>i. [(i, unat y), (i, unat y + unat h - 1)]) [unat x..<unat x + unat w]) @
      concat (map (\<lambda>j. [(unat x, j), (unat x + unat w - 1, j)]) [unat y..<unat y + unat h])) buf)"
proof -
  have edge: "u + v - 1 = of_nat (unat u + unat v - 1)" if "0 < unat v" for u v :: u8
    using that by (simp add: of_nat_diff)
  have side: "fold (\<lambda>n b. my_setpixel (of_nat n) q color (my_setpixel (of_nat n) p color b)) ns b =
      fold (\<lambda>(i, j). my_setpixel i j color) (concat (map (\<lambda>i. [(of_nat i, p), (of_nat i, q)]) ns)) b" for p q ns b
    by (induction ns arbitrary: b) simp_all
  have top: "fold (\<lambda>n b. my_setpixel q (of_nat n) color (my_setpixel p (of_nat n) color b)) ns b =
      fold (\<lambda>(i, j). my_setpixel i j color) (concat (map (\<lambda>j. [(p, of_nat j), (q, of_nat j)]) ns)) b" for p q ns b
    by (induction ns arbitrary: b) simp_all
  have points: "plot color ps b = fold (\<lambda>(i, j). my_setpixel i j color) (map (\<lambda>(i, j). (of_nat i, of_nat j)) ps) b" for ps b
    by (induction ps arbitrary: b) (auto simp: plot_def)
  show ?thesis
    unfolding LCDdrawrect_def for_u8_fold [OF assms(1) refl] for_u8_fold [OF assms(2) refl] bind.bind_lunit side top
      points edge [OF assms(3)] edge [OF assms(4)]
    by (simp add: map_concat comp_def)
qed

section \<open>Properties of the drawing functions\<close>

text \<open>
  C38. Filling a rectangle whose far edges are at most 255 returns and sets exactly the pixels of the
  rectangle that are on the screen to the colour.  For a rectangle that reaches past 255 to the right the
  function never returns, because its 8-bit counter wraps below the limit.
\<close>

theorem lcd_fillrect_exact:
  assumes "length buf = 504" "a < 84" "b < 48"
  shows "(unat x + unat w \<le> 255 \<and> unat y + unat h \<le> 255 \<longrightarrow>
      (\<exists>buf'. LCDfillrect x y w h color buf = Some buf' \<and> length buf' = 504 \<and>
        pixel buf' a b = (if unat x \<le> a \<and> a < unat x + unat w \<and> unat y \<le> b \<and> b < unat y + unat h
          then color \<noteq> 0 else pixel buf a b))) \<and>
    (255 < unat x + unat w \<longrightarrow> LCDfillrect x y w h color buf = None)"
proof (intro conjI impI)
  assume r: "unat x + unat w \<le> 255 \<and> unat y + unat h \<le> 255"
  let ?ps = "List.product [unat x..<unat x + unat w] [unat y..<unat y + unat h]"
  have "pixel (plot color ?ps buf) a b = (if (a, b) \<in> set ?ps then color \<noteq> 0 else pixel buf a b)"
    by (rule pixel_plot [OF assms]) (use r in auto)
  then show "\<exists>buf'. LCDfillrect x y w h color buf = Some buf' \<and> length buf' = 504 \<and>
      pixel buf' a b = (if unat x \<le> a \<and> a < unat x + unat w \<and> unat y \<le> b \<and> b < unat y + unat h
        then color \<noteq> 0 else pixel buf a b)"
    using r assms(1) by (simp add: LCDfillrect_plot)
next
  assume "255 < unat x + unat w"
  then show "LCDfillrect x y w h color buf = None"
    unfolding LCDfillrect_def by (rule for_u8_diverges)
qed

theorem lcd_fillrect_exact_witness:
  "(\<exists>buf'. LCDfillrect 10 20 5 4 1 (replicate 504 0) = Some buf' \<and> pixel buf' 12 22) \<and>
   LCDfillrect 250 0 10 1 1 (replicate 504 0) = None"
  using lcd_fillrect_exact [of "replicate 504 0" 12 22 10 5 20 4 1]
    lcd_fillrect_exact [of "replicate 504 0" 12 22 250 10 0 1 1] by auto

text \<open>
  Reading a pixel returns the pixel of the mirrored row of the same byte: \<^verbatim>\<open>LCDgetPixel\<close> counts the bits
  of a byte from the other end than \<^verbatim>\<open>LCDsetPixel\<close>.
\<close>

theorem lcd_getpixel_mirrored:
  "LCDgetPixel x y l =
    (if unat x < 84 \<and> unat y < 48
     then of_bool (pixel (pcd8544_buffer l) (unat x) (unat y div 8 * 8 + (7 - unat y mod 8))) else 0)"
proof -
  have byte: "(q * 8 + r) div 8 = q" "(q * 8 + r) mod 8 = r" if "r < 8" for q r :: nat
    using that by simp_all
  have "7 - unat y mod 8 < 8"
    by simp
  note row = byte [OF this, of "unat y div 8"]
  have px: "pixel buf (unat x) (unat y div 8 * 8 + (7 - unat y mod 8)) =
      bit (buf ! (unat x + unat y div 8 * 84)) (7 - unat y mod 8)" for buf
    unfolding pixel_def row ..
  have "w AND 1 = (of_bool (bit w 0) :: u8)" for w :: u8
    by (simp add: and_one_eq bit_0 mod_2_eq_odd)
  then show ?thesis
    unfolding px LCDgetPixel_def by (auto simp: bit_simps)
qed

subsection \<open>Lines\<close>

text \<open>
  The reference for a line: the row of a line that rises \<^term>\<open>dy\<close> in \<^term>\<open>dx\<close> columns, rounded, in column \<^term>\<open>k\<close>,
  and the points of the line.
\<close>

definition line_row :: "nat \<Rightarrow> nat \<Rightarrow> nat \<Rightarrow> nat" where
  "line_row dx dy k = (k * dy + (dx - 1 - dx div 2)) div dx"

lemma wrap8_id: "- 128 \<le> n \<Longrightarrow> n < 128 \<Longrightarrow> wrap8 n = n"
  by (simp add: wrap8_def)

lemma line_row_step:
  assumes "0 < dx" "dy \<le> dx"
  defines "e \<equiv> \<lambda>k. int (dx div 2) - int k * int dy + int (line_row dx dy k) * int dx"
  shows "0 \<le> e k" "e k < int dx"
    and "line_row dx dy (Suc k) = (if e k - int dy < 0 then Suc (line_row dx dy k) else line_row dx dy k)"
proof -
  let ?c = "dx - 1 - dx div 2"
  have c: "int ?c = int dx - 1 - int (dx div 2)"
    using assms(1) by (simp add: of_nat_diff)
  have q: "int (line_row dx dy k) = (int k * int dy + int ?c) div int dx" for k
    by (simp add: line_row_def zdiv_int)
  have e: "e k = int dx - 1 - (int k * int dy + int ?c) mod int dx" for k
    unfolding e_def q c by (simp add: minus_div_mult_eq_mod [symmetric] algebra_simps)
  have m: "0 \<le> (int k * int dy + int ?c) mod int dx" "(int k * int dy + int ?c) mod int dx < int dx" for k
    using assms(1) by simp_all
  show "0 \<le> e k" "e k < int dx"
    using e [of k] m [of k] by linarith+
  let ?a = "k * dy + ?c"
  have "line_row dx dy (Suc k) = (dy + ?a) div dx"
    by (simp add: line_row_def algebra_simps)
  also have "\<dots> = (if dy + ?a mod dx < dx then ?a div dx else Suc (?a div dx))"
  proof -
    have "(dy + ?a) div dx = (dy + ?a mod dx) div dx + ?a div dx"
    proof -
      have "dy + ?a = dy + ?a mod dx + (?a div dx) * dx"
        using mod_div_mult_eq [of ?a dx] by linarith
      then show ?thesis
        using assms(1) by (metis div_mult_self1 less_irrefl add.commute)
    qed
    moreover have "dy + ?a mod dx < 2 * dx"
      using assms(2) mod_less_divisor [OF assms(1), of ?a] by linarith
    then have "(dy + ?a mod dx) div dx = (if dy + ?a mod dx < dx then 0 else 1)"
      using assms(1) by (auto simp: not_less le_div_geq)
    ultimately show ?thesis by simp
  qed
  also have "dy + ?a mod dx < dx \<longleftrightarrow> \<not> e k - int dy < 0"
    unfolding e by (simp add: zmod_int [symmetric] flip: of_nat_add of_nat_mult) linarith
  finally show "line_row dx dy (Suc k) = (if e k - int dy < 0 then Suc (line_row dx dy k) else line_row dx dy k)"
    by (simp add: line_row_def)
qed

lemma line_row_0: "line_row dx dy 0 = 0"
  by (cases "dx = 0") (simp_all add: line_row_def div_less del: One_nat_def)

lemma line_row_bound: "k \<le> dx \<Longrightarrow> line_row dx dy k \<le> dy"
proof (cases "dx = 0")
  case False
  assume "k \<le> dx"
  then have "k * dy + (dx - 1 - dx div 2) \<le> (dx - 1 - dx div 2) + dy * dx"
    by (simp add: mult.commute)
  then have "line_row dx dy k \<le> ((dx - 1 - dx div 2) + dy * dx) div dx"
    unfolding line_row_def by (rule div_le_mono)
  also have "\<dots> = dy"
  proof -
    have "(c + dy * dx) div dx = dy" if "c < dx" for c
      using that by simp
    then show ?thesis
      by this (use False in simp)
  qed
  finally show ?thesis .
qed (simp add: line_row_def)

definition line_err :: "nat \<Rightarrow> nat \<Rightarrow> nat \<Rightarrow> int" where
  "line_err dx dy k = int (dx div 2) - int k * int dy + int (line_row dx dy k) * int dx"

lemma line_err_step:
  assumes "dy \<le> dx"
  shows "0 \<le> line_err dx dy k \<and> line_err dx dy k \<le> int dx \<and>
    line_row dx dy (Suc k) = (if line_err dx dy k - int dy < 0 then Suc (line_row dx dy k) else line_row dx dy k) \<and>
    line_err dx dy (Suc k) = (if line_err dx dy k - int dy < 0 then line_err dx dy k - int dy + int dx else line_err dx dy k - int dy)"
proof (cases "dx = 0")
  case True
  with assms show ?thesis
    by (simp add: line_err_def line_row_def)
next
  case False
  note step = line_row_step [OF _ assms, folded line_err_def]
  have "line_err dx dy (Suc k) = (if line_err dx dy k - int dy < 0 then line_err dx dy k - int dy + int dx else line_err dx dy k - int dy)"
    using step(3) [of k] False by (simp add: line_err_def [of _ _ "Suc k"] line_err_def [of _ _ k] algebra_simps)
  then show ?thesis
    using step [of k] False by auto
qed

definition line_dot :: "bool \<Rightarrow> u8 \<Rightarrow> u8 \<Rightarrow> u8 \<Rightarrow> u8 list \<Rightarrow> u8 list" where
  "line_dot steep color u v = (if steep then my_setpixel v u color else my_setpixel u v color)"

lemma line_loop_fold:
  assumes "dy \<le> dx" "dx \<le> 127" "unat x0 + dx = unat x1" "unat x1 < 255" "k \<le> Suc dx"
  shows "line_loop steep x1 (of_nat dx) (of_nat dy) ystep color (x0 + of_nat k) (y0 + ystep * of_nat (line_row dx dy k)) (line_err dx dy k) buf =
    Some (fold (\<lambda>j. line_dot steep color (x0 + of_nat j) (y0 + ystep * of_nat (line_row dx dy j))) [k..<Suc dx] buf)"
  using assms(5)
proof (induction "Suc dx - k" arbitrary: k buf)
  case 0
  then have k: "k = Suc dx"
    by simp
  have "unat (x0 + of_nat (Suc dx)) = Suc (unat x1)"
    using assms(3, 4) by (subst unat_plus_if') (simp add: unat_of_nat del: of_nat_Suc)
  then have "\<not> x0 + of_nat k \<le> x1"
    by (simp add: k word_le_nat_alt)
  then show ?case
    by (subst line_loop.simps) (simp add: k)
next
  case (Suc n)
  then have k: "k < Suc dx"
    by simp
  let ?e = "line_err dx dy k" and ?y = "y0 + ystep * of_nat (line_row dx dy k)"
  have e: "0 \<le> ?e" "?e \<le> int dx"
    and row: "line_row dx dy (Suc k) = (if ?e - int dy < 0 then Suc (line_row dx dy k) else line_row dx dy k)"
    and err: "line_err dx dy (Suc k) = (if ?e - int dy < 0 then ?e - int dy + int dx else ?e - int dy)"
    using line_err_step [OF assms(1), of k] by blast+
  have u: "uint (of_nat dx :: u8) = int dx" "uint (of_nat dy :: u8) = int dy"
    using assms(1, 2) by (simp_all add: unsigned_of_nat take_bit_nat_eq_self flip: unat_eq_nat_uint)
  have w: "wrap8 (?e - int dy) = ?e - int dy" "?e - int dy < 0 \<Longrightarrow> wrap8 (?e - int dy + int dx) = ?e - int dy + int dx"
    using e assms(1, 2) by (auto intro!: wrap8_id)
  have "unat (x0 + of_nat k) = unat x0 + k"
    using k assms(3, 4) by (subst unat_plus_if') (simp add: unat_of_nat)
  then have le: "x0 + of_nat k \<le> x1"
    using k assms(3) by (simp add: word_le_nat_alt)
  have "line_loop steep x1 (of_nat dx) (of_nat dy) ystep color (x0 + of_nat k) ?y ?e buf =
      line_loop steep x1 (of_nat dx) (of_nat dy) ystep color (x0 + of_nat (Suc k)) (y0 + ystep * of_nat (line_row dx dy (Suc k)))
        (line_err dx dy (Suc k)) (line_dot steep color (x0 + of_nat k) ?y buf)"
  proof (cases "?e - int dy < 0")
    case True
    have "x0 + of_nat k + 1 = x0 + of_nat (Suc k)" "?y + ystep = y0 + ystep * of_nat (Suc (line_row dx dy k))"
      by (simp_all add: algebra_simps)
    with True le w show ?thesis
      by (subst line_loop.simps) (simp only: u row err line_dot_def Let_def if_True if_distribR)
  next
    case False
    have "x0 + of_nat k + 1 = x0 + of_nat (Suc k)"
      by (simp add: algebra_simps)
    with False le w(1) show ?thesis
      by (subst line_loop.simps) (simp only: u row err line_dot_def Let_def if_True if_False if_distribR)
  qed
  with Suc.hyps(1) [of "Suc k" "line_dot steep color (x0 + of_nat k) ?y buf"] Suc.hyps(2) k show ?case
    by (simp add: upt_conv_Cons del: upt_Suc)
qed

definition line_points :: "nat \<Rightarrow> nat \<Rightarrow> nat \<Rightarrow> nat \<Rightarrow> (nat \<times> nat) list" where
  "line_points x0 y0 x1 y1 =
    (let steep = \<bar>int y1 - int y0\<bar> > \<bar>int x1 - int x0\<bar>;
         (u0, v0, u1, v1) = (if steep then (y0, x0, y1, x1) else (x0, y0, x1, y1));
         (u0, v0, u1, v1) = (if u0 > u1 then (u1, v1, u0, v0) else (u0, v0, u1, v1));
         du = u1 - u0;
         row = (\<lambda>k. if v0 < v1 then v0 + line_row du (v1 - v0) k else v0 - line_row du (v0 - v1) k)
     in map (\<lambda>k. if steep then (row k, u0 + k) else (u0 + k, row k)) [0..<Suc du])"

lemma line_dot_of_nat:
  "line_dot steep color (of_nat i) (of_nat j) =
    (case (if steep then (j, i) else (i, j)) of (a, b) \<Rightarrow> my_setpixel (of_nat a) (of_nat b) color)"
  by (simp add: line_dot_def)

lemma line_loop_sorted:
  assumes "unat u0 \<le> unat u1" "unat u1 \<le> 127" "unat v0 \<le> 127" "unat v1 \<le> 127"
    "\<bar>int (unat v1) - int (unat v0)\<bar> \<le> int (unat u1) - int (unat u0)"
  defines "row \<equiv> \<lambda>k. if unat v0 < unat v1 then unat v0 + line_row (unat u1 - unat u0) (unat v1 - unat v0) k
      else unat v0 - line_row (unat u1 - unat u0) (unat v0 - unat v1) k"
  shows "line_loop steep u1 (u1 - u0) (word_of_int \<bar>uint v1 - uint v0\<bar>) (if v0 < v1 then 1 else - 1) color u0 v0
      (wrap8 (uint (u1 - u0) div 2)) buf =
    Some (plot color (map (\<lambda>k. if steep then (row k, unat u0 + k) else (unat u0 + k, row k)) [0..<Suc (unat u1 - unat u0)]) buf)"
proof -
  let ?du = "unat u1 - unat u0" and ?dv = "nat \<bar>int (unat v1) - int (unat v0)\<bar>"
  let ?s = "if v0 < v1 then 1 else - 1 :: u8"
  have dv: "?dv \<le> ?du"
    using assms(1, 5) by linarith
  have du: "u1 - u0 = of_nat ?du"
    using assms(1) by (simp add: of_nat_diff)
  have wdv: "word_of_int \<bar>uint v1 - uint v0\<bar> = (of_nat ?dv :: u8)"
    by (simp add: of_nat_nat)
  have err: "wrap8 (uint (u1 - u0) div 2) = line_err ?du ?dv 0"
  proof -
    note line_row_0 [of ?du ?dv]
    moreover have "uint (u1 - u0) = int ?du"
      using assms(2) unfolding du by (simp add: unsigned_of_nat take_bit_nat_eq_self flip: unat_eq_nat_uint)
    ultimately show ?thesis
      using assms(2) by (simp add: line_err_def wrap8_id zdiv_int)
  qed
  have pt: "v0 + ?s * of_nat (line_row ?du ?dv k) = of_nat (row k)" if "k \<le> ?du" for k
  proof (cases "unat v0 < unat v1")
    case True
    then have "?dv = unat v1 - unat v0"
      by linarith
    with True show ?thesis
      by (simp only: row_def word_less_nat_alt if_True of_nat_add) simp
  next
    case False
    then have eq: "?dv = unat v0 - unat v1"
      by linarith
    then have "line_row ?du (unat v0 - unat v1) k \<le> unat v0"
      using line_row_bound [OF that, of "unat v0 - unat v1"] by linarith
    with False show ?thesis
      unfolding eq by (simp only: row_def word_less_nat_alt if_False of_nat_diff) simp
  qed
  have "line_loop steep u1 (u1 - u0) (word_of_int \<bar>uint v1 - uint v0\<bar>) ?s color u0 v0 (wrap8 (uint (u1 - u0) div 2)) buf =
      Some (fold (\<lambda>j. line_dot steep color (u0 + of_nat j) (v0 + ?s * of_nat (line_row ?du ?dv j))) [0..<Suc ?du] buf)"
    using line_loop_fold [OF dv, of u0 u1 0 steep ?s color v0 buf] assms(1, 2) line_row_0 unfolding du wdv err [unfolded du]
    by simp
  also have "fold (\<lambda>j. line_dot steep color (u0 + of_nat j) (v0 + ?s * of_nat (line_row ?du ?dv j))) [0..<Suc ?du] buf =
      fold (\<lambda>k. line_dot steep color (of_nat (unat u0 + k)) (of_nat (row k))) [0..<Suc ?du] buf"
  proof (rule fold_cong [OF refl refl])
    fix k assume "k \<in> set [0..<Suc ?du]"
    then have "k \<le> ?du"
      by auto
    then show "line_dot steep color (u0 + of_nat k) (v0 + ?s * of_nat (line_row ?du ?dv k)) =
        line_dot steep color (of_nat (unat u0 + k)) (of_nat (row k))"
      unfolding pt [OF \<open>k \<le> ?du\<close>] by simp
  qed
  finally show ?thesis
    unfolding plot_def fold_map comp_def line_dot_of_nat .
qed

lemma LCDdrawline_plot:
  assumes "unat x0 \<le> 127" "unat y0 \<le> 127" "unat x1 \<le> 127" "unat y1 \<le> 127"
  shows "LCDdrawline x0 y0 x1 y1 color buf = Some (plot color (line_points (unat x0) (unat y0) (unat x1) (unat y1)) buf)"
proof -
  have gt: "w > v \<longleftrightarrow> unat w > unat v" for w v :: u8
    by (simp add: word_less_nat_alt)
  define steep where "steep \<longleftrightarrow> \<bar>uint y1 - uint y0\<bar> > \<bar>uint x1 - uint x0\<bar>"
  note unf = LCDdrawline_def line_points_def uint_nat [symmetric] steep_def [symmetric]
  note sorted = line_loop_sorted [where steep = steep and color = color and buf = buf]
  consider (up) "\<not> steep" "unat x0 \<le> unat x1" | (down) "\<not> steep" "unat x1 < unat x0"
    | (left) steep "unat y0 \<le> unat y1" | (right) steep "unat y1 < unat y0"
    by linarith
  then show ?thesis
  proof cases
    case up
    then have "\<bar>int (unat y1) - int (unat y0)\<bar> \<le> int (unat x1) - int (unat x0)"
      unfolding steep_def uint_nat by linarith
    with sorted [of x0 x1 y0 y1] up assms show ?thesis
      unfolding unf by (simp add: gt Let_def del: upt_Suc)
  next
    case down
    then have "\<bar>int (unat y0) - int (unat y1)\<bar> \<le> int (unat x0) - int (unat x1)"
      unfolding steep_def uint_nat by linarith
    with sorted [of x1 x0 y1 y0] down assms show ?thesis
      unfolding unf by (simp add: gt Let_def del: upt_Suc)
  next
    case left
    then have "\<bar>int (unat x1) - int (unat x0)\<bar> \<le> int (unat y1) - int (unat y0)"
      unfolding steep_def uint_nat by linarith
    with sorted [of y0 y1 x0 x1] left assms show ?thesis
      unfolding unf by (simp add: gt Let_def del: upt_Suc)
  next
    case right
    then have "\<bar>int (unat x0) - int (unat x1)\<bar> \<le> int (unat y0) - int (unat y1)"
      unfolding steep_def uint_nat by linarith
    with sorted [of y1 y0 x1 x0] right assms show ?thesis
      unfolding unf by (simp add: gt Let_def del: upt_Suc)
  qed
qed

lemma line_points_bound:
  assumes "(i, j) \<in> set (line_points x0 y0 x1 y1)" "x0 \<le> 127" "y0 \<le> 127" "x1 \<le> 127" "y1 \<le> 127"
  shows "i < 256 \<and> j < 256"
proof -
  have row: "(if v0 < v1 then v0 + line_row (u1 - u0) (v1 - v0) k else v0 - line_row (u1 - u0) (v0 - v1) k) < 256"
    if "v0 \<le> 127" "v1 \<le> 127" "k < Suc (u1 - u0)" for u0 u1 v0 v1 k
    using that line_row_bound [of k "u1 - u0" "v1 - v0"] by auto
  show ?thesis
    using assms row unfolding line_points_def by (auto simp: Let_def split: if_splits simp del: upt_Suc)
qed

text \<open>
  C12. Drawing a line between two points with coordinates up to 127 (the screen has 84 by 48) returns and
  sets exactly the pixels of the rounded line to the colour: the incremental 8-bit error term visits,
  for each step along the longer axis, the row that the reference computes directly by a division.
\<close>

theorem lcd_drawline_reference:
  assumes "unat x0 \<le> 127" "unat y0 \<le> 127" "unat x1 \<le> 127" "unat y1 \<le> 127"
    and "length buf = 504" "a < 84" "b < 48"
  shows "\<exists>buf'. LCDdrawline x0 y0 x1 y1 color buf = Some buf' \<and> length buf' = 504 \<and>
    pixel buf' a b = (if (a, b) \<in> set (line_points (unat x0) (unat y0) (unat x1) (unat y1))
      then color \<noteq> 0 else pixel buf a b)"
proof -
  let ?ps = "line_points (unat x0) (unat y0) (unat x1) (unat y1)"
  have "pixel (plot color ?ps buf) a b = (if (a, b) \<in> set ?ps then color \<noteq> 0 else pixel buf a b)"
    by (rule pixel_plot [OF assms(5-7)]) (use line_points_bound [OF _ assms(1-4)] in auto)
  then show ?thesis
    using assms(5) by (simp add: LCDdrawline_plot [OF assms(1-4)])
qed

theorem lcd_drawline_reference_witness:
  "\<exists>buf'. LCDdrawline 2 3 6 5 1 (replicate 504 0) = Some buf' \<and> pixel buf' 4 4"
proof -
  have "line_points 2 3 6 5 = [(2, 3), (3, 3), (4, 4), (5, 4), (6, 5)]"
    by code_simp
  with lcd_drawline_reference [of 2 3 6 5 "replicate 504 0" 4 4 1] show ?thesis by auto
qed

subsection \<open>Characters and text\<close>

text \<open>The cell of a character, six columns by eight rows: five columns of the font and an empty one.\<close>

definition glyph_bit :: "u8 \<Rightarrow> nat \<Rightarrow> nat \<Rightarrow> bool" where
  "glyph_bit c i j \<longleftrightarrow> i < 5 \<and> bit (font ! (unat c * 5 + i)) j"

lemma glyph_column_length [simp]: "length (glyph_column x y d color buf) = length buf"
proof -
  have "length (fold (\<lambda>j. my_setpixel x (y + of_nat j) (f j)) js buf) = length buf" for f js
    by (induction js arbitrary: buf) simp_all
  then show ?thesis
    by (simp only: glyph_column_def)
qed

lemma pixel_glyph_column:
  assumes "length buf = 504" "a < 84" "b < 48" "unat y < 48"
  shows "pixel (glyph_column x y d color buf) a b =
    (if unat x = a \<and> unat y \<le> b \<and> b < unat y + 8 then bit d (b - unat y) = (color \<noteq> 0) else pixel buf a b)"
proof -
  let ?f = "\<lambda>n. fold (\<lambda>j. my_setpixel x (y + of_nat j) (if bit d j then color else (if color = 0 then 1 else 0))) [0..<n] buf"
  have len: "length (?f n) = 504" for n
    using assms(1) by (induction n) simp_all
  have "pixel (?f n) a b =
      (if unat x = a \<and> unat y \<le> b \<and> b < unat y + n then bit d (b - unat y) = (color \<noteq> 0) else pixel buf a b)"
    if "n \<le> 8" for n
    using that
  proof (induction n)
    case (Suc n)
    have "unat (y + of_nat n) = unat y + n"
      using assms(4) Suc.prems by (subst unat_plus_if') (simp add: unat_of_nat)
    then show ?case
      using Suc len assms(2, 3) by (auto simp: pixel_setpixel)
  qed auto
  from this [of 8] show ?thesis
    by (simp only: glyph_column_def order_refl)
qed

definition glyph :: "u8 \<Rightarrow> u8 \<Rightarrow> u8 \<Rightarrow> u8 \<Rightarrow> u8 list \<Rightarrow> u8 list" where
  "glyph x y c color = glyph_column (x + 5) y 0 color \<circ>
    fold (\<lambda>i. glyph_column (x + of_nat i) y (font ! (unat c * 5 + i)) color) [0..<5]"

lemma glyph_columns_length:
  "length (fold (\<lambda>i. glyph_column (x + of_nat i) y (f i) color) is buf) = length buf"
  by (induction "is" arbitrary: buf) simp_all

lemma glyph_length [simp]: "length (glyph x y c color buf) = length buf"
  by (simp only: glyph_def comp_apply glyph_column_length glyph_columns_length)

lemma pixel_glyph:
  assumes "length buf = 504" "a < 84" "b < 48" "unat y < 48" "unat x + 5 < 84"
  shows "pixel (glyph x y c color buf) a b =
    (if unat x \<le> a \<and> a < unat x + 6 \<and> unat y \<le> b \<and> b < unat y + 8
     then glyph_bit c (a - unat x) (b - unat y) = (color \<noteq> 0) else pixel buf a b)"
proof -
  let ?f = "\<lambda>n. fold (\<lambda>i. glyph_column (x + of_nat i) y (font ! (unat c * 5 + i)) color) [0..<n] buf"
  have len: "length (?f n) = 504" for n
    using assms(1) by (simp add: glyph_columns_length)
  have col: "unat (x + of_nat n) = unat x + n" if "n \<le> 5" for n
    using assms(5) that by (subst unat_plus_if') (simp add: unat_of_nat)
  have columns: "pixel (?f n) a b =
      (if unat x \<le> a \<and> a < unat x + n \<and> unat y \<le> b \<and> b < unat y + 8
       then bit (font ! (unat c * 5 + (a - unat x))) (b - unat y) = (color \<noteq> 0) else pixel buf a b)"
    if "n \<le> 5" for n
    using that
  proof (induction n)
    case (Suc n)
    then show ?case
      using len assms(2, 3, 4) by (auto simp: pixel_glyph_column col)
  qed auto
  have "unat (x + 5) = unat x + 5"
    using col [of 5] by simp
  then show ?thesis
    using columns [of 5] len [of 5] assms(2-4)
    by (auto simp: glyph_def comp_apply pixel_glyph_column glyph_bit_def)
qed

lemma LCDdrawchar_glyph:
  assumes "unat y < 48" "unat x + 5 < 84" "unat c < 255"
  shows "LCDdrawchar x y c l = Some (l\<lparr>pcd8544_buffer := glyph x y c (textcolor l) (pcd8544_buffer l)\<rparr>)"
  using assms by (simp add: LCDdrawchar_def lcd_draw_def glyph_def font_length)

text \<open>
  A line of text in the buffer: the picture of a row of cells, the carriage returns left out, from the cell
  number \<^term>\<open>k\<close> of the text row \<^term>\<open>r\<close> on.
\<close>

definition printable :: "u8 list \<Rightarrow> u8 list" where
  "printable = filter (\<lambda>c. c \<noteq> 13)"

definition text_pixel :: "u8 list \<Rightarrow> nat \<Rightarrow> nat \<Rightarrow> bool" where
  "text_pixel cs a j \<longleftrightarrow> a div 6 < length cs \<and> glyph_bit (cs ! (a div 6)) (a mod 6) j"

lemma LCDwrite_cell:
  assumes "textsize l = 1" "unat (cursor_y l) < 40" "unat (cursor_x l) = 6 * k" "k < 14"
    and "c \<noteq> 10" "c \<noteq> 13" "unat c < 255"
  obtains x y where "LCDwrite c l =
      Some (l\<lparr>pcd8544_buffer := glyph (cursor_x l) (cursor_y l) c (textcolor l) (pcd8544_buffer l), cursor_x := x, cursor_y := y\<rparr>)"
    "k < 13 \<longrightarrow> unat x = 6 * Suc k \<and> y = cursor_y l"
proof -
  have x: "unat (cursor_x l) + 5 < 84"
    using assms(3, 4) by linarith
  have next_x: "unat (cursor_x l + 6) = 6 * Suc k"
    using assms(3, 4) by (subst unat_plus_if') simp
  have next_y: "unat (cursor_y l + 8) < 48"
    using assms(2) by (subst unat_plus_if') simp
  let ?x = "if k < 13 then cursor_x l + 6 else 0" and ?y = "if k < 13 then cursor_y l else cursor_y l + 8"
  have "LCDwrite c l = Some (l\<lparr>pcd8544_buffer := glyph (cursor_x l) (cursor_y l) c (textcolor l) (pcd8544_buffer l),
      cursor_x := ?x, cursor_y := ?y\<rparr>)"
    using assms x next_x next_y by (simp add: LCDwrite_def LCDdrawchar_glyph Let_def)
  then show thesis
    using next_x by (intro that [of ?y ?x]) simp_all
qed

lemma text_pixel_Cons:
  "text_pixel (c # cs) a j = (if a < 6 then glyph_bit c a j else text_pixel cs (a - 6) j)"
proof (cases "a < 6")
  case False
  then obtain a' where "a = a' + 6"
    by (metis add.commute le_Suc_ex not_less)
  moreover have "(a' + 6) div 6 = Suc (a' div 6)"
    by simp
  ultimately show ?thesis
    unfolding text_pixel_def by simp
qed (simp add: text_pixel_def)

lemma write_all_returns: "printable cs = [] \<Longrightarrow> write_all cs l = Some l"
  by (induction cs) (auto simp: printable_def LCDwrite_def split: if_splits)

lemma pixel_cell:
  assumes "length buf = 504" "color \<noteq> 0" "unat y = 8 * r" "r < 5" "unat x = 6 * k" "k < 14" "a < 84" "b < 48"
  shows "pixel (glyph x y c color buf) a b =
    (if 6 * k \<le> a \<and> a < 6 * k + 6 \<and> b div 8 = r then glyph_bit c (a - 6 * k) (b mod 8) else pixel buf a b)"
proof -
  have "8 * r \<le> b \<and> b < 8 * r + 8 \<longleftrightarrow> b div 8 = r"
    by auto
  moreover have "b - 8 * r = b mod 8" if "b div 8 = r"
    using that by (simp add: minus_div_mult_eq_mod [symmetric] mult.commute)
  ultimately show ?thesis
    using pixel_glyph [OF assms(1, 7, 8), of y x c color] assms(2-6) by auto
qed

lemma write_all_text:
  assumes "length (pcd8544_buffer l) = 504" "textsize l = 1" "textcolor l \<noteq> 0" "unat (cursor_y l) = 8 * r" "r < 5"
    and "unat (cursor_x l) = 6 * k" "k + length (printable cs) \<le> 14" "\<forall>c\<in>set cs. c \<noteq> 10 \<and> unat c < 255"
  shows "\<exists>buf' x y. write_all cs l = Some (l\<lparr>pcd8544_buffer := buf', cursor_x := x, cursor_y := y\<rparr>) \<and> length buf' = 504 \<and>
    (\<forall>a<84. \<forall>b<48. pixel buf' a b =
      (if 6 * k \<le> a \<and> a < 6 * (k + length (printable cs)) \<and> b div 8 = r
       then text_pixel (printable cs) (a - 6 * k) (b mod 8) else pixel (pcd8544_buffer l) a b))"
  using assms(1-4) assms(6-8)
proof (induction cs arbitrary: l k)
  case Nil
  then show ?case
    by - (rule exI [of _ "pcd8544_buffer l"], rule exI [of _ "cursor_x l"], rule exI [of _ "cursor_y l"],
      auto simp: printable_def)
next
  case (Cons c cs)
  show ?case
  proof (cases "c = 13")
    case True
    then have same: "printable (c # cs) = printable cs" "write_all (c # cs) l = write_all cs l"
      by (simp_all add: printable_def LCDwrite_def)
    show ?thesis
      unfolding same using Cons.prems same by (intro Cons.IH) simp_all
  next
    case False
    then have cs: "printable (c # cs) = c # printable cs"
      by (simp add: printable_def)
    let ?g = "glyph (cursor_x l) (cursor_y l) c (textcolor l) (pcd8544_buffer l)"
    obtain x y where w: "LCDwrite c l = Some (l\<lparr>pcd8544_buffer := ?g, cursor_x := x, cursor_y := y\<rparr>)"
        and xy: "k < 13 \<longrightarrow> unat x = 6 * Suc k \<and> y = cursor_y l"
      using False Cons.prems cs assms(5) by (elim LCDwrite_cell [of l k c]) auto
    have rest: "\<exists>buf' x' y'. write_all cs (l\<lparr>pcd8544_buffer := ?g, cursor_x := x, cursor_y := y\<rparr>) =
        Some (l\<lparr>pcd8544_buffer := buf', cursor_x := x', cursor_y := y'\<rparr>) \<and> length buf' = 504 \<and>
      (\<forall>a<84. \<forall>b<48. pixel buf' a b =
        (if 6 * Suc k \<le> a \<and> a < 6 * (Suc k + length (printable cs)) \<and> b div 8 = r
         then text_pixel (printable cs) (a - 6 * Suc k) (b mod 8) else pixel ?g a b))"
    proof (cases "k < 13")
      case True
      let ?l1 = "l\<lparr>pcd8544_buffer := ?g, cursor_x := x, cursor_y := y\<rparr>"
      have fields: "?l1\<lparr>pcd8544_buffer := buf, cursor_x := x', cursor_y := y'\<rparr> =
          l\<lparr>pcd8544_buffer := buf, cursor_x := x', cursor_y := y'\<rparr>" "pcd8544_buffer ?l1 = ?g" for buf x' y'
        by simp_all
      from True show ?thesis
        using Cons.prems xy cs by (intro Cons.IH [of ?l1 "Suc k", unfolded fields]) simp_all
    next
      case False
      with cs Cons.prems(6) have "printable cs = []"
        by (cases "printable cs") simp_all
      with Cons.prems(1) show ?thesis
        by - (rule exI [of _ ?g], rule exI [of _ x], rule exI [of _ y], auto simp: write_all_returns)
    qed
    then obtain buf' x' y' where b: "write_all (c # cs) l = Some (l\<lparr>pcd8544_buffer := buf', cursor_x := x', cursor_y := y'\<rparr>)"
        "length buf' = 504" and px: "\<And>a b. a < 84 \<Longrightarrow> b < 48 \<Longrightarrow> pixel buf' a b =
          (if 6 * Suc k \<le> a \<and> a < 6 * (Suc k + length (printable cs)) \<and> b div 8 = r
           then text_pixel (printable cs) (a - 6 * Suc k) (b mod 8) else pixel ?g a b)"
      using w by auto
    have "k < 14"
      using Cons.prems(6) cs by simp
    note g = pixel_cell [OF Cons.prems(1) Cons.prems(3) Cons.prems(4) assms(5) Cons.prems(5) this, of _ _ c]
    show ?thesis
    proof (intro exI conjI allI impI)
      fix a b :: nat assume ab: "a < 84" "b < 48"
      show "pixel buf' a b = (if 6 * k \<le> a \<and> a < 6 * (k + length (printable (c # cs))) \<and> b div 8 = r
          then text_pixel (printable (c # cs)) (a - 6 * k) (b mod 8) else pixel (pcd8544_buffer l) a b)"
        unfolding px [OF ab] g [OF ab] cs text_pixel_Cons by (auto simp: add.commute)
    qed (use b in simp_all)
  qed
qed

subsection \<open>The display behind the pins\<close>

text \<open>
  What the pins drive, as the data sheet of the PCD8544 describes it: the level of the data pin is shifted in at
  every rising edge of the clock; with the eighth bit the byte is stored, when the D/C pin is high, at the
  current address, which then advances by a column, or else obeyed as an instruction: function set
  (basic or extended instructions), or the column or the page of the address.
\<close>

record chip =
  chip_dc :: bool
  chip_din :: bool
  chip_bits :: "bool list"
  chip_extended :: bool
  chip_x :: nat
  chip_y :: nat
  chip_ram :: "u8 list"

definition msb_byte :: "bool list \<Rightarrow> u8" where
  "msb_byte bs = horner_sum of_bool 2 (rev bs)"

definition chip_exec :: "u8 \<Rightarrow> chip \<Rightarrow> chip" where
  "chip_exec c s =
    (if chip_dc s then
       s\<lparr>chip_ram := (chip_ram s)[chip_y s * LCDWIDTH + chip_x s := c],
         chip_x := (if Suc (chip_x s) = LCDWIDTH then 0 else Suc (chip_x s)),
         chip_y := (if Suc (chip_x s) = LCDWIDTH then (if chip_y s = 5 then 0 else Suc (chip_y s)) else chip_y s)\<rparr>
     else if c AND 0xF8 = 0x20 then s\<lparr>chip_extended := bit c 0\<rparr>
     else if chip_extended s then s
     else if c AND 0x80 \<noteq> 0 then s\<lparr>chip_x := unat (c AND 0x7F)\<rparr>
     else if c AND 0x40 \<noteq> 0 then s\<lparr>chip_y := unat (c AND 0x07)\<rparr>
     else s)"

fun chip_step :: "u8 \<Rightarrow> u8 \<Rightarrow> u8 \<Rightarrow> gpio \<Rightarrow> chip \<Rightarrow> chip" where
  "chip_step din sclk dc (PinOutput p) s = s"
| "chip_step din sclk dc (DigitalWrite p v) s =
    (if p = sclk then
       if \<not> v then s
       else if length (chip_bits s) < 7 then s\<lparr>chip_bits := chip_bits s @ [chip_din s]\<rparr>
       else chip_exec (msb_byte (chip_bits s @ [chip_din s])) (s\<lparr>chip_bits := []\<rparr>)
     else if p = dc then s\<lparr>chip_dc := v\<rparr>
     else if p = din then s\<lparr>chip_din := v\<rparr>
     else s)"

text \<open>The state of the display after everything the driver has put on the pins.\<close>

definition screen :: "chip \<Rightarrow> lcd \<Rightarrow> chip" where
  "screen s0 l = fold (chip_step (pin_din l) (pin_sclk l) (pin_dc l)) (pin_trace l) s0"

definition pins_distinct :: "lcd \<Rightarrow> bool" where
  "pins_distinct l \<longleftrightarrow> distinct [pin_din l, pin_sclk l, pin_dc l]"

lemma upt_8: "[0..<8] = [0, 1, 2, 3, 4, 5, 6, 7 :: nat]"
  by code_simp

lemma msb_byte_bits:
  "msb_byte [bit c 7, bit c 6, bit c 5, bit c 4, bit c 3, bit c 2, bit c 1, bit c 0] = (c :: u8)"
proof -
  have "horner_sum of_bool 2 (map (bit c) [0..<8]) = take_bit 8 c"
    by (rule horner_sum_bit_eq_take_bit)
  also have "take_bit 8 c = c"
    by (rule bit_word_eqI) (simp add: bit_simps)
  finally show ?thesis
    unfolding upt_8 msb_byte_def rev.simps list.map append.simps .
qed

text \<open>A command and a data byte, as the display sees them.\<close>

definition sends :: "bool \<Rightarrow> u8 \<Rightarrow> lcd \<Rightarrow> lcd" where
  "sends d c l = LCDspiwrite c (emit [DigitalWrite (pin_dc l) d] l)"

lemma LCDcommand_sends: "LCDcommand c = sends False c"
  and LCDdata_sends: "LCDdata c = sends True c"
  by (simp_all add: fun_eq_iff LCDcommand_def LCDdata_def sends_def)

lemma sends_fields [simp]:
  "pin_din (sends d c l) = pin_din l" "pin_sclk (sends d c l) = pin_sclk l" "pin_dc (sends d c l) = pin_dc l"
  "pcd8544_buffer (sends d c l) = pcd8544_buffer l" "pins_distinct (sends d c l) = pins_distinct l"
  "textsize (sends d c l) = textsize l" "textcolor (sends d c l) = textcolor l"
  by (simp_all add: sends_def LCDspiwrite_def shiftOut_def emit_def pins_distinct_def)

lemma screen_sends:
  assumes "pins_distinct l" "chip_bits (screen s0 l) = []"
  shows "screen s0 (sends d c l) = chip_exec c ((screen s0 l)\<lparr>chip_dc := d, chip_din := bit c 0\<rparr>)"
proof -
  have pins: "pin_din l \<noteq> pin_sclk l" "pin_din l \<noteq> pin_dc l" "pin_sclk l \<noteq> pin_dc l"
      "pin_sclk l \<noteq> pin_din l" "pin_dc l \<noteq> pin_din l" "pin_dc l \<noteq> pin_sclk l"
    using assms(1) by (auto simp: pins_distinct_def)
  have same: "(screen s0 l)\<lparr>chip_dc := d, chip_din := bit c 0, chip_bits := []\<rparr> =
      (screen s0 l)\<lparr>chip_dc := d, chip_din := bit c 0\<rparr>"
    using assms(2) by (cases "screen s0 l") simp
  have "screen s0 (sends d c l) =
      fold (chip_step (pin_din l) (pin_sclk l) (pin_dc l)) (pin_trace (sends d c (l\<lparr>pin_trace := []\<rparr>))) (screen s0 l)"
    by (simp add: screen_def sends_def LCDspiwrite_def shiftOut_def emit_def)
  also have "\<dots> = chip_exec c ((screen s0 l)\<lparr>chip_dc := d, chip_din := bit c 0, chip_bits := []\<rparr>)"
    using assms(2) pins
    by (simp add: sends_def LCDspiwrite_def shiftOut_def emit_def upt_8 msb_byte_bits [simplified])
  finally show ?thesis
    unfolding same .
qed

text \<open>The initialisation puts the display into basic mode.\<close>

lemma screen_emit: "screen s0 (emit es l) = fold (chip_step (pin_din l) (pin_sclk l) (pin_dc l)) es (screen s0 l)"
  by (simp add: screen_def emit_def)

lemma screen_LCDInit:
  fixes contrast :: u8
  assumes "distinct [DIN, SCLK, DC, RST, CS]" "pins_distinct l" "pin_din l = DIN" "pin_sclk l = SCLK" "pin_dc l = DC"
    and "chip_bits (screen s0 l) = []"
  defines "s \<equiv> screen s0 (LCDInit SCLK DIN DC CS RST contrast l)"
  shows "chip_bits s = [] \<and> \<not> chip_extended s \<and> chip_ram s = chip_ram (screen s0 l)"
proof -
  define l4 where "l4 = emit (map PinOutput [DIN, SCLK, DC, RST, CS] @ (if 0 < sint CS then [DigitalWrite CS False] else []) @
    [DigitalWrite RST False, DigitalWrite RST True])
    (l\<lparr>pin_din := DIN, pin_sclk := SCLK, pin_dc := DC, pin_rst := RST, pin_cs := CS,
       cursor_x := 0, cursor_y := 0, textsize := 1, textcolor := BLACK\<rparr>)"
  have l4: "screen s0 l4 = screen s0 l" "pins_distinct l4"
    using assms(1-5) by (auto simp: l4_def screen_emit pins_distinct_def emit_def screen_def)
  have vop: "(0x80 OR v) AND 0xF8 \<noteq> (0x20 :: u8)" for v :: u8
  proof
    assume "(0x80 OR v) AND 0xF8 = (0x20 :: u8)"
    then have "bit ((0x80 OR v) AND 0xF8) 7 = bit (0x20 :: u8) 7"
      by simp
    then show False
      by (simp add: bit_simps)
  qed
  have "LCDInit SCLK DIN DC CS RST contrast l =
      (sends False 0x0C \<circ> sends False 0x20 \<circ> sends False (0x80 OR (if 0x7F < contrast then 0x7F else contrast)) \<circ>
       sends False 0x14 \<circ> sends False 0x21) l4"
    by (simp add: LCDInit_def l4_def LCDcommand_sends emit_def Let_def)
  then show ?thesis
    unfolding s_def using l4 assms(6) by (simp add: screen_sends chip_exec_def vop)
qed

text \<open>The display between two bytes, in basic mode, with the first \<^term>\<open>m\<close> bytes of the picture in its memory.\<close>

definition shown :: "u8 list \<Rightarrow> nat \<Rightarrow> chip \<Rightarrow> bool" where
  "shown buf m s \<longleftrightarrow> chip_bits s = [] \<and> \<not> chip_extended s \<and> length (chip_ram s) = 504 \<and>
    (\<forall>i<m. chip_ram s ! i = buf ! i)"

lemma screen_page:
  assumes "pins_distinct l" "shown buf m (screen s0 l)" "p < 6"
  shows "shown buf m (screen s0 (sends False (0x40 OR of_nat p) l)) \<and>
    chip_y (screen s0 (sends False (0x40 OR of_nat p) l)) = p"
proof -
  have "p \<in> {0, 1, 2, 3, 4, 5}"
    using assms(3) by auto
  then show ?thesis
    using assms(1, 2) by (auto simp: screen_sends shown_def chip_exec_def)
qed

lemma screen_column:
  assumes "pins_distinct l" "shown buf m (screen s0 l)"
  shows "shown buf m (screen s0 (sends False 0x80 l)) \<and> chip_x (screen s0 (sends False 0x80 l)) = 0 \<and>
    chip_y (screen s0 (sends False 0x80 l)) = chip_y (screen s0 l)"
  using assms by (simp add: screen_sends shown_def chip_exec_def)

definition send_row :: "nat \<Rightarrow> nat \<Rightarrow> lcd \<Rightarrow> lcd" where
  "send_row p n = fold (\<lambda>col l2. LCDdata (pcd8544_buffer l2 ! (LCDWIDTH * p + col)) l2) [0..<n]"

lemma send_row_Suc: "send_row p (Suc n) l = (let l2 = send_row p n l in sends True (pcd8544_buffer l2 ! (84 * p + n)) l2)"
  by (simp add: send_row_def LCDdata_sends Let_def)

lemma send_row_fields [simp]:
  "pin_din (send_row p n l) = pin_din l" "pin_sclk (send_row p n l) = pin_sclk l" "pin_dc (send_row p n l) = pin_dc l"
  "pcd8544_buffer (send_row p n l) = pcd8544_buffer l" "pins_distinct (send_row p n l) = pins_distinct l"
  "textsize (send_row p n l) = textsize l" "textcolor (send_row p n l) = textcolor l"
  by (induction n) (simp_all add: send_row_Suc Let_def, simp_all add: send_row_def)

lemma screen_row:
  assumes "pins_distinct l" "chip_x (screen s0 l) = 0" "chip_y (screen s0 l) = p" "p < 6" "n \<le> 84"
    and "shown (pcd8544_buffer l) (84 * p) (screen s0 l)"
  shows "shown (pcd8544_buffer l) (84 * p + n) (screen s0 (send_row p n l)) \<and>
    (n < 84 \<longrightarrow> chip_x (screen s0 (send_row p n l)) = n \<and> chip_y (screen s0 (send_row p n l)) = p)"
  using assms(5)
proof (induction n)
  case 0
  then show ?case using assms by (simp add: send_row_def)
next
  case (Suc n)
  let ?s = "screen s0 (send_row p n l)"
  have s: "shown (pcd8544_buffer l) (84 * p + n) ?s" "chip_x ?s = n" "chip_y ?s = p"
    using Suc by simp_all
  then have "screen s0 (send_row p (Suc n) l) =
      chip_exec (pcd8544_buffer l ! (84 * p + n)) (?s\<lparr>chip_dc := True, chip_din := bit (pcd8544_buffer l ! (84 * p + n)) 0\<rparr>)"
    using assms(1) by (simp add: send_row_Suc Let_def screen_sends shown_def)
  moreover have "84 * p + n < 504"
    using assms(4) Suc.prems by linarith
  ultimately show ?case
    using s Suc.prems by (auto simp: chip_exec_def shown_def nth_list_update less_Suc_eq mult.commute)
qed

definition send_page :: "nat \<Rightarrow> lcd \<Rightarrow> lcd" where
  "send_page p l = send_row p 84 (sends False 0x80 (sends False (0x40 OR of_nat p) l))"

lemma LCDdisplay_pages: "LCDdisplay l = sends False 0x40 (fold send_page [0..<6] l)"
proof -
  have "send_page = (\<lambda>p l1. fold (\<lambda>col l2. LCDdata (pcd8544_buffer l2 ! (LCDWIDTH * p + col)) l2) [0..<LCDWIDTH]
      (LCDcommand (0x80 OR 0) (LCDcommand (0x40 OR of_nat p) l1)))"
    by (simp add: fun_eq_iff send_page_def send_row_def LCDcommand_sends)
  then show ?thesis
    by (simp only: LCDdisplay_def LCDcommand_sends)
qed

lemma send_pages_fields [simp]:
  "pin_din (fold send_page ps l) = pin_din l" "pin_sclk (fold send_page ps l) = pin_sclk l"
  "pin_dc (fold send_page ps l) = pin_dc l" "pcd8544_buffer (fold send_page ps l) = pcd8544_buffer l"
  "pins_distinct (fold send_page ps l) = pins_distinct l"
  "textsize (fold send_page ps l) = textsize l" "textcolor (fold send_page ps l) = textcolor l"
  by (induction ps arbitrary: l) (simp_all add: send_page_def)

lemma LCDdisplay_fields [simp]:
  "pin_din (LCDdisplay l) = pin_din l" "pin_sclk (LCDdisplay l) = pin_sclk l"
  "pin_dc (LCDdisplay l) = pin_dc l" "pcd8544_buffer (LCDdisplay l) = pcd8544_buffer l"
  "textsize (LCDdisplay l) = textsize l" "textcolor (LCDdisplay l) = textcolor l"
  by (simp_all add: LCDdisplay_pages del: upt_rec_numeral)

lemma screen_LCDdisplay:
  assumes "pins_distinct l" "shown (pcd8544_buffer l) 0 (screen s0 l)"
  shows "shown (pcd8544_buffer l) 504 (screen s0 (LCDdisplay l))"
proof -
  let ?pages = "\<lambda>q. fold send_page [0..<q] l"
  have "shown (pcd8544_buffer l) (84 * q) (screen s0 (?pages q))" if "q \<le> 6" for q
    using that
  proof (induction q)
    case 0
    then show ?case using assms by simp
  next
    case (Suc q)
    let ?l1 = "sends False (0x40 OR of_nat q) (?pages q)"
    have "shown (pcd8544_buffer l) (84 * q) (screen s0 ?l1) \<and> chip_y (screen s0 ?l1) = q"
      using Suc assms(1) by (intro screen_page) simp_all
    then have "shown (pcd8544_buffer l) (84 * q + 84) (screen s0 (send_row q 84 (sends False 0x80 ?l1)))"
      using screen_row [of "sends False 0x80 ?l1" s0 q 84] screen_column [of ?l1 "pcd8544_buffer l" "84 * q" s0]
        assms(1) Suc.prems
      by simp
    then show ?case
      by (simp add: add.commute send_page_def [of q])
  qed
  from screen_page [OF _ this [of 6], of 0] assms(1) show ?thesis
    unfolding LCDdisplay_pages by simp
qed

text \<open>
  C39. Sending the buffer makes the display show it: when the driver is done, the memory of the display
  behind the pins, which it has clocked bit by bit into the display, is the buffer, and the display is ready for the next
  command.
\<close>

theorem lcd_display_shows_buffer:
  assumes "pins_distinct l" "length (pcd8544_buffer l) = 504"
    and "chip_bits (screen s0 l) = []" "\<not> chip_extended (screen s0 l)" "length (chip_ram (screen s0 l)) = 504"
  shows "chip_ram (screen s0 (LCDdisplay l)) = pcd8544_buffer l \<and> chip_bits (screen s0 (LCDdisplay l)) = [] \<and>
    \<not> chip_extended (screen s0 (LCDdisplay l))"
  using screen_LCDdisplay [OF assms(1), of s0] assms(2-5) by (auto simp: shown_def intro: nth_equalityI)

text \<open>The driver and the display after power up, before the first command.\<close>

definition lcd_off :: lcd where
  "lcd_off = \<lparr>pcd8544_buffer = replicate 504 0, cursor_x = 0, cursor_y = 0, textsize = 0, textcolor = 0,
    pin_din = 1, pin_sclk = 0, pin_dc = 2, pin_rst = 4, pin_cs = 3, pin_trace = []\<rparr>"

definition chip_off :: chip where
  "chip_off = \<lparr>chip_dc = False, chip_din = False, chip_bits = [], chip_extended = False, chip_x = 0, chip_y = 0,
    chip_ram = replicate 504 0xAA\<rparr>"

theorem lcd_display_shows_buffer_witness:
  "chip_ram (screen chip_off (LCDdisplay (lcd_off\<lparr>pcd8544_buffer := replicate 504 0x55\<rparr>))) = replicate 504 0x55"
  using lcd_display_shows_buffer [of "lcd_off\<lparr>pcd8544_buffer := replicate 504 0x55\<rparr>" chip_off]
  by (simp add: lcd_off_def chip_off_def screen_def pins_distinct_def)

end
