(* ===== verification/Display_Daemon.thy ===== *)
theory Display_Daemon
  imports Lcd Host_Interface
begin

text \<open>
  The display daemon of the host computer (\<^verbatim>\<open>displayDriver/dispd.cpp\<close>): it reads lines from a named pipe, keeps the
  last lines of text and the state of the battery, draws them with the display driver and switches the
  backlight.  The last section connects the battery report of the robot interface with the daemon.

  The main loop is a function of the events its \<^verbatim>\<open>select\<close> and \<^verbatim>\<open>read\<close> calls return.  Delays are left out.  An event
  ends the daemon with an error when \<^verbatim>\<open>substr\<close> throws, or when a character is drawn that the font does not have.
\<close>

section \<open>State\<close>

record dispd =
  lcd_state :: lcd
  linebuff :: "string list"
  battery_level :: int
  battery_plugged :: bool
  input_line :: string
  ntimes_out :: int
  ntimes_reset :: int

datatype dispd_error = OutOfRange | BadDrawing

datatype dispd_event = SelectTimeout | ReadByte char

abbreviation (input) dev_din :: u8 where "dev_din \<equiv> 1"
abbreviation (input) dev_sclk :: u8 where "dev_sclk \<equiv> 0"
abbreviation (input) dev_dc :: u8 where "dev_dc \<equiv> 2"
abbreviation (input) dev_rst :: u8 where "dev_rst \<equiv> 4"
abbreviation (input) dev_cs :: u8 where "dev_cs \<equiv> 3"
abbreviation (input) dev_bk :: u8 where "dev_bk \<equiv> 7"

definition backlight :: "bool \<Rightarrow> dispd \<Rightarrow> dispd" where
  "backlight v d = d\<lparr>lcd_state := emit [DigitalWrite dev_bk v] (lcd_state d)\<rparr>"

definition init_display :: "lcd \<Rightarrow> lcd" where
  "init_display = LCDInit dev_sclk dev_din dev_dc dev_cs dev_rst 60"

section \<open>Drawing\<close>

text \<open>A drawing function of the driver applied to the display.\<close>

definition on_buffer :: "(u8 list \<Rightarrow> u8 list option) \<Rightarrow> lcd \<Rightarrow> lcd option" where
  "on_buffer f l = map_option (\<lambda>b. l\<lparr>pcd8544_buffer := b\<rparr>) (f (pcd8544_buffer l))"

fun draw_all :: "(lcd \<Rightarrow> lcd option) list \<Rightarrow> lcd \<Rightarrow> lcd option" where
  "draw_all [] l = Some l"
| "draw_all (f # fs) l = (case f l of None \<Rightarrow> None | Some l' \<Rightarrow> draw_all fs l')"

fun draw_lines :: "nat \<Rightarrow> string list \<Rightarrow> lcd \<Rightarrow> lcd option" where
  "draw_lines i [] l = Some l"
| "draw_lines i (s # ss) l =
    (case LCDdrawstring 0 (of_nat (i * 8)) (map of_char s) l of None \<Rightarrow> None | Some l' \<Rightarrow> draw_lines (i + 1) ss l')"

definition draw_frame :: "(lcd \<Rightarrow> lcd option) list" where
  "draw_frame =
    map (\<lambda>i. on_buffer (LCDdrawline (of_nat (2 * i)) 40 (of_nat (2 * i)) 40 BLACK)) [0..<42] @
    [on_buffer (LCDdrawrect 70 42 12 5 BLACK), on_buffer (LCDdrawrect 81 43 3 3 BLACK)]"

definition draw_charge :: "int \<Rightarrow> lcd \<Rightarrow> lcd option" where
  "draw_charge level = on_buffer (LCDfillrect 70 43 (word_of_int (level div 10 + 1)) 4 BLACK)"

definition draw_plug :: "(lcd \<Rightarrow> lcd option) list" where
  "draw_plug =
    [on_buffer (LCDdrawline 66 43 68 43 BLACK), on_buffer (LCDdrawline 66 45 68 45 BLACK),
     on_buffer (LCDfillrect 63 42 3 5 BLACK), on_buffer (LCDfillrect 61 43 2 3 BLACK),
     on_buffer (LCDdrawline 58 44 61 44 BLACK), on_buffer (LCDdrawline 56 45 58 45 BLACK)]"

definition update_display :: "dispd \<Rightarrow> dispd option" where
  "update_display d =
    (let level = (if 100 < battery_level d then 100 else battery_level d);
         level = (if level < 0 then 0 else level)
     in map_option (\<lambda>l. d\<lparr>lcd_state := l, battery_level := level\<rparr>)
          (draw_all (draw_lines 0 (linebuff d) # draw_frame @ [draw_charge level] @
             (if battery_plugged d then draw_plug else [])) (LCDclear (lcd_state d))))"

section \<open>The commands\<close>

text \<open>\<^verbatim>\<open>std::string::substr(pos)\<close>: the rest of the string, or an exception when the position is past the end.\<close>

definition substr_from :: "nat \<Rightarrow> string \<Rightarrow> string option" where
  "substr_from pos s = (if length s < pos then None else Some (drop pos s))"

function push_lines :: "string \<Rightarrow> nat \<Rightarrow> string list \<Rightarrow> string list" where
  "push_lines str start lb =
    (if start < length str then
       let n = (if start + 14 < length str then 14 else length str - start);
           lb' = (if 4 < length lb then tl lb else lb)
       in push_lines str (start + 14) (lb' @ [take n (drop start str)])
     else lb)"
  by pat_completeness auto
termination by (relation "measure (\<lambda>(str, start, lb). length str - start)") auto

declare push_lines.simps [simp del]

definition draws :: "dispd option \<Rightarrow> dispd_error + dispd" where
  "draws r = (case r of None \<Rightarrow> Inl BadDrawing | Some d \<Rightarrow> Inr d)"

definition dispd_command :: "string \<Rightarrow> dispd \<Rightarrow> dispd_error + dispd" where
  "dispd_command str d =
    (if str = ''%clear%'' then map_sum id (backlight True) (draws (update_display (d\<lparr>linebuff := []\<rparr>)))
     else if str = ''%logo%'' then
       Inr (backlight True (d\<lparr>linebuff := [], lcd_state := LCDshowLogo (LCDclear (lcd_state d))\<rparr>))
     else if take 5 str = ''%bat%'' then
       (case substr_from 6 str of
          None \<Rightarrow> Inl OutOfRange
        | Some v \<Rightarrow> draws (update_display (d\<lparr>battery_level := host_atoi v\<rparr>)))
     else if take 6 str = ''%plug%'' then
       (case substr_from 7 str of
          None \<Rightarrow> Inl OutOfRange
        | Some v \<Rightarrow> draws (update_display (d\<lparr>battery_plugged := (host_atoi v \<noteq> 0)\<rparr>)))
     else
       map_sum id (\<lambda>d'. (backlight True d')\<lparr>ntimes_out := 0\<rparr>)
         (draws (update_display (d\<lparr>linebuff := push_lines str 0 (linebuff d)\<rparr>))))"

definition finish_line :: "dispd \<Rightarrow> dispd" where
  "finish_line d =
    (let n = ntimes_out d + 1;
         d1 = d\<lparr>ntimes_out := n\<rparr>;
         d2 = (if 5 < n then backlight False d1 else d1)
     in d2\<lparr>lcd_state := LCDdisplay (lcd_state d2)\<rparr>)"

definition handle_line :: "dispd \<Rightarrow> dispd_error + dispd" where
  "handle_line d =
    map_sum id finish_line
      (dispd_command (takeWhile (\<lambda>c. c \<noteq> CHR 0x00) (input_line d)) (d\<lparr>input_line := []\<rparr>))"

section \<open>The main loop\<close>

definition handle_timeout :: "dispd \<Rightarrow> dispd" where
  "handle_timeout d =
    (let n = ntimes_out d + 1;
         d1 = d\<lparr>ntimes_out := n\<rparr>;
         d2 = (if 2 < n then backlight False d1 else d1);
         m = ntimes_reset d2 + 1
     in if 20 < m then d2\<lparr>ntimes_reset := 0, lcd_state := LCDdisplay (init_display (lcd_state d2))\<rparr>
        else d2\<lparr>ntimes_reset := m\<rparr>)"

definition handle_byte :: "char \<Rightarrow> dispd \<Rightarrow> dispd_error + dispd" where
  "handle_byte c d =
    (if c = CHR 0x0A then handle_line d
     else if 126 \<le> length (input_line d) + 1 then Inr (d\<lparr>input_line := []\<rparr>)
     else Inr (d\<lparr>input_line := input_line d @ [c]\<rparr>))"

fun handle_event :: "dispd_event \<Rightarrow> dispd \<Rightarrow> dispd_error + dispd" where
  "handle_event SelectTimeout d = Inr (handle_timeout d)"
| "handle_event (ReadByte c) d = handle_byte c d"

fun go_go_go :: "dispd_event list \<Rightarrow> dispd \<Rightarrow> dispd_error + dispd" where
  "go_go_go [] d = Inr d"
| "go_go_go (e # es) d = (case handle_event e d of Inl err \<Rightarrow> Inl err | Inr d' \<Rightarrow> go_go_go es d')"

definition dispd_start :: "lcd \<Rightarrow> dispd" where
  "dispd_start l =
    \<lparr>lcd_state = LCDshowLogo (LCDclear (init_display (emit [PinOutput dev_bk, DigitalWrite dev_bk True] l))),
     linebuff = [], battery_level = 0, battery_plugged = False, input_line = [], ntimes_out = 0, ntimes_reset = 0\<rparr>"

definition terminate_dispd :: "dispd \<Rightarrow> dispd" where
  "terminate_dispd d = backlight False d"

section \<open>The picture\<close>

text \<open>
  What the display is to show: the lines of text in the upper five rows of cells; below them a dotted line, the
  outline of the battery, its charge, and the plug.
\<close>

definition cells :: "string \<Rightarrow> u8 list" where
  "cells s = printable (map of_char s)"

definition text_area :: "string list \<Rightarrow> nat \<Rightarrow> nat \<Rightarrow> bool" where
  "text_area ss a b \<longleftrightarrow> b div 8 < length ss \<and> text_pixel (cells (ss ! (b div 8))) a (b mod 8)"

definition on_rect :: "nat \<Rightarrow> nat \<Rightarrow> nat \<Rightarrow> nat \<Rightarrow> nat \<Rightarrow> nat \<Rightarrow> bool" where
  "on_rect x y x' y' a b \<longleftrightarrow> x \<le> a \<and> a \<le> x' \<and> y \<le> b \<and> b \<le> y'"

definition outline :: "nat \<Rightarrow> nat \<Rightarrow> nat \<Rightarrow> nat \<Rightarrow> nat \<Rightarrow> nat \<Rightarrow> bool" where
  "outline x y x' y' a b \<longleftrightarrow> on_rect x y x' y' a b \<and> (a = x \<or> a = x' \<or> b = y \<or> b = y')"

definition status_area :: "int \<Rightarrow> bool \<Rightarrow> nat \<Rightarrow> nat \<Rightarrow> bool" where
  "status_area level plugged a b \<longleftrightarrow>
    b = 40 \<and> even a \<and> a < 83 \<or> outline 70 42 81 46 a b \<or> outline 81 43 83 45 a b \<or>
    on_rect 70 43 (70 + nat (level div 10)) 46 a b \<or>
    plugged \<and> (on_rect 66 43 68 43 a b \<or> on_rect 66 45 68 45 a b \<or> on_rect 63 42 65 46 a b \<or>
      on_rect 61 43 62 45 a b \<or> on_rect 58 44 61 44 a b \<or> on_rect 56 45 58 45 a b)"

definition picture :: "string list \<Rightarrow> int \<Rightarrow> bool \<Rightarrow> nat \<Rightarrow> nat \<Rightarrow> bool" where
  "picture ss level plugged a b \<longleftrightarrow> (if b < 40 then text_area ss a b else status_area level plugged a b)"

subsection \<open>Text\<close>

definition drawable :: "string \<Rightarrow> bool" where
  "drawable s \<longleftrightarrow> (\<forall>c\<in>set s. c \<noteq> CHR 0x0A \<and> c \<noteq> CHR 0xFF)"

lemma unat_of_char [simp]: "unat (of_char c :: u8) = of_char c"
proof -
  have "unat (of_nat (of_char c :: nat) :: u8) = of_char c"
    by (simp add: unat_of_nat)
  then show ?thesis
    by (simp only: of_nat_of_char)
qed

lemma drawable_codes:
  assumes "drawable s" "c \<in> set (map of_char s :: u8 list)"
  shows "c \<noteq> 10 \<and> unat c < 255"
proof -
  obtain x where x: "x \<in> set s" "c = of_char x"
    using assms(2) by auto
  have "of_char x \<noteq> (of_char (CHR 0x0A) :: nat)" "of_char x \<noteq> (of_char (CHR 0xFF) :: nat)"
    using assms(1) x(1) unfolding drawable_def of_char_eq_iff by auto
  then have "unat c \<noteq> 10" "unat c \<noteq> 255"
    by (simp_all add: x(2))
  moreover have "unat c < 256"
    using unsigned_less [of c, where 'a = nat] by simp
  ultimately show ?thesis
    by auto
qed

lemma LCDdrawstring_text:
  assumes "length (pcd8544_buffer l) = 504" "textsize l = 1" "textcolor l \<noteq> 0" "i < 5" "drawable s" "length s \<le> 14"
  obtains buf x y where "LCDdrawstring 0 (of_nat (i * 8)) (map of_char s) l =
      Some (l\<lparr>pcd8544_buffer := buf, cursor_x := x, cursor_y := y\<rparr>)" "length buf = 504"
    "\<And>a b. a < 84 \<Longrightarrow> b < 48 \<Longrightarrow> pixel buf a b =
      (if b div 8 = i \<and> a < 6 * length (cells s) then text_pixel (cells s) a (b mod 8) else pixel (pcd8544_buffer l) a b)"
proof -
  let ?l = "l\<lparr>cursor_x := 0, cursor_y := of_nat (i * 8)\<rparr>"
  have "unat (of_nat (i * 8) :: u8) = i * 8"
    using assms(4) by (simp only: unat_of_nat) simp
  moreover have "length (printable (map of_char s)) \<le> 14"
    unfolding printable_def using length_filter_le [of _ "map of_char s"] assms(6) by (metis le_trans length_map)
  ultimately obtain buf x y where "write_all (map of_char s) ?l = Some (?l\<lparr>pcd8544_buffer := buf, cursor_x := x, cursor_y := y\<rparr>)"
      "length buf = 504" "\<forall>a<84. \<forall>b<48. pixel buf a b =
      (if a < 6 * length (cells s) \<and> b div 8 = i then text_pixel (cells s) a (b mod 8) else pixel (pcd8544_buffer l) a b)"
    using write_all_text [of ?l i 0 "map of_char s"] assms(1-4) drawable_codes [OF assms(5)] unfolding cells_def by auto
  then show thesis
    by (intro that [where buf = buf and x = x and y = y]) (simp_all add: LCDdrawstring_def conj_commute)
qed

lemma draw_lines_text:
  assumes "length (pcd8544_buffer l) = 504" "textsize l = 1" "textcolor l \<noteq> 0" "i + length ss \<le> 5"
    and "\<forall>s\<in>set ss. drawable s \<and> length s \<le> 14"
  shows "\<exists>buf x y. draw_lines i ss l = Some (l\<lparr>pcd8544_buffer := buf, cursor_x := x, cursor_y := y\<rparr>) \<and> length buf = 504 \<and>
    (\<forall>a<84. \<forall>b<48. pixel buf a b =
      (if i \<le> b div 8 \<and> b div 8 < i + length ss \<and> a < 6 * length (cells (ss ! (b div 8 - i)))
       then text_pixel (cells (ss ! (b div 8 - i))) a (b mod 8) else pixel (pcd8544_buffer l) a b))"
  using assms
proof (induction ss arbitrary: i l)
  case Nil
  then show ?case
    by - (rule exI [of _ "pcd8544_buffer l"], rule exI [of _ "cursor_x l"], rule exI [of _ "cursor_y l"], auto)
next
  case (Cons s ss)
  obtain buf x y where d: "LCDdrawstring 0 (of_nat (i * 8)) (map of_char s) l =
      Some (l\<lparr>pcd8544_buffer := buf, cursor_x := x, cursor_y := y\<rparr>)" "length buf = 504"
    and p: "\<And>a b. a < 84 \<Longrightarrow> b < 48 \<Longrightarrow> pixel buf a b =
      (if b div 8 = i \<and> a < 6 * length (cells s) then text_pixel (cells s) a (b mod 8) else pixel (pcd8544_buffer l) a b)"
    using Cons.prems by (elim LCDdrawstring_text [of l i s]) auto
  let ?l = "l\<lparr>pcd8544_buffer := buf, cursor_x := x, cursor_y := y\<rparr>"
  have fields: "?l\<lparr>pcd8544_buffer := buf', cursor_x := x', cursor_y := y'\<rparr> =
      l\<lparr>pcd8544_buffer := buf', cursor_x := x', cursor_y := y'\<rparr>" "pcd8544_buffer ?l = buf" for buf' x' y'
    by simp_all
  obtain buf' x' y' where d': "draw_lines (Suc i) ss ?l = Some (l\<lparr>pcd8544_buffer := buf', cursor_x := x', cursor_y := y'\<rparr>)"
      "length buf' = 504" and p': "\<And>a b. a < 84 \<Longrightarrow> b < 48 \<Longrightarrow> pixel buf' a b =
      (if Suc i \<le> b div 8 \<and> b div 8 < Suc i + length ss \<and> a < 6 * length (cells (ss ! (b div 8 - Suc i)))
       then text_pixel (cells (ss ! (b div 8 - Suc i))) a (b mod 8) else pixel buf a b)"
    using Cons.IH [of ?l "Suc i", unfolded fields] Cons.prems d(2) by auto
  show ?case
  proof (intro exI conjI allI impI)
    show "draw_lines i (s # ss) l = Some (l\<lparr>pcd8544_buffer := buf', cursor_x := x', cursor_y := y'\<rparr>)" "length buf' = 504"
      using d(1) d' by simp_all
    fix a b :: nat assume ab: "a < 84" "b < 48"
    show "pixel buf' a b =
        (if i \<le> b div 8 \<and> b div 8 < i + length (s # ss) \<and> a < 6 * length (cells ((s # ss) ! (b div 8 - i)))
         then text_pixel (cells ((s # ss) ! (b div 8 - i))) a (b mod 8) else pixel (pcd8544_buffer l) a b)"
      unfolding p' [OF ab] p [OF ab]
      by (auto simp: nth_Cons')
  qed
qed

subsection \<open>The status line\<close>

text \<open>The drawing operations as lists of points, and the points they amount to.\<close>

definition plots :: "(lcd \<Rightarrow> lcd option) list \<Rightarrow> (nat \<times> nat) list \<Rightarrow> bool" where
  "plots fs ps \<longleftrightarrow> (\<forall>l. draw_all fs l = Some (l\<lparr>pcd8544_buffer := plot BLACK ps (pcd8544_buffer l)\<rparr>))"

lemma draw_all_append: "draw_all (fs @ gs) l = Option.bind (draw_all fs l) (draw_all gs)"
  by (induction fs arbitrary: l) (auto split: option.splits)

lemma plots_Nil: "plots [] []"
  by (simp add: plots_def plot_def)

lemma plots_append: "plots fs ps \<Longrightarrow> plots gs qs \<Longrightarrow> plots (fs @ gs) (ps @ qs)"
  by (simp add: plots_def draw_all_append plot_def)

lemma plots_single: "(\<And>buf. f buf = Some (plot BLACK ps buf)) \<Longrightarrow> plots [on_buffer f] ps"
  by (simp add: plots_def on_buffer_def)

lemma plots_Cons: "(\<And>buf. f buf = Some (plot BLACK ps buf)) \<Longrightarrow> plots gs qs \<Longrightarrow> plots (on_buffer f # gs) (ps @ qs)"
  using plots_append [OF plots_single] by fastforce

lemma plots_map: "(\<And>i. i \<in> set is \<Longrightarrow> plots [f i] (ps i)) \<Longrightarrow> plots (map f is) (concat (map ps is))"
proof (induction "is")
  case (Cons i "is")
  then show ?case
    using plots_append [of "[f i]" "ps i" "map f is"] by simp
qed (simp add: plots_Nil)

lemma plots_frame:
  "plots draw_frame (map (\<lambda>i. (2 * i, 40)) [0..<42] @
    (concat (map (\<lambda>i. [(i, 42), (i, 46)]) [70..<82]) @ concat (map (\<lambda>j. [(70, j), (81, j)]) [42..<47])) @
    (concat (map (\<lambda>i. [(i, 43), (i, 45)]) [81..<84]) @ concat (map (\<lambda>j. [(81, j), (83, j)]) [43..<46])))"
proof -
  have "plots [on_buffer (LCDdrawline (of_nat (2 * i)) 40 (of_nat (2 * i)) 40 BLACK)] [(2 * i, 40)]" if "i \<in> set [0..<42]" for i
  proof (rule plots_single)
    have "unat (of_nat (2 * i) :: u8) = 2 * i"
      using that by (simp only: unat_of_nat) simp
    then show "LCDdrawline (of_nat (2 * i)) 40 (of_nat (2 * i)) 40 BLACK buf = Some (plot BLACK [(2 * i, 40)] buf)" for buf
      using that by (subst LCDdrawline_plot) (simp_all add: line_points_def line_row_0)
  qed
  note dots = plots_map [where f = "\<lambda>i. on_buffer (LCDdrawline (of_nat (2 * i)) 40 (of_nat (2 * i)) 40 BLACK)", OF this,
    unfolded concat_map_singleton]
  show ?thesis
    unfolding draw_frame_def
    by (rule plots_append [OF dots plots_Cons [OF _ plots_single]]) (simp_all add: LCDdrawrect_plot del: upt_rec_numeral)
qed

lemma plots_charge:
  assumes "0 \<le> level" "level \<le> 100"
  shows "plots [draw_charge level] (List.product [70..<70 + (nat (level div 10) + 1)] [43..<47])"
proof -
  have n: "nat (level div 10) \<le> 10"
    using assms by simp
  define w where "w = (word_of_int (level div 10 + 1) :: u8)"
  have "w = of_nat (nat (level div 10) + 1)"
    using assms(1) by (simp add: w_def)
  then have "unat w = nat (level div 10) + 1"
    using n by (simp only: unat_of_nat) simp
  then show ?thesis
    unfolding draw_charge_def w_def [symmetric] using n
    by (intro plots_single, subst LCDfillrect_plot) simp_all
qed

lemma plots_plug:
  "plots draw_plug ([(66, 43), (67, 43), (68, 43)] @ [(66, 45), (67, 45), (68, 45)] @
    List.product [63..<66] [42..<47] @ List.product [61..<63] [43..<46] @
    [(58, 44), (59, 44), (60, 44), (61, 44)] @ [(56, 45), (57, 45), (58, 45)])"
proof -
  have "line_points 66 43 68 43 = [(66, 43), (67, 43), (68, 43)]" "line_points 66 45 68 45 = [(66, 45), (67, 45), (68, 45)]"
    "line_points 58 44 61 44 = [(58, 44), (59, 44), (60, 44), (61, 44)]" "line_points 56 45 58 45 = [(56, 45), (57, 45), (58, 45)]"
    by code_simp+
  then show ?thesis
    unfolding draw_plug_def
    by (intro plots_Cons plots_single) (simp_all add: LCDdrawline_plot LCDfillrect_plot del: upt_rec_numeral)
qed

definition status_points :: "int \<Rightarrow> bool \<Rightarrow> (nat \<times> nat) list" where
  "status_points level plugged =
    (map (\<lambda>i. (2 * i, 40)) [0..<42] @
      (concat (map (\<lambda>i. [(i, 42), (i, 46)]) [70..<82]) @ concat (map (\<lambda>j. [(70, j), (81, j)]) [42..<47])) @
      (concat (map (\<lambda>i. [(i, 43), (i, 45)]) [81..<84]) @ concat (map (\<lambda>j. [(81, j), (83, j)]) [43..<46]))) @
    List.product [70..<70 + (nat (level div 10) + 1)] [43..<47] @
    (if plugged then [(66, 43), (67, 43), (68, 43)] @ [(66, 45), (67, 45), (68, 45)] @
       List.product [63..<66] [42..<47] @ List.product [61..<63] [43..<46] @
       [(58, 44), (59, 44), (60, 44), (61, 44)] @ [(56, 45), (57, 45), (58, 45)] else [])"

lemma status_points_area: "(a, b) \<in> set (status_points level plugged) \<longleftrightarrow> status_area level plugged a b"
proof -
  have dots: "(a, b) \<in> set (map (\<lambda>i. (2 * i, 40)) [0..<42]) \<longleftrightarrow> b = 40 \<and> even a \<and> a < 83"
    by (auto simp: image_iff elim!: evenE)
  have box: "(a, b) \<in> set (concat (map (\<lambda>i. [(i, y), (i, y')]) [x..<x1]) @ concat (map (\<lambda>j. [(x, j), (x', j)]) [y..<y1])) \<longleftrightarrow>
      outline x y x' y' a b" if "x \<le> x'" "y \<le> y'" "x1 = Suc x'" "y1 = Suc y'" for x y x' y' x1 y1
    using that by (auto simp: outline_def on_rect_def)
  have rect: "(a, b) \<in> set (List.product [x..<x1] [y..<y1]) \<longleftrightarrow> on_rect x y x' y' a b"
    if "x1 = Suc x'" "y1 = Suc y'" for x y x' y' x1 y1
    using that by (auto simp: on_rect_def)
  have segments: "(a, b) \<in> set [(66, 43), (67, 43), (68, 43)] \<longleftrightarrow> on_rect 66 43 68 43 a b"
    "(a, b) \<in> set [(66, 45), (67, 45), (68, 45)] \<longleftrightarrow> on_rect 66 45 68 45 a b"
    "(a, b) \<in> set [(58, 44), (59, 44), (60, 44), (61, 44)] \<longleftrightarrow> on_rect 58 44 61 44 a b"
    "(a, b) \<in> set [(56, 45), (57, 45), (58, 45)] \<longleftrightarrow> on_rect 56 45 58 45 a b"
    by (auto simp: on_rect_def)
  note parts = dots box [of 70 81 42 46 82 47] box [of 81 83 43 45 84 46] rect [of 66 65 47 46 63 42]
    rect [of 63 62 46 45 61 43] rect [of "70 + (nat (level div 10) + 1)" "70 + nat (level div 10)" 47 46 70 43]
  show ?thesis
    unfolding status_points_def status_area_def set_append [of "_ @ _ @ _"] Un_iff
    using parts segments by (cases plugged) (simp_all only: set_append Un_iff if_True if_False set_simps, simp_all)
qed

subsection \<open>Drawing the display\<close>

definition percent :: "int \<Rightarrow> int" where
  "percent n = max 0 (min 100 n)"

lemma percent_bounds [simp]: "0 \<le> percent n" "percent n \<le> 100"
  by (simp_all add: percent_def)

lemma status_area_below: "status_area level plugged a b \<Longrightarrow> 40 \<le> b"
  by (auto simp: status_area_def outline_def on_rect_def)

lemma status_points_bound:
  assumes "level \<le> 100" "(i, j) \<in> set (status_points level plugged)"
  shows "i < 256 \<and> j < 256"
  using assms unfolding status_points_area by (auto simp: status_area_def outline_def on_rect_def)

lemma plots_status:
  assumes "0 \<le> level" "level \<le> 100"
  shows "plots (draw_frame @ [draw_charge level] @ (if plugged then draw_plug else [])) (status_points level plugged)"
  unfolding status_points_def
  by (intro plots_append plots_frame plots_charge assms) (simp_all add: plots_plug plots_Nil del: upt_rec_numeral append.simps)

lemma update_display_split:
  "update_display d = map_option
    (\<lambda>l. d\<lparr>lcd_state := l\<lparr>pcd8544_buffer := plot BLACK (status_points (percent (battery_level d)) (battery_plugged d)) (pcd8544_buffer l)\<rparr>,
           battery_level := percent (battery_level d)\<rparr>)
    (draw_lines 0 (linebuff d) (LCDclear (lcd_state d)))"
proof -
  have level: "(if (if 100 < n then 100 else n) < 0 then 0 else if 100 < n then 100 else n) = percent n" for n
    by (simp add: percent_def)
  note status = plots_status [OF percent_bounds, of "battery_level d" "battery_plugged d"]
  define fs where "fs = draw_frame @ [draw_charge (percent (battery_level d))] @ (if battery_plugged d then draw_plug else [])"
  have "draw_all fs l = Some (l\<lparr>pcd8544_buffer := plot BLACK (status_points (percent (battery_level d)) (battery_plugged d))
      (pcd8544_buffer l)\<rparr>)" for l
    using status unfolding plots_def fs_def by blast
  then show ?thesis
    unfolding update_display_def Let_def level fs_def [symmetric]
    by (simp split: option.splits)
qed

lemma pixel_clear [simp]: "a < 84 \<Longrightarrow> b < 48 \<Longrightarrow> \<not> pixel (replicate 504 0) a b"
proof -
  assume "a < 84" "b < 48"
  then have "b div 8 < 6"
    by (simp add: div_less_iff_less_mult)
  with \<open>a < 84\<close> have "a + b div 8 * 84 < 504"
    by linarith
  then show ?thesis
    by (simp add: pixel_def)
qed

lemma text_pixel_end: "text_pixel cs a j \<Longrightarrow> a < 6 * length cs"
  by (auto simp: text_pixel_def)

lemma update_display_picture:
  assumes "textsize (lcd_state d) = 1" "textcolor (lcd_state d) \<noteq> 0" "length (linebuff d) \<le> 5"
    and "\<forall>s\<in>set (linebuff d). drawable s \<and> length s \<le> 14"
  obtains buf x y where "update_display d =
      Some (d\<lparr>lcd_state := (lcd_state d)\<lparr>pcd8544_buffer := buf, cursor_x := x, cursor_y := y\<rparr>,
        battery_level := percent (battery_level d)\<rparr>)" "length buf = 504"
    "\<And>a b. a < 84 \<Longrightarrow> b < 48 \<Longrightarrow>
      pixel buf a b = picture (linebuff d) (percent (battery_level d)) (battery_plugged d) a b"
proof -
  let ?l = "LCDclear (lcd_state d)" and ?ps = "status_points (percent (battery_level d)) (battery_plugged d)"
  obtain buf x y where l: "draw_lines 0 (linebuff d) ?l = Some (?l\<lparr>pcd8544_buffer := buf, cursor_x := x, cursor_y := y\<rparr>)"
      "length buf = 504" and px0: "\<And>a b. a < 84 \<Longrightarrow> b < 48 \<Longrightarrow> pixel buf a b =
        (if 0 \<le> b div 8 \<and> b div 8 < 0 + length (linebuff d) \<and> a < 6 * length (cells (linebuff d ! (b div 8 - 0)))
         then text_pixel (cells (linebuff d ! (b div 8 - 0))) a (b mod 8) else pixel (pcd8544_buffer ?l) a b)"
    using draw_lines_text [of ?l 0 "linebuff d"] assms unfolding LCDclear_def by auto
  have px: "pixel buf a b = text_area (linebuff d) a b" if "a < 84" "b < 48" for a b
    using px0 [OF that] that by (auto simp: LCDclear_def text_area_def text_pixel_end)
  show thesis
  proof (rule that [where buf = "plot BLACK ?ps buf" and x = x and y = y])
    show "pixel (plot BLACK ?ps buf) a b = picture (linebuff d) (percent (battery_level d)) (battery_plugged d) a b"
      if "a < 84" "b < 48" for a b
    proof -
      have "pixel (plot BLACK ?ps buf) a b = ((a, b) \<in> set ?ps \<or> text_area (linebuff d) a b)"
        by (subst pixel_plot [OF l(2) that]) (use status_points_bound [OF percent_bounds(2)] px [OF that] in auto)
      moreover have "b < 40" if "text_area (linebuff d) a b"
        using that assms(3) by (auto simp: text_area_def)
      ultimately show ?thesis
        using status_area_below [of "percent (battery_level d)" "battery_plugged d" a b]
        by (auto simp: picture_def status_points_area)
    qed
  qed (use l in \<open>simp_all add: update_display_split LCDclear_def\<close>)
qed

section \<open>The lines of text\<close>

text \<open>The reference for the buffer of lines: the last five pieces of at most fourteen characters.\<close>

fun chunks :: "string \<Rightarrow> string list" where
  "chunks s = (if s = [] then [] else take 14 s # chunks (drop 14 s))"

declare chunks.simps [simp del]

definition last5 :: "'a list \<Rightarrow> 'a list" where
  "last5 xs = drop (length xs - 5) xs"

lemma length_last5 [simp]: "length (last5 xs) \<le> 5"
  by (simp add: last5_def)

lemma set_last5: "set (last5 xs) \<subseteq> set xs"
  by (simp add: last5_def set_drop_subset)

lemma last5_tl: "length xs = 5 \<Longrightarrow> last5 (tl xs @ y # ys) = last5 (xs @ y # ys)"
  by (cases xs) (simp_all add: last5_def Suc_diff_le)

lemma push_lines_last5: "length lb \<le> 5 \<Longrightarrow> push_lines str start lb = last5 (lb @ chunks (drop start str))"
proof (induction str start lb rule: push_lines.induct)
  case (1 str start lb)
  show ?case
  proof (cases "start < length str")
    case True
    let ?n = "if start + 14 < length str then 14 else length str - start"
    let ?lb = "if 4 < length lb then tl lb else lb"
    have "take ?n (drop start str) = take 14 (drop start str)"
      by simp
    moreover have "push_lines str (start + 14) (?lb @ [take ?n (drop start str)]) =
        last5 ((?lb @ [take ?n (drop start str)]) @ chunks (drop (start + 14) str))"
      using 1 True by (intro "1.IH") auto
    moreover have "chunks (drop start str) = take 14 (drop start str) # chunks (drop (start + 14) str)"
      using True by (subst chunks.simps) (simp add: add.commute)
    ultimately show ?thesis
      using True "1.prems" last5_tl [of lb] by (subst push_lines.simps) (auto simp: Let_def)
  next
    case False
    then show ?thesis
      using "1.prems" by (simp add: push_lines.simps chunks.simps last5_def)
  qed
qed

lemma chunks_pieces: "p \<in> set (chunks s) \<Longrightarrow> p \<noteq> [] \<and> length p \<le> 14 \<and> set p \<subseteq> set s"
proof (induction s rule: chunks.induct)
  case (1 s)
  then show ?case
    by (subst (asm) (2) chunks.simps) (auto split: if_splits dest: in_set_takeD in_set_dropD)
qed

lemma chunks_concat: "concat (chunks s) = s"
proof (induction s rule: chunks.induct)
  case (1 s)
  then show ?case
    by (subst chunks.simps) simp
qed

section \<open>The states of the daemon\<close>

text \<open>Drawing text changes the buffer, not its size, and the cursor.\<close>

definition redrawn :: "lcd \<Rightarrow> lcd \<Rightarrow> bool" where
  "redrawn l l' \<longleftrightarrow> length (pcd8544_buffer l') = length (pcd8544_buffer l) \<and>
    l' = l\<lparr>pcd8544_buffer := pcd8544_buffer l', cursor_x := cursor_x l', cursor_y := cursor_y l'\<rparr>"

lemma redrawn_refl: "redrawn l l"
  by (simp add: redrawn_def)

lemma redrawn_trans: "redrawn l l1 \<Longrightarrow> redrawn l1 l2 \<Longrightarrow> redrawn l l2"
  unfolding redrawn_def by (cases l, cases l1, cases l2) simp

lemma LCDdrawchar_redrawn: "LCDdrawchar x y c l = Some l' \<Longrightarrow> redrawn l l'"
  by (auto simp: LCDdrawchar_def redrawn_def lcd_draw_def glyph_columns_length split: if_splits)

lemma LCDwrite_redrawn:
  assumes "LCDwrite c l = Some l'"
  shows "redrawn l l'"
proof (cases "c = 10 \<or> c = 13")
  case True
  then show ?thesis
    using assms by (auto simp: LCDwrite_def redrawn_def split: if_splits)
next
  case False
  then obtain l1 where l1: "LCDdrawchar (cursor_x l) (cursor_y l) c l = Some l1"
    using assms by (auto simp: LCDwrite_def split: option.splits)
  then have "redrawn l1 l'"
    using assms False by (auto simp: LCDwrite_def Let_def redrawn_def split: if_splits)
  with LCDdrawchar_redrawn [OF l1] show ?thesis
    by (rule redrawn_trans)
qed

lemma write_all_redrawn: "write_all cs l = Some l' \<Longrightarrow> redrawn l l'"
  by (induction cs arbitrary: l)
    (auto intro: redrawn_refl split: option.splits dest!: LCDwrite_redrawn elim: redrawn_trans)

lemma draw_lines_redrawn: "draw_lines i ss l = Some l' \<Longrightarrow> redrawn l l'"
proof (induction ss arbitrary: i l)
  case (Cons s ss)
  then obtain l1 where l1: "write_all (map of_char s) (l\<lparr>cursor_x := 0, cursor_y := of_nat (i * 8)\<rparr>) = Some l1"
      "draw_lines (i + 1) ss l1 = Some l'"
    by (auto simp: LCDdrawstring_def split: option.splits)
  have "redrawn l (l\<lparr>cursor_x := 0, cursor_y := of_nat (i * 8)\<rparr>)"
    by (simp add: redrawn_def)
  from redrawn_trans [OF this write_all_redrawn [OF l1(1)]] Cons.IH [OF l1(2)] show ?case
    by (rule redrawn_trans)
qed (simp add: redrawn_refl)

lemma redrawn_status: "redrawn l l' \<Longrightarrow> redrawn l (l'\<lparr>pcd8544_buffer := plot BLACK ps (pcd8544_buffer l')\<rparr>)"
  unfolding redrawn_def by (cases l, cases l') simp

text \<open>The display with the daemon's pins, a buffer of the right size and text in black; and what drawing keeps.\<close>

definition lcd_ok :: "lcd \<Rightarrow> bool" where
  "lcd_ok l \<longleftrightarrow> pin_din l = dev_din \<and> pin_sclk l = dev_sclk \<and> pin_dc l = dev_dc \<and> textsize l = 1 \<and> textcolor l = BLACK \<and>
    length (pcd8544_buffer l) = 504"

definition dispd_wf :: "dispd \<Rightarrow> bool" where
  "dispd_wf d \<longleftrightarrow> lcd_ok (lcd_state d) \<and> length (linebuff d) \<le> 5 \<and>
    (\<forall>s\<in>set (linebuff d). s \<noteq> [] \<and> length s \<le> 14 \<and> CHR 0x0A \<notin> set s \<and> CHR 0x00 \<notin> set s) \<and>
    0 \<le> battery_level d \<and> battery_level d \<le> 100 \<and> length (input_line d) < 126 \<and> CHR 0x0A \<notin> set (input_line d) \<and>
    0 \<le> ntimes_out d \<and> 0 \<le> ntimes_reset d \<and> ntimes_reset d \<le> 20"

lemma lcd_ok_distinct: "lcd_ok l \<Longrightarrow> pins_distinct l"
  by (simp add: lcd_ok_def pins_distinct_def)

lemma redrawn_ok: "redrawn l l' \<Longrightarrow> lcd_ok l \<Longrightarrow> lcd_ok l'"
  unfolding redrawn_def lcd_ok_def by (cases l, cases l') simp

lemma redrawn_screen: "redrawn l l' \<Longrightarrow> screen s0 l' = screen s0 l"
  unfolding redrawn_def screen_def by (cases l, cases l') simp

lemma LCDclear_redrawn: "lcd_ok l \<Longrightarrow> redrawn l (LCDclear l)"
  by (simp add: redrawn_def LCDclear_def lcd_ok_def)

lemma emit_ok [simp]: "lcd_ok (emit es l) = lcd_ok l"
  by (simp add: lcd_ok_def emit_def)

lemma LCDdisplay_ok [simp]: "lcd_ok (LCDdisplay l) = lcd_ok l"
  by (simp add: lcd_ok_def)

lemma update_display_redrawn:
  assumes "update_display d = Some d'" "lcd_ok (lcd_state d)"
  shows "redrawn (lcd_state d) (lcd_state d')" "d' = d\<lparr>lcd_state := lcd_state d', battery_level := percent (battery_level d)\<rparr>"
proof -
  obtain l where l: "draw_lines 0 (linebuff d) (LCDclear (lcd_state d)) = Some l" and
    d': "d' = d\<lparr>lcd_state := l\<lparr>pcd8544_buffer := plot BLACK (status_points (percent (battery_level d)) (battery_plugged d)) (pcd8544_buffer l)\<rparr>,
           battery_level := percent (battery_level d)\<rparr>"
    using assms(1) unfolding update_display_split by auto
  have "redrawn (lcd_state d) l"
    by (rule redrawn_trans [OF LCDclear_redrawn [OF assms(2)] draw_lines_redrawn [OF l]])
  from redrawn_status [OF this] show "redrawn (lcd_state d) (lcd_state d')"
    by (simp add: d')
  show "d' = d\<lparr>lcd_state := lcd_state d', battery_level := percent (battery_level d)\<rparr>"
    by (simp add: d')
qed

text \<open>The display is ready for a command, and it shows the buffer.\<close>

definition ready :: "chip \<Rightarrow> lcd \<Rightarrow> bool" where
  "ready s0 l \<longleftrightarrow> lcd_ok l \<and> shown (pcd8544_buffer l) 0 (screen s0 l)"

definition synced :: "chip \<Rightarrow> lcd \<Rightarrow> bool" where
  "synced s0 l \<longleftrightarrow> lcd_ok l \<and> shown (pcd8544_buffer l) 504 (screen s0 l)"

lemma synced_ready: "synced s0 l \<Longrightarrow> ready s0 l"
  by (simp add: synced_def ready_def shown_def)

lemma synced_ram: "synced s0 l \<Longrightarrow> chip_ram (screen s0 l) = pcd8544_buffer l"
  by (auto simp: synced_def shown_def lcd_ok_def intro: nth_equalityI)

lemma ready_redrawn: "redrawn l l' \<Longrightarrow> ready s0 l \<Longrightarrow> ready s0 l'"
  using redrawn_ok [of l l'] redrawn_screen [of l l' s0] by (simp add: ready_def shown_def)

lemma screen_backlight: "lcd_ok l \<Longrightarrow> screen s0 (emit [DigitalWrite dev_bk v] l) = screen s0 l"
  by (simp add: screen_emit lcd_ok_def)

lemma ready_backlight: "ready s0 l \<Longrightarrow> ready s0 (emit [DigitalWrite dev_bk v] l)"
  and synced_backlight: "synced s0 l \<Longrightarrow> synced s0 (emit [DigitalWrite dev_bk v] l)"
  by (simp_all add: ready_def synced_def screen_backlight, simp_all add: emit_def)

lemma synced_LCDdisplay: "ready s0 l \<Longrightarrow> synced s0 (LCDdisplay l)"
  using screen_LCDdisplay [OF lcd_ok_distinct] by (simp add: ready_def synced_def)

lemma synced_showLogo:
  assumes "ready s0 l"
  shows "synced s0 (LCDshowLogo l)"
proof -
  have "redrawn l (l\<lparr>pcd8544_buffer := map (\<lambda>i. pi_logo ! i) [0..<504]\<rparr>)"
    using assms by (simp add: redrawn_def ready_def lcd_ok_def del: upt_rec_numeral)
  from synced_LCDdisplay [OF ready_redrawn [OF this assms]] show ?thesis
    by (simp only: LCDshowLogo_def)
qed

lemma ready_init_display:
  assumes "pin_din l = dev_din" "pin_sclk l = dev_sclk" "pin_dc l = dev_dc" "length (pcd8544_buffer l) = 504"
    and "chip_bits (screen s0 l) = []" "length (chip_ram (screen s0 l)) = 504"
  shows "ready s0 (init_display l)"
proof -
  have "chip_bits (screen s0 (init_display l)) = [] \<and> \<not> chip_extended (screen s0 (init_display l)) \<and>
      chip_ram (screen s0 (init_display l)) = chip_ram (screen s0 l)"
    unfolding init_display_def
    by (rule screen_LCDInit) (use assms in \<open>simp_all add: pins_distinct_def\<close>)
  moreover have "lcd_ok (init_display l)"
    using assms(4) by (simp add: init_display_def lcd_ok_def LCDInit_def LCDcommand_sends emit_def Let_def)
  ultimately show ?thesis
    using assms(6) by (simp add: ready_def shown_def)
qed

subsection \<open>Every event keeps the state well formed and the display up to date\<close>

lemma update_display_wf:
  assumes "update_display d = Some d'" "dispd_wf (d\<lparr>battery_level := 0\<rparr>)" "ready s0 (lcd_state d)"
  shows "dispd_wf d' \<and> ready s0 (lcd_state d')"
proof -
  note r = update_display_redrawn [OF assms(1)]
  have ok: "lcd_ok (lcd_state d)"
    using assms(2) by (simp add: dispd_wf_def)
  have "lcd_ok (lcd_state d')"
    by (rule redrawn_ok [OF r(1) ok]) (fact ok)
  with assms(2) r(2) [OF ok] have "dispd_wf d'"
    by (cases d') (simp add: dispd_wf_def)
  with ready_redrawn [OF r(1) [OF ok] assms(3)] show ?thesis by simp
qed

lemma backlight_wf: "dispd_wf d \<Longrightarrow> ready s0 (lcd_state d) \<Longrightarrow>
    dispd_wf (backlight v d) \<and> ready s0 (lcd_state (backlight v d))"
  by (simp add: backlight_def dispd_wf_def ready_backlight)

lemma map_sum_Inr: "map_sum id f r = Inr y \<longleftrightarrow> (\<exists>x. r = Inr x \<and> y = f x)"
  by (cases r) auto

lemma command_cases:
  obtains (clear) "str = ''%clear%''" | (logo) "str = ''%logo%''"
  | (bat) "str \<noteq> ''%clear%''" "str \<noteq> ''%logo%''" "take 5 str = ''%bat%''"
  | (plug) "str \<noteq> ''%clear%''" "str \<noteq> ''%logo%''" "take 5 str \<noteq> ''%bat%''" "take 6 str = ''%plug%''"
  | (other) "str \<noteq> ''%clear%''" "str \<noteq> ''%logo%''" "take 5 str \<noteq> ''%bat%''" "take 6 str \<noteq> ''%plug%''"
  by blast

lemma wf_push:
  assumes "dispd_wf d" "CHR 0x0A \<notin> set str" "CHR 0x00 \<notin> set str"
  shows "dispd_wf (d\<lparr>linebuff := push_lines str 0 (linebuff d), battery_level := 0\<rparr>)"
  using assms set_last5 [of "linebuff d @ chunks str"] chunks_pieces [of _ str]
  by (fastforce simp: dispd_wf_def push_lines_last5)

lemma dispd_command_wf:
  assumes "dispd_command str d = Inr d'" "dispd_wf d" "ready s0 (lcd_state d)" "CHR 0x0A \<notin> set str" "CHR 0x00 \<notin> set str"
  shows "dispd_wf d' \<and> ready s0 (lcd_state d')"
proof -
  have draw: "dispd_wf d2 \<and> ready s0 (lcd_state d2)"
    if "draws (update_display d1) = Inr d2" "dispd_wf (d1\<lparr>battery_level := 0\<rparr>)" "lcd_state d1 = lcd_state d" for d1 d2
    using that update_display_wf [of d1 d2 s0] assms(3) by (auto simp: draws_def split: option.splits)
  have "ready s0 (LCDclear (lcd_state d))"
    using assms(2, 3) by (intro ready_redrawn [OF LCDclear_redrawn]) (simp_all add: dispd_wf_def)
  from synced_ready [OF synced_showLogo [OF this]]
  have logo: "ready s0 (LCDshowLogo (LCDclear (lcd_state d)))" .
  then have logo_ok: "lcd_ok (LCDshowLogo (LCDclear (lcd_state d)))"
    by (simp add: ready_def)
  show ?thesis
  proof (cases rule: command_cases [of str])
    case clear
    then obtain d2 where "draws (update_display (d\<lparr>linebuff := []\<rparr>)) = Inr d2" "d' = backlight True d2"
      using assms(1) by (auto simp: dispd_command_def map_sum_Inr)
    moreover have "dispd_wf (d\<lparr>linebuff := [], battery_level := 0\<rparr>)"
      using assms(2) by (simp add: dispd_wf_def)
    ultimately have "dispd_wf d2 \<and> ready s0 (lcd_state d2)"
      by (intro draw [of "d\<lparr>linebuff := []\<rparr>" d2]) simp_all
    then show ?thesis
      unfolding \<open>d' = _\<close> by (intro backlight_wf) simp_all
  next
    case logo
    then have "d' = backlight True (d\<lparr>linebuff := [], lcd_state := LCDshowLogo (LCDclear (lcd_state d))\<rparr>)"
      using assms(1) by (simp add: dispd_command_def)
    with \<open>ready s0 (LCDshowLogo _)\<close> logo_ok assms(2) show ?thesis
      by (simp only:) (rule backlight_wf, simp_all add: dispd_wf_def)
  next
    case bat
    then obtain v where "draws (update_display (d\<lparr>battery_level := host_atoi v\<rparr>)) = Inr d'"
      using assms(1) by (auto simp: dispd_command_def split: option.splits)
    then show ?thesis
      by (rule draw) (use assms(2) in \<open>simp_all add: dispd_wf_def\<close>)
  next
    case plug
    then obtain v where "draws (update_display (d\<lparr>battery_plugged := (host_atoi v \<noteq> 0)\<rparr>)) = Inr d'"
      using assms(1) by (auto simp: dispd_command_def split: option.splits)
    then show ?thesis
      by (rule draw) (use assms(2) in \<open>simp_all add: dispd_wf_def\<close>)
  next
    case other
    then obtain d2 where "draws (update_display (d\<lparr>linebuff := push_lines str 0 (linebuff d)\<rparr>)) = Inr d2"
        and d': "d' = (backlight True d2)\<lparr>ntimes_out := 0\<rparr>"
      using assms(1) by (auto simp: dispd_command_def map_sum_Inr)
    then have "dispd_wf d2 \<and> ready s0 (lcd_state d2)"
      using wf_push [OF assms(2, 4, 5)] by (intro draw [of "d\<lparr>linebuff := push_lines str 0 (linebuff d)\<rparr>" d2]) simp_all
    then have "dispd_wf (backlight True d2) \<and> ready s0 (lcd_state (backlight True d2))"
      by (intro backlight_wf) simp_all
    then show ?thesis
      unfolding d' by (simp add: dispd_wf_def)
  qed
qed

lemma finish_line_wf:
  assumes "dispd_wf d" "ready s0 (lcd_state d)"
  shows "dispd_wf (finish_line d) \<and> synced s0 (lcd_state (finish_line d))"
proof -
  have n: "dispd_wf (d\<lparr>ntimes_out := ntimes_out d + 1\<rparr>)"
    using assms(1) by (simp add: dispd_wf_def)
  show ?thesis
    using n backlight_wf [OF n, of s0 False] assms(2)
    by (auto simp: finish_line_def Let_def synced_LCDdisplay dispd_wf_def)
qed

lemma handle_timeout_wf:
  assumes "dispd_wf d" "synced s0 (lcd_state d)"
  shows "dispd_wf (handle_timeout d) \<and> synced s0 (lcd_state (handle_timeout d))"
proof -
  define d2 where "d2 = (if 2 < ntimes_out d + 1 then backlight False (d\<lparr>ntimes_out := ntimes_out d + 1\<rparr>)
    else d\<lparr>ntimes_out := ntimes_out d + 1\<rparr>)"
  have d2: "dispd_wf d2" "synced s0 (lcd_state d2)"
    using assms by (auto simp: d2_def backlight_def dispd_wf_def synced_backlight)
  then have "ready s0 (init_display (lcd_state d2))"
    by (intro ready_init_display) (auto simp: synced_def lcd_ok_def shown_def)
  then have "synced s0 (LCDdisplay (init_display (lcd_state d2)))"
    by (rule synced_LCDdisplay)
  moreover from this have "lcd_ok (init_display (lcd_state d2))"
    by (simp add: synced_def)
  moreover have "handle_timeout d = (if 20 < ntimes_reset d2 + 1
      then d2\<lparr>ntimes_reset := 0, lcd_state := LCDdisplay (init_display (lcd_state d2))\<rparr> else d2\<lparr>ntimes_reset := ntimes_reset d2 + 1\<rparr>)"
    by (simp only: handle_timeout_def Let_def d2_def)
  ultimately show ?thesis
    using d2 by (simp add: dispd_wf_def)
qed

lemma handle_event_wf:
  assumes "handle_event e d = Inr d'" "dispd_wf d" "synced s0 (lcd_state d)"
  shows "dispd_wf d' \<and> synced s0 (lcd_state d')"
proof (cases "e = ReadByte (CHR 0x0A)")
  case True
  let ?str = "takeWhile (\<lambda>c. c \<noteq> CHR 0x00) (input_line d)"
  obtain d1 where d1: "dispd_command ?str (d\<lparr>input_line := []\<rparr>) = Inr d1" "d' = finish_line d1"
    using True assms(1) by (auto simp: handle_byte_def handle_line_def map_sum_Inr)
  have "dispd_wf (d\<lparr>input_line := []\<rparr>)" "CHR 0x0A \<notin> set (input_line d)"
    using assms(2) by (simp_all add: dispd_wf_def)
  then have "dispd_wf d1 \<and> ready s0 (lcd_state d1)"
    using set_takeWhileD [of _ "\<lambda>c. c \<noteq> CHR 0x00" "input_line d"]
    by (intro dispd_command_wf [OF d1(1)]) (simp_all add: synced_ready assms(3), blast+)
  then show ?thesis
    unfolding d1(2) by (intro finish_line_wf) simp_all
next
  case False
  show ?thesis
  proof (cases e)
    case SelectTimeout
    then show ?thesis
      using handle_timeout_wf [OF assms(2, 3)] assms(1) by simp
  next
    case (ReadByte c)
    then have "d' = d\<lparr>input_line := []\<rparr> \<or> length (input_line d) < 125 \<and> c \<noteq> CHR 0x0A \<and> d' = d\<lparr>input_line := input_line d @ [c]\<rparr>"
      using False assms(1) by (auto simp: handle_byte_def split: if_splits)
    then show ?thesis
      using assms(2, 3) by (elim disjE conjE) (simp_all add: dispd_wf_def)
  qed
qed

text \<open>The start: a driver that has written nothing yet, and a display between two bytes.\<close>

definition fresh :: "chip \<Rightarrow> lcd \<Rightarrow> bool" where
  "fresh s0 l \<longleftrightarrow> pin_trace l = [] \<and> length (pcd8544_buffer l) = 504 \<and> chip_bits s0 = [] \<and> length (chip_ram s0) = 504"

lemma init_display_pins: "init_display l = init_display (l\<lparr>pin_din := dev_din, pin_sclk := dev_sclk, pin_dc := dev_dc\<rparr>)"
  by (simp add: init_display_def LCDInit_def)

lemma dispd_start_wf:
  assumes "fresh s0 l"
  shows "dispd_wf (dispd_start l) \<and> synced s0 (lcd_state (dispd_start l))"
proof -
  let ?l = "emit [PinOutput dev_bk, DigitalWrite dev_bk True] l"
  have "ready s0 (init_display ?l)"
    by (subst init_display_pins, rule ready_init_display) (use assms in \<open>simp_all add: fresh_def emit_def screen_def\<close>)
  then have "synced s0 (LCDshowLogo (LCDclear (init_display ?l)))"
    by (intro synced_showLogo ready_redrawn [OF LCDclear_redrawn]) (simp_all add: ready_def)
  then show ?thesis
    by (simp add: dispd_start_def dispd_wf_def synced_def)
qed

lemma go_go_go_wf:
  assumes "go_go_go es d = Inr d'" "dispd_wf d" "synced s0 (lcd_state d)"
  shows "dispd_wf d' \<and> synced s0 (lcd_state d')"
  using assms
proof (induction es arbitrary: d)
  case (Cons e es)
  then obtain d1 where "handle_event e d = Inr d1" "go_go_go es d1 = Inr d'"
    by (auto split: sum.splits)
  with Cons handle_event_wf show ?case by blast
qed simp

lemma go_go_go_append: "go_go_go (es @ fs) d = (case go_go_go es d of Inl e \<Rightarrow> Inl e | Inr d' \<Rightarrow> go_go_go fs d')"
  by (induction es arbitrary: d) (auto split: sum.splits)

section \<open>Errors\<close>

text \<open>No byte that the font lacks is kept; then drawing succeeds.\<close>

definition no_ff :: "dispd \<Rightarrow> bool" where
  "no_ff d \<longleftrightarrow> CHR 0xFF \<notin> set (input_line d) \<and> (\<forall>s\<in>set (linebuff d). CHR 0xFF \<notin> set s)"

lemma no_ff_backlight [simp]: "no_ff (backlight v d) = no_ff d"
  by (simp add: no_ff_def backlight_def)

lemma update_display_shows:
  assumes "dispd_wf (d\<lparr>battery_level := 0\<rparr>)" "no_ff d"
  obtains d' where "update_display d = Some d'" "linebuff d' = linebuff d" "input_line d' = input_line d"
    "\<And>a b. a < 84 \<Longrightarrow> b < 48 \<Longrightarrow>
      pixel (pcd8544_buffer (lcd_state d')) a b = picture (linebuff d) (percent (battery_level d)) (battery_plugged d) a b"
proof -
  have lines: "\<forall>s\<in>set (linebuff d). drawable s \<and> length s \<le> 14"
    using assms by (auto simp: dispd_wf_def no_ff_def drawable_def)
  have fields: "textsize (lcd_state d) = 1" "textcolor (lcd_state d) \<noteq> 0" "length (linebuff d) \<le> 5"
    using assms(1) by (simp_all add: dispd_wf_def lcd_ok_def)
  show thesis
    by (rule update_display_picture [OF fields lines]) (rule that, assumption, simp_all)
qed

lemma no_ff_push:
  assumes "no_ff d" "CHR 0xFF \<notin> set str" "length (linebuff d) \<le> 5"
  shows "no_ff (d\<lparr>linebuff := push_lines str 0 (linebuff d)\<rparr>)"
  using assms set_last5 [of "linebuff d @ chunks str"] chunks_pieces [of _ str]
  by (fastforce simp: no_ff_def push_lines_last5)

lemma draws_shows:
  assumes "dispd_wf (d\<lparr>battery_level := 0\<rparr>)" "no_ff d"
  shows "\<exists>d'. draws (update_display d) = Inr d' \<and> no_ff d'"
proof -
  obtain d' where "update_display d = Some d'" "linebuff d' = linebuff d" "input_line d' = input_line d"
    by (rule update_display_shows [OF assms])
  with assms(2) show ?thesis
    by (simp add: draws_def no_ff_def)
qed

lemma substr_from_bat: "take 5 str = ''%bat%'' \<Longrightarrow> substr_from 6 str = None \<Longrightarrow> str = ''%bat%''"
  and substr_from_plug: "take 6 str = ''%plug%'' \<Longrightarrow> substr_from 7 str = None \<Longrightarrow> str = ''%plug%''"
  by (simp_all add: substr_from_def split: if_splits)

lemma dispd_command_bat:
  assumes "take 5 str = ''%bat%''" "substr_from 6 str = Some v"
  shows "dispd_command str d = draws (update_display (d\<lparr>battery_level := host_atoi v\<rparr>)) \<and> str \<noteq> ''%bat%'' \<and> str \<noteq> ''%plug%''"
proof -
  have ne: "str \<noteq> ''%clear%''" "str \<noteq> ''%logo%''" "str \<noteq> ''%plug%''" "str \<noteq> ''%bat%''"
    using assms by (auto simp: substr_from_def)
  then show ?thesis
    by (simp only: dispd_command_def assms if_False if_True option.case simp_thms)
qed

lemma dispd_command_plug:
  assumes "take 6 str = ''%plug%''" "substr_from 7 str = Some v"
  shows "dispd_command str d = draws (update_display (d\<lparr>battery_plugged := (host_atoi v \<noteq> 0)\<rparr>)) \<and> str \<noteq> ''%bat%'' \<and> str \<noteq> ''%plug%''"
proof -
  have "take 5 str = take 5 (take 6 str)"
    by simp
  then have five: "take 5 str \<noteq> ''%bat%''"
    unfolding assms(1) by simp
  have ne: "str \<noteq> ''%clear%''" "str \<noteq> ''%logo%''" "str \<noteq> ''%bat%''" "str \<noteq> ''%plug%''"
    using assms by (auto simp: substr_from_def)
  with five show ?thesis
    by (simp only: dispd_command_def assms if_False if_True option.case simp_thms)
qed

lemma dispd_command_result:
  assumes "dispd_wf d" "no_ff d" "CHR 0x0A \<notin> set str" "CHR 0x00 \<notin> set str" "CHR 0xFF \<notin> set str"
  shows "if str = ''%bat%'' \<or> str = ''%plug%'' then dispd_command str d = Inl OutOfRange
    else \<exists>d'. dispd_command str d = Inr d' \<and> no_ff d'"
proof -
  have wf: "dispd_wf (d\<lparr>battery_level := 0\<rparr>)"
    using assms(1) by (simp add: dispd_wf_def)
  show ?thesis
  proof (cases rule: command_cases [of str])
    case clear
    have "dispd_wf (d\<lparr>linebuff := [], battery_level := 0\<rparr>)" "no_ff (d\<lparr>linebuff := []\<rparr>)"
      using wf assms(2) by (simp_all add: dispd_wf_def no_ff_def)
    then obtain d' where "draws (update_display (d\<lparr>linebuff := []\<rparr>)) = Inr d'" "no_ff d'"
      using draws_shows [of "d\<lparr>linebuff := []\<rparr>"] by auto
    with clear show ?thesis
      by (simp add: dispd_command_def)
  next
    case logo
    with assms(2) show ?thesis
      by (simp add: dispd_command_def) (simp add: no_ff_def)
  next
    case bat
    show ?thesis
    proof (cases "substr_from 6 str")
      case None
      from substr_from_bat [OF bat(3) this] show ?thesis
        by (simp add: dispd_command_def substr_from_def)
    next
      case (Some v)
      have "\<exists>d'. draws (update_display (d\<lparr>battery_level := host_atoi v\<rparr>)) = Inr d' \<and> no_ff d'"
        using wf assms(2) by (intro draws_shows) (simp_all add: no_ff_def)
      with dispd_command_bat [OF bat(3) Some, of d] show ?thesis
        by simp
    qed
  next
    case plug
    show ?thesis
    proof (cases "substr_from 7 str")
      case None
      from substr_from_plug [OF plug(4) this] show ?thesis
        by (simp add: dispd_command_def substr_from_def)
    next
      case (Some v)
      have "\<exists>d'. draws (update_display (d\<lparr>battery_plugged := (host_atoi v \<noteq> 0)\<rparr>)) = Inr d' \<and> no_ff d'"
        using wf assms(2) by (intro draws_shows) (simp_all add: no_ff_def dispd_wf_def)
      with dispd_command_plug [OF plug(4) Some, of d] show ?thesis
        by simp
    qed
  next
    case other
    let ?d = "d\<lparr>linebuff := push_lines str 0 (linebuff d)\<rparr>"
    have "length (linebuff d) \<le> 5"
      using assms(1) by (simp add: dispd_wf_def)
    then obtain d' where d': "draws (update_display ?d) = Inr d'" "no_ff d'"
      using wf_push [OF assms(1, 3, 4)] no_ff_push [OF assms(2, 5)] draws_shows [of ?d] by auto
    have "dispd_command str d = Inr ((backlight True d')\<lparr>ntimes_out := 0\<rparr>)"
      using other d'(1) by (simp add: dispd_command_def)
    moreover have "no_ff ((backlight True d')\<lparr>ntimes_out := 0\<rparr>)"
      using d'(2) by (simp add: no_ff_def backlight_def)
    ultimately show ?thesis
      using other by auto
  qed
qed

text \<open>The line that a newline completes.\<close>

definition received :: "dispd \<Rightarrow> string" where
  "received d = takeWhile (\<lambda>c. c \<noteq> CHR 0x00) (input_line d)"

lemma received_chars: "CHR 0x00 \<notin> set (received d)" "set (received d) \<subseteq> set (input_line d)"
  unfolding received_def by (auto dest: set_takeWhileD)

lemma no_ff_finish_line [simp]: "no_ff (finish_line d) = no_ff d"
  by (simp add: finish_line_def Let_def no_ff_def backlight_def)

lemma no_ff_handle_timeout [simp]: "no_ff (handle_timeout d) = no_ff d"
  by (simp add: handle_timeout_def Let_def no_ff_def backlight_def)

lemma handle_event_result:
  assumes "dispd_wf d" "no_ff d" "e \<noteq> ReadByte (CHR 0xFF)"
  shows "if e = ReadByte (CHR 0x0A) \<and> received d \<in> {''%bat%'', ''%plug%''} then handle_event e d = Inl OutOfRange
    else \<exists>d'. handle_event e d = Inr d' \<and> no_ff d'"
proof (cases e)
  case SelectTimeout
  with assms(2) show ?thesis by simp
next
  case (ReadByte c)
  show ?thesis
  proof (cases "c = CHR 0x0A")
    case True
    have "dispd_wf (d\<lparr>input_line := []\<rparr>)" "no_ff (d\<lparr>input_line := []\<rparr>)"
      "CHR 0x0A \<notin> set (received d)" "CHR 0xFF \<notin> set (received d)"
      using assms(1, 2) received_chars(2) [of d] by (auto simp: dispd_wf_def no_ff_def)
    from dispd_command_result [OF this(1, 2, 3) received_chars(1) this(4)] ReadByte True show ?thesis
      by (auto simp: handle_byte_def handle_line_def received_def [symmetric] split: if_splits)
  next
    case False
    then show ?thesis
      using ReadByte assms(2, 3) by (auto simp: handle_byte_def no_ff_def)
  qed
qed

lemma go_go_go_no_ff:
  assumes "go_go_go es d = Inr d'" "dispd_wf d" "synced s0 (lcd_state d)" "no_ff d" "ReadByte (CHR 0xFF) \<notin> set es"
  shows "no_ff d'"
  using assms
proof (induction es arbitrary: d)
  case (Cons e es)
  then obtain d1 where d1: "handle_event e d = Inr d1" "go_go_go es d1 = Inr d'"
    by (auto split: sum.splits)
  then have "no_ff d1"
    using handle_event_result [of d e] Cons.prems by (auto split: if_splits)
  with Cons handle_event_wf [OF d1(1)] d1(2) show ?case by simp
qed simp

lemma reachable_state:
  assumes "fresh s0 l" "go_go_go es (dispd_start l) = Inr d" "ReadByte (CHR 0xFF) \<notin> set es"
  shows "dispd_wf d" "synced s0 (lcd_state d)" "no_ff d"
proof -
  have "no_ff (dispd_start l)"
    by (simp add: no_ff_def dispd_start_def)
  then show "dispd_wf d" "synced s0 (lcd_state d)" "no_ff d"
    using dispd_start_wf [OF assms(1)] go_go_go_wf [OF assms(2), of s0] go_go_go_no_ff [OF assms(2), of s0] assms(3)
    by simp_all
qed

lemma go_go_go_bytes:
  assumes "length (input_line d) + length s < 126" "CHR 0x0A \<notin> set s"
  shows "go_go_go (map ReadByte s) d = Inr (d\<lparr>input_line := input_line d @ s\<rparr>)"
  using assms
proof (induction s arbitrary: d)
  case (Cons c s)
  then show ?case
    using Cons.IH [of "d\<lparr>input_line := input_line d @ [c]\<rparr>"] by (auto simp: handle_byte_def)
qed simp

lemma go_go_go_line:
  assumes "input_line d = []" "length s < 126" "CHR 0x0A \<notin> set s" "CHR 0x00 \<notin> set s"
  shows "go_go_go (map ReadByte (s @ [CHR 0x0A])) d = map_sum id finish_line (dispd_command s d)"
proof -
  have str: "takeWhile (\<lambda>c. c \<noteq> CHR 0x00) s = s" and same: "d\<lparr>input_line := []\<rparr> = d"
    using assms(1, 4) by (auto simp: takeWhile_eq_all_conv)
  have "handle_line (d\<lparr>input_line := s\<rparr>) = map_sum id finish_line (dispd_command s d)"
    by (simp add: handle_line_def str same)
  then show ?thesis
    using assms by (simp add: go_go_go_append go_go_go_bytes handle_byte_def split: sum.splits)
qed

lemma finish_line_ram:
  assumes "dispd_wf d" "ready s0 (lcd_state d)"
  shows "chip_ram (screen s0 (lcd_state (finish_line d))) = pcd8544_buffer (lcd_state d)"
proof -
  have "pcd8544_buffer (lcd_state (finish_line d)) = pcd8544_buffer (lcd_state d)"
    by (simp add: finish_line_def Let_def backlight_def emit_def)
  then show ?thesis
    using finish_line_wf [OF assms] synced_ram by force
qed

text \<open>What the display shows.\<close>

definition shows_picture :: "chip \<Rightarrow> dispd \<Rightarrow> (nat \<Rightarrow> nat \<Rightarrow> bool) \<Rightarrow> bool" where
  "shows_picture s0 d p \<longleftrightarrow> (\<forall>a<84. \<forall>b<48. pixel (chip_ram (screen s0 (lcd_state d))) a b = p a b)"

definition plain_text :: "string \<Rightarrow> bool" where
  "plain_text str \<longleftrightarrow> str \<noteq> ''%clear%'' \<and> str \<noteq> ''%logo%'' \<and> take 5 str \<noteq> ''%bat%'' \<and> take 6 str \<noteq> ''%plug%''"

lemma percent_id: "0 \<le> n \<Longrightarrow> n \<le> 100 \<Longrightarrow> percent n = n"
  by (simp add: percent_def)

lemma text_line_shown:
  assumes "dispd_wf d" "synced s0 (lcd_state d)" "no_ff d" "plain_text str"
    and "CHR 0x0A \<notin> set str" "CHR 0x00 \<notin> set str" "CHR 0xFF \<notin> set str"
  shows "\<exists>d'. map_sum id finish_line (dispd_command str d) = Inr d' \<and>
    shows_picture s0 d' (picture (last5 (linebuff d @ chunks str)) (battery_level d) (battery_plugged d))"
proof -
  let ?d = "d\<lparr>linebuff := push_lines str 0 (linebuff d)\<rparr>"
  have len: "length (linebuff d) \<le> 5" and level: "percent (battery_level d) = battery_level d"
    using assms(1) by (simp_all add: dispd_wf_def percent_id)
  have wf: "dispd_wf (?d\<lparr>battery_level := 0\<rparr>)"
    using wf_push [OF assms(1, 5, 6)] by simp
  obtain d1 where d1: "update_display ?d = Some d1" "\<And>a b. a < 84 \<Longrightarrow> b < 48 \<Longrightarrow>
      pixel (pcd8544_buffer (lcd_state d1)) a b = picture (linebuff ?d) (percent (battery_level ?d)) (battery_plugged ?d) a b"
    by (rule update_display_shows [OF wf no_ff_push [OF assms(3, 7) len]]) blast
  let ?d2 = "(backlight True d1)\<lparr>ntimes_out := 0\<rparr>"
  have run: "dispd_command str d = Inr ?d2"
    using assms(4) d1(1) by (simp add: plain_text_def dispd_command_def draws_def)
  have "dispd_wf ?d2 \<and> ready s0 (lcd_state ?d2)"
    by (rule dispd_command_wf [OF run assms(1) synced_ready [OF assms(2)] assms(5, 6)])
  from finish_line_ram [OF conjunct1 [OF this] conjunct2 [OF this]]
  have "chip_ram (screen s0 (lcd_state (finish_line ?d2))) = pcd8544_buffer (lcd_state d1)"
    by (simp add: backlight_def emit_def)
  with d1(2) show ?thesis
    by (simp add: run shows_picture_def level push_lines_last5 [OF len])
qed

lemma report_line_chars:
  "CHR 0x0A \<notin> set (''%bat% '' @ show_int n)" "CHR 0x00 \<notin> set (''%bat% '' @ show_int n)"
  using show_int_chars [of "CHR 0x0A" n] show_int_chars [of "CHR 0x00" n] by (auto simp: is_digit_def)

lemma report_line_shown:
  assumes "dispd_wf d" "synced s0 (lcd_state d)" "no_ff d" "int32 n"
  shows "\<exists>d'. map_sum id finish_line (dispd_command (''%bat% '' @ show_int n) d) = Inr d' \<and>
    shows_picture s0 d' (picture (linebuff d) (percent n) (battery_plugged d))"
proof -
  let ?str = "''%bat% '' @ show_int n" and ?d = "d\<lparr>battery_level := n\<rparr>"
  have wf: "dispd_wf (?d\<lparr>battery_level := 0\<rparr>)" and ff: "no_ff ?d"
    using assms(1, 3) by (simp_all add: dispd_wf_def no_ff_def)
  obtain d1 where d1: "update_display ?d = Some d1" "\<And>a b. a < 84 \<Longrightarrow> b < 48 \<Longrightarrow>
      pixel (pcd8544_buffer (lcd_state d1)) a b = picture (linebuff ?d) (percent (battery_level ?d)) (battery_plugged ?d) a b"
    by (rule update_display_shows [OF wf ff]) blast
  have "take 5 ?str = ''%bat%''" "substr_from 6 ?str = Some (show_int n)"
    by (simp_all add: substr_from_def)
  from dispd_command_bat [OF this, of d] have run: "dispd_command ?str d = Inr d1"
    using d1(1) assms(4) by (simp add: draws_def)
  have "dispd_wf d1 \<and> ready s0 (lcd_state d1)"
    by (rule dispd_command_wf [OF run assms(1) synced_ready [OF assms(2)] report_line_chars])
  from finish_line_ram [OF conjunct1 [OF this] conjunct2 [OF this]] d1(2) show ?thesis
    by (simp only: run map_sum.simps) (simp add: shows_picture_def)
qed

lemma report_shown:
  assumes "dispd_wf d" "synced s0 (lcd_state d)" "no_ff d" "int32 n" "input_line d = []"
  shows "\<exists>d'. go_go_go (map ReadByte (''%bat% '' @ show_int n @ nl)) d = Inr d' \<and>
    shows_picture s0 d' (picture (linebuff d) (percent n) (battery_plugged d))"
proof -
  have "length (''%bat% '' @ show_int n) < 126"
    using length_show_int [OF assms(4)] by simp
  from go_go_go_line [OF assms(5) this report_line_chars] report_line_shown [OF assms(1-4)] show ?thesis
    by (simp add: nl_def)
qed

section \<open>Properties of the daemon\<close>

text \<open>
  C13. Whatever arrives on the pipe, in every state the daemon reaches the text buffer holds at most five lines, none
  empty or longer than fourteen characters, the battery level is a percentage, the input line fits its
  array, and the display buffer has its 504 bytes.
\<close>

theorem dispd_state_well_formed:
  assumes "length (pcd8544_buffer l) = 504" "pin_trace l = []" "go_go_go es (dispd_start l) = Inr d"
  shows "dispd_wf d"
proof -
  have "fresh chip_off l"
    using assms(1, 2) by (simp add: fresh_def chip_off_def)
  then show ?thesis
    using go_go_go_wf [OF assms(3)] dispd_start_wf by blast
qed

theorem dispd_state_well_formed_witness:
  "dispd_wf (handle_timeout (dispd_start lcd_off))"
  using dispd_state_well_formed [of lcd_off "[SelectTimeout]" "handle_timeout (dispd_start lcd_off)"]
  by (simp add: lcd_off_def)

text \<open>
  C11. After every event the display shows the buffer: the bytes clocked into the display since the start leave exactly
  the buffer in its memory, also after the backlight was switched and the display was initialised again.
\<close>

theorem dispd_display_in_sync:
  assumes "fresh s0 l" "go_go_go es (dispd_start l) = Inr d"
  shows "chip_ram (screen s0 (lcd_state d)) = pcd8544_buffer (lcd_state d)"
  using go_go_go_wf [OF assms(2)] dispd_start_wf [OF assms(1)] synced_ram by blast

theorem dispd_display_in_sync_witness:
  "chip_ram (screen chip_off (lcd_state (handle_timeout (dispd_start lcd_off)))) =
    pcd8544_buffer (lcd_state (handle_timeout (dispd_start lcd_off)))"
  using dispd_display_in_sync [of chip_off lcd_off "[SelectTimeout]" "handle_timeout (dispd_start lcd_off)"]
  by (simp add: fresh_def chip_off_def lcd_off_def)

text \<open>
  C37. As long as no byte 255 arrives, the daemon fails in exactly one way: it ends with an uncaught exception
  when a line is \<^verbatim>\<open>%bat%\<close> or \<^verbatim>\<open>%plug%\<close> without anything behind the command.  Every other event is handled.
\<close>

theorem dispd_fails_exactly:
  assumes "length (pcd8544_buffer l) = 504" "pin_trace l = []" "go_go_go es (dispd_start l) = Inr d"
    and "ReadByte (CHR 0xFF) \<notin> set es" "e \<noteq> ReadByte (CHR 0xFF)"
  shows "handle_event e d = Inl err \<longleftrightarrow>
    err = OutOfRange \<and> e = ReadByte (CHR 0x0A) \<and> received d \<in> {''%bat%'', ''%plug%''}"
proof -
  have "fresh chip_off l"
    using assms(1, 2) by (simp add: fresh_def chip_off_def)
  from reachable_state [OF this assms(3, 4)] have "dispd_wf d" "no_ff d"
    by simp_all
  from handle_event_result [OF this assms(5)] show ?thesis
    by (auto split: if_splits)
qed

theorem dispd_fails_exactly_witness:
  "handle_event (ReadByte (CHR 0x0A)) ((dispd_start lcd_off)\<lparr>input_line := ''%bat%''\<rparr>) = Inl OutOfRange"
proof -
  have start: "go_go_go (map ReadByte ''%bat%'') (dispd_start lcd_off) = Inr ((dispd_start lcd_off)\<lparr>input_line := ''%bat%''\<rparr>)"
    by (subst go_go_go_bytes) (simp_all add: dispd_start_def)
  from dispd_fails_exactly [OF _ _ start, of "ReadByte (CHR 0x0A)" OutOfRange] show ?thesis
    by (simp add: lcd_off_def received_def)
qed

text \<open>
  C9. A line of text appears on the display: after its newline the memory of the display holds, pixel for pixel,
  the last five lines of at most fourteen characters in the glyphs of the font, the new text broken into such
  lines, above the status line with the battery.
\<close>

theorem dispd_shows_text:
  assumes "fresh s0 l" "go_go_go es (dispd_start l) = Inr d" "ReadByte (CHR 0xFF) \<notin> set es" "input_line d = []"
    and "length str < 126" "plain_text str" "CHR 0x0A \<notin> set str" "CHR 0x00 \<notin> set str" "CHR 0xFF \<notin> set str"
  shows "\<exists>d'. go_go_go (map ReadByte (str @ [CHR 0x0A])) d = Inr d' \<and>
    shows_picture s0 d' (picture (last5 (linebuff d @ chunks str)) (battery_level d) (battery_plugged d))"
  unfolding go_go_go_line [OF assms(4, 5, 7, 8)]
  by (rule text_line_shown [OF reachable_state [OF assms(1-3)] assms(6-9)])

theorem dispd_shows_text_witness:
  "\<exists>d'. go_go_go (map ReadByte (''hello'' @ [CHR 0x0A])) (dispd_start lcd_off) = Inr d' \<and>
    shows_picture chip_off d' (picture [''hello''] 0 False)"
proof -
  have "fresh chip_off lcd_off"
    by (simp add: fresh_def chip_off_def lcd_off_def)
  moreover have "last5 (linebuff (dispd_start lcd_off) @ chunks ''hello'') = [''hello'']"
    by (simp add: dispd_start_def chunks.simps last5_def)
  ultimately show ?thesis
    using dispd_shows_text [of chip_off lcd_off "[]" "dispd_start lcd_off" "''hello''"]
    by (simp add: plain_text_def) (simp add: dispd_start_def)
qed

end
