(* ===== verification/Servo_Blaster.thy ===== *)
theory Servo_Blaster
  imports Host_Interface
begin

text \<open>
  The servo daemon of the host computer (\<^verbatim>\<open>servoBlaster/servod.c\<close>): it parses commands such as \<^verbatim>\<open>0=150\<close> or
  \<^verbatim>\<open>P1-18=50%\<close>, keeps for every servo the samples of a cycle at which its output is switched, and lets a
  DMA controller walk through a ring of control blocks that copy these masks to the GPIO registers.

  An address in the memory that is shared with the DMA controller is its byte offset from \<^verbatim>\<open>virtbase\<close>, the argument
  of \<^verbatim>\<open>mem_virt_to_phys\<close>.  The registers of the peripherals are a function, the level of the
  outputs a word of its own.  Floating-point operations are exact operations followed by a rounding that is a
  parameter.  A call of \<^verbatim>\<open>fatal\<close> is an error value; so is the one write past an array the input can cause.
\<close>

section \<open>Constants and tables\<close>

abbreviation (input) DMY :: u8 where "DMY \<equiv> 255"
abbreviation (input) NUM_P1PINS :: nat where "NUM_P1PINS \<equiv> 26"
abbreviation (input) NUM_P5PINS :: nat where "NUM_P5PINS \<equiv> 8"
abbreviation (input) MAX_SERVOS :: nat where "MAX_SERVOS \<equiv> 32"

datatype servod_error = Fatal string | BufferOverflow | Usage

definition rev1_p1pin2gpio_map :: "u8 list" where
  "rev1_p1pin2gpio_map = [DMY, DMY, 0, DMY, 1, DMY, 4, 14, DMY, 15, 17, 18, 21, DMY, 22, 23, DMY, 24, 10, DMY, 9, 25, 11, 8, DMY, 7]"

definition rev1_p5pin2gpio_map :: "u8 list" where
  "rev1_p5pin2gpio_map = [DMY, DMY, DMY, DMY, DMY, DMY, DMY, DMY]"

definition rev2_p1pin2gpio_map :: "u8 list" where
  "rev2_p1pin2gpio_map = [DMY, DMY, 2, DMY, 3, DMY, 4, 14, DMY, 15, 17, 18, 27, DMY, 22, 23, DMY, 24, 10, DMY, 9, 25, 11, 8, DMY, 7]"

definition rev2_p5pin2gpio_map :: "u8 list" where
  "rev2_p5pin2gpio_map = [DMY, DMY, 28, 29, 30, 31, DMY, DMY]"

section \<open>State\<close>

record dma_cb =
  cb_info :: u32
  cb_src :: nat
  cb_dst :: u32
  cb_length :: u32
  cb_stride :: u32
  cb_next :: nat

datatype peripheral = PWM | PCM | CLK | DMA | GPIO

record servod =
  cycle_time_us :: int
  step_time_us :: int
  servo2gpio :: "u8 list"
  p1pin2servo :: "u8 list"
  p5pin2servo :: "u8 list"
  servostart :: "nat list"
  servowidth :: "nat list"
  num_servos :: nat
  gpiomode :: "u32 list"
  restore_gpio_modes :: bool
  delay_via_pcm :: bool
  servo_kill_time :: "(int \<times> int) list"
  dma_chan :: int
  idle_timeout :: int
  inverted :: bool
  servo_min_ticks :: int
  servo_max_ticks :: int
  num_samples :: nat
  turnoff_mask :: "u32 list"
  turnon_mask :: "u32 list"
  control_blocks :: "dma_cb list"
  cmd_line :: string
  levels :: u32
  io_regs :: "peripheral \<Rightarrow> nat \<Rightarrow> u32"

definition io_write :: "peripheral \<Rightarrow> nat \<Rightarrow> u32 \<Rightarrow> servod \<Rightarrow> servod" where
  "io_write p i v st = st\<lparr>io_regs := (io_regs st)(p := (io_regs st p)(i := v))\<rparr>"

section \<open>The GPIO registers\<close>

definition gpio_get_mode :: "nat \<Rightarrow> servod \<Rightarrow> u32" where
  "gpio_get_mode gpio st = drop_bit (gpio mod 10 * 3) (io_regs st GPIO (gpio div 10)) AND 7"

definition gpio_set_mode :: "nat \<Rightarrow> u32 \<Rightarrow> servod \<Rightarrow> servod" where
  "gpio_set_mode gpio mode st =
    (let fsel = io_regs st GPIO (gpio div 10);
         fsel = fsel AND NOT (push_bit (gpio mod 10 * 3) 7);
         fsel = fsel OR push_bit (gpio mod 10 * 3) mode
     in io_write GPIO (gpio div 10) fsel st)"

text \<open>A write to the set register raises the outputs of its bits, one to the clear register lowers them.\<close>

definition gpio_set :: "nat \<Rightarrow> bool \<Rightarrow> servod \<Rightarrow> servod" where
  "gpio_set gpio level st =
    (if level then st\<lparr>levels := levels st OR push_bit gpio 1\<rparr> else st\<lparr>levels := levels st AND NOT (push_bit gpio 1)\<rparr>)"

section \<open>Idle timers\<close>

text \<open>The loop that carries the microseconds into the seconds.\<close>

function carry_usec :: "int \<times> int \<Rightarrow> int \<times> int" where
  "carry_usec (sec, usec) = (if 1000000 \<le> usec then carry_usec (sec + 1, usec - 1000000) else (sec, usec))"
  by pat_completeness auto
termination by (relation "measure (\<lambda>(sec, usec). nat usec)") auto

declare carry_usec.simps [simp del]

definition update_idle_time :: "int \<times> int \<Rightarrow> nat \<Rightarrow> servod \<Rightarrow> servod" where
  "update_idle_time now servo st =
    (if idle_timeout st = 0 then st
     else st\<lparr>servo_kill_time := (servo_kill_time st)[servo :=
       carry_usec (fst now + idle_timeout st div 1000, snd now + (idle_timeout st mod 1000) * 1000)]\<rparr>)"

definition set_servo_idle :: "nat \<Rightarrow> servod \<Rightarrow> servod" where
  "set_servo_idle servo st =
    (let st1 = st\<lparr>turnon_mask := (turnon_mask st)[servo := 0]\<rparr>
     in if servowidth st1 ! servo = num_samples st1 then gpio_set (unat (servo2gpio st1 ! servo)) (inverted st1) st1 else st1)"

text \<open>
  One round of the loop over the servos.  The difference of two times is computed in a \<^verbatim>\<open>long\<close>, which has
  32 bits on the host.
\<close>

definition idle_round :: "int \<times> int \<Rightarrow> nat \<Rightarrow> (int \<times> int) \<times> servod \<Rightarrow> (int \<times> int) \<times> servod" where
  "idle_round now i = (\<lambda>(mn, st).
    (let (ks, ku) = servo_kill_time st ! i
     in if servo2gpio st ! i = DMY \<or> ks = 0 then (mn, st)
        else if ks < fst now \<or> ks = fst now \<and> ku \<le> snd now
        then (mn, set_servo_idle i (st\<lparr>servo_kill_time := (servo_kill_time st)[i := (0, ku)]\<rparr>))
        else
          let this_diff = wrap32 ((ks - fst now) * 1000000 + ku - snd now);
              min_diff = wrap32 (fst mn * 1000000 + snd mn)
          in if this_diff < min_diff then ((this_diff sdiv 1000000, this_diff smod 1000000), st) else (mn, st)))"

definition get_next_idle_timeout :: "int \<times> int \<Rightarrow> servod \<Rightarrow> (int \<times> int) \<times> servod" where
  "get_next_idle_timeout now st = fold (idle_round now) [0..<MAX_SERVOS] ((60, 0), st)"

section \<open>Setting a servo\<close>

text \<open>The mask words that are written, in the order of the two loops: the pointer runs down, or up, and wraps.\<close>

fun down_writes :: "nat \<Rightarrow> nat \<Rightarrow> nat \<Rightarrow> nat list" where
  "down_writes n 0 dp = []"
| "down_writes n (Suc c) dp = (let dp' = (if dp = 0 then n - 1 else dp - 1) in dp' # down_writes n c dp')"

fun up_writes :: "nat \<Rightarrow> nat \<Rightarrow> nat \<Rightarrow> nat list" where
  "up_writes n 0 dp = []"
| "up_writes n (Suc c) dp = dp # up_writes n c (if n \<le> dp + 1 then 0 else dp + 1)"

definition servo_bit :: "nat \<Rightarrow> servod \<Rightarrow> u32" where
  "servo_bit servo st = push_bit (unat (servo2gpio st ! servo)) 1"

definition turnoff_writes :: "nat \<Rightarrow> nat \<Rightarrow> servod \<Rightarrow> (nat \<times> bool) list" where
  "turnoff_writes servo width st =
    (let n = num_samples st; old = servowidth st ! servo;
         dp = servostart st ! servo + width; dp = (if n \<le> dp then dp - n else dp)
     in if old < width then map (\<lambda>i. (i, False)) (down_writes n (width - old) dp)
        else if width < old then map (\<lambda>i. (i, True)) (up_writes n (old - width) dp)
        else [])"

definition write_mask :: "u32 \<Rightarrow> nat \<times> bool \<Rightarrow> u32 list \<Rightarrow> u32 list" where
  "write_mask msk = (\<lambda>(i, b) m. m[i := if b then m ! i OR msk else m ! i AND NOT msk])"

definition set_servo :: "int \<times> int \<Rightarrow> nat \<Rightarrow> nat \<Rightarrow> servod \<Rightarrow> servod" where
  "set_servo now servo width st =
    (let msk = servo_bit servo st;
         st1 = st\<lparr>turnoff_mask := fold (write_mask msk) (turnoff_writes servo width st) (turnoff_mask st)\<rparr>;
         st2 = st1\<lparr>servowidth := (servowidth st1)[servo := width]\<rparr>;
         st3 = st2\<lparr>turnon_mask := (turnon_mask st2)[servo := if width = 0 then 0 else msk]\<rparr>
     in update_idle_time now servo st3)"

definition mapped :: "servod \<Rightarrow> nat \<Rightarrow> bool" where
  "mapped st i \<longleftrightarrow> i < MAX_SERVOS \<and> servo2gpio st ! i \<noteq> DMY"

definition terminate_servod :: "int \<times> int \<Rightarrow> servod \<Rightarrow> servod" where
  "terminate_servod now st =
    (let st1 = fold (\<lambda>i s. if servo2gpio s ! i \<noteq> DMY then set_servo now i 0 s else s) [0..<MAX_SERVOS] st;
         st2 = io_write DMA 0 (push_bit 31 1) st1
     in if restore_gpio_modes st2
        then fold (\<lambda>i s. if servo2gpio s ! i \<noteq> DMY then gpio_set_mode (unat (servo2gpio s ! i)) (gpiomode s ! i) s else s)
          [0..<MAX_SERVOS] st2
        else st2)"

section \<open>The control blocks\<close>

text \<open>The offsets of the three areas of the shared memory.\<close>

definition turnon_at :: "nat \<Rightarrow> servod \<Rightarrow> nat" where
  "turnon_at servo st = 4 * num_samples st + 4 * servo"

definition cb_at :: "nat \<Rightarrow> servod \<Rightarrow> nat" where
  "cb_at k st = ((num_samples st + MAX_SERVOS + 7) div 8 * 8) * 4 + 32 * k"

function next_mapped :: "u8 list \<Rightarrow> nat \<Rightarrow> nat" where
  "next_mapped g servo = (if servo < MAX_SERVOS \<and> g ! servo = DMY then next_mapped g (servo + 1) else servo)"
  by pat_completeness auto
termination by (relation "measure (\<lambda>(g, servo). MAX_SERVOS - servo)") auto

declare next_mapped.simps [simp del]

definition gpclr0 :: "servod \<Rightarrow> u32" where
  "gpclr0 st = (if inverted st then 0x7e200000 + 0x1c else 0x7e200000 + 0x28)"

definition gpset0 :: "servod \<Rightarrow> u32" where
  "gpset0 st = (if inverted st then 0x7e200000 + 0x28 else 0x7e200000 + 0x1c)"

definition fifo_addr :: "servod \<Rightarrow> u32" where
  "fifo_addr st = (if \<not> delay_via_pcm st then (0x2020C000 OR 0x7e000000) + 0x18 else (0x20203000 OR 0x7e000000) + 0x04)"

definition delay_info :: "servod \<Rightarrow> u32" where
  "delay_info st = push_bit 26 1 OR push_bit 3 1 OR push_bit 6 1 OR (if \<not> delay_via_pcm st then push_bit 16 5 else push_bit 16 2)"

definition copy_cb :: "nat \<Rightarrow> u32 \<Rightarrow> nat \<Rightarrow> dma_cb" where
  "copy_cb src dst nxt =
    \<lparr>cb_info = push_bit 26 1 OR push_bit 3 1, cb_src = src, cb_dst = dst, cb_length = 4, cb_stride = 0, cb_next = nxt\<rparr>"

definition delay_cb :: "nat \<Rightarrow> servod \<Rightarrow> dma_cb" where
  "delay_cb nxt st =
    \<lparr>cb_info = delay_info st, cb_src = 0, cb_dst = fifo_addr st, cb_length = 4, cb_stride = 0, cb_next = nxt\<rparr>"

text \<open>
  The loop over the samples; \<^term>\<open>k\<close> is the number of the block it writes next.  When all servos are done, the
  code still reads \<^verbatim>\<open>servostart[MAX_SERVOS]\<close>: the word behind the array is the parameter \<^term>\<open>beyond\<close>.
\<close>

fun ctrl_blocks :: "int \<Rightarrow> servod \<Rightarrow> nat \<Rightarrow> nat \<Rightarrow> nat list \<Rightarrow> dma_cb list" where
  "ctrl_blocks beyond st servo k [] = []"
| "ctrl_blocks beyond st servo k (i # is) =
    copy_cb (4 * i) (gpclr0 st) (cb_at (k + 1) st) #
    (if int i = (if servo < MAX_SERVOS then int (servostart st ! servo) else beyond)
     then copy_cb (turnon_at servo st) (gpset0 st) (cb_at (k + 2) st) # delay_cb (cb_at (k + 3) st) st #
       ctrl_blocks beyond st (next_mapped (servo2gpio st) (servo + 1)) (k + 3) is
     else delay_cb (cb_at (k + 2) st) st # ctrl_blocks beyond st servo (k + 2) is)"

definition close_ring :: "servod \<Rightarrow> dma_cb list \<Rightarrow> dma_cb list" where
  "close_ring st cbs = cbs[length cbs - 1 := (last cbs)\<lparr>cb_next := cb_at 0 st\<rparr>]"

definition maskall :: "servod \<Rightarrow> u32" where
  "maskall st = fold (\<lambda>i m. if servo2gpio st ! i \<noteq> DMY then m OR servo_bit i st else m) [0..<MAX_SERVOS] 0"

definition assign_start :: "nat \<Rightarrow> nat \<times> servod \<Rightarrow> nat \<times> servod" where
  "assign_start i = (\<lambda>(curstart, st).
    if servo2gpio st ! i \<noteq> DMY
    then (curstart + num_samples st div num_servos st, st\<lparr>servostart := (servostart st)[i := curstart]\<rparr>)
    else (curstart, st))"

definition init_ctrl_data :: "int \<Rightarrow> servod \<Rightarrow> servod" where
  "init_ctrl_data beyond st =
    (let st1 = st\<lparr>turnon_mask := replicate MAX_SERVOS 0, servowidth := replicate MAX_SERVOS 0\<rparr>;
         st2 = st1\<lparr>turnoff_mask := replicate (num_samples st1) (maskall st1)\<rparr>;
         st3 = snd (fold assign_start [0..<MAX_SERVOS] (0, st2))
     in st3\<lparr>control_blocks :=
          close_ring st3 (ctrl_blocks beyond st3 (next_mapped (servo2gpio st3) 0) 0 [0..<num_samples st3])\<rparr>)"

definition init_hardware :: "servod \<Rightarrow> servod" where
  "init_hardware st =
    (let writes = (if \<not> delay_via_pcm st then
           [(PWM, 0, \<lambda>_. 0), (CLK, 40, \<lambda>_. 0x5A000006), (CLK, 41, \<lambda>_. 0x5A000000 OR push_bit 12 500),
            (CLK, 40, \<lambda>_. 0x5A000016), (PWM, 4, \<lambda>_. of_int (step_time_us st)),
            (PWM, 2, \<lambda>_. push_bit 31 1 OR (push_bit 8 15 OR 15)), (PWM, 0, \<lambda>_. push_bit 6 1),
            (PWM, 0, \<lambda>_. push_bit 5 1 OR 1)]
         else
           [(PCM, 0, \<lambda>_. 1), (CLK, 38, \<lambda>_. 0x5A000006), (CLK, 39, \<lambda>_. 0x5A000000 OR push_bit 12 500),
            (CLK, 38, \<lambda>_. 0x5A000016), (PCM, 4, \<lambda>_. push_bit 30 1), (PCM, 2, \<lambda>_. push_bit 10 (of_int (step_time_us st - 1))),
            (PCM, 0, \<lambda>r. r OR push_bit 4 1 OR push_bit 3 1), (PCM, 5, \<lambda>_. push_bit 24 64 OR push_bit 8 64),
            (PCM, 0, \<lambda>r. r OR push_bit 9 1)]) @
         [(DMA, 0, \<lambda>_. push_bit 31 1), (DMA, 0, \<lambda>_. push_bit 2 1 OR push_bit 1 1), (DMA, 1, \<lambda>_. of_nat (cb_at 0 st)),
          (DMA, 8, \<lambda>_. 7), (DMA, 0, \<lambda>_. 0x10880001)] @
         (if delay_via_pcm st then [(PCM, 0, \<lambda>r. r OR push_bit 2 1)] else [])
     in fold (\<lambda>(p, i, f) s. io_write p i (f (io_regs s p i)) s) writes st)"

section \<open>The DMA controller\<close>

text \<open>
  What the hardware does with the ring: a block copies the word at its source to its destination and is followed by the
  block at its next address; the copy to the set (clear) register of the GPIO raises (lowers) the outputs of its
  bits; the copy to the FIFO waits for the next step of the clock, so it ends a sample.
\<close>

definition shared_word :: "nat \<Rightarrow> servod \<Rightarrow> u32" where
  "shared_word off st =
    (if off < 4 * num_samples st then turnoff_mask st ! (off div 4) else turnon_mask st ! ((off - 4 * num_samples st) div 4))"

definition dma_copy :: "servod \<Rightarrow> dma_cb \<Rightarrow> u32 \<Rightarrow> u32" where
  "dma_copy st cb lv =
    (if cb_dst cb = 0x7e20001c then lv OR shared_word (cb_src cb) st
     else if cb_dst cb = 0x7e200028 then lv AND NOT (shared_word (cb_src cb) st) else lv)"

text \<open>\<^term>\<open>m\<close> blocks from an address on: the address and the levels afterwards, and the levels of the samples.\<close>

fun dma_run :: "servod \<Rightarrow> nat \<Rightarrow> nat \<Rightarrow> u32 \<Rightarrow> nat \<times> u32 \<times> u32 list" where
  "dma_run st 0 adr lv = (adr, lv, [])"
| "dma_run st (Suc m) adr lv =
    (let cb = control_blocks st ! ((adr - cb_at 0 st) div 32);
         lv' = dma_copy st cb lv;
         (adr', lv'', ls) = dma_run st m (cb_next cb) lv'
     in (adr', lv'', if cb_dst cb = fifo_addr st then lv' # ls else ls))"

definition dma_cycle :: "servod \<Rightarrow> u32 \<Rightarrow> nat \<times> u32 \<times> u32 list" where
  "dma_cycle st lv = dma_run st (length (control_blocks st)) (cb_at 0 st) lv"

subsection \<open>A cycle as a sequence of blocks\<close>

fun run_blocks :: "servod \<Rightarrow> dma_cb list \<Rightarrow> u32 \<Rightarrow> u32 \<times> u32 list" where
  "run_blocks st [] lv = (lv, [])"
| "run_blocks st (cb # cbs) lv =
    (let lv' = dma_copy st cb lv; (lv'', ls) = run_blocks st cbs lv' in (lv'', if cb_dst cb = fifo_addr st then lv' # ls else ls))"

lemma cb_at_index [simp]: "(cb_at k st - cb_at 0 st) div 32 = k"
  by (simp add: cb_at_def)

lemma dma_run_ring:
  assumes "\<forall>k<length (control_blocks st). cb_next (control_blocks st ! k) =
      (if Suc k = length (control_blocks st) then cb_at 0 st else cb_at (Suc k) st)" "m \<le> length (control_blocks st)"
  shows "dma_run st m (if m = 0 then cb_at 0 st else cb_at (length (control_blocks st) - m) st) lv =
    (cb_at 0 st, run_blocks st (drop (length (control_blocks st) - m) (control_blocks st)) lv)"
  using assms(2)
proof (induction m arbitrary: lv)
  case (Suc m)
  let ?N = "length (control_blocks st)"
  let ?k = "?N - Suc m"
  have "drop ?k (control_blocks st) = control_blocks st ! ?k # drop (?N - m) (control_blocks st)"
    using Suc.prems by (subst Cons_nth_drop_Suc [symmetric]) (simp_all add: Suc_diff_Suc)
  moreover have "cb_next (control_blocks st ! ?k) = (if m = 0 then cb_at 0 st else cb_at (?N - m) st)"
    using assms(1) Suc.prems by (auto simp: Suc_diff_Suc)
  ultimately show ?case
    using Suc.IH Suc.prems by (simp add: Let_def case_prod_beta)
qed simp

lemma run_blocks_cong:
  "map cb_src cbs = map cb_src cbs' \<Longrightarrow> map cb_dst cbs = map cb_dst cbs' \<Longrightarrow> run_blocks st cbs lv = run_blocks st cbs' lv"
proof (induction cbs arbitrary: cbs' lv)
  case (Cons cb cbs)
  then obtain cb' cbs'' where "cbs' = cb' # cbs''"
    by (cases cbs') auto
  with Cons show ?case
    by (simp add: dma_copy_def)
qed simp

lemma ctrl_blocks_next:
  "k' < length (ctrl_blocks b st servo k is) \<Longrightarrow> cb_next (ctrl_blocks b st servo k is ! k') = cb_at (Suc (k + k')) st"
proof (induction "is" arbitrary: servo k k')
  case (Cons i "is")
  consider "k' = 0" | "k' = 1" | "k' = 2" | j where "k' = Suc (Suc (Suc j))"
    by (metis One_nat_def not0_implies_Suc numeral_2_eq_2)
  then show ?case
    using Cons.prems Cons.IH [of 0] Cons.IH
    by cases (auto simp: copy_cb_def delay_cb_def cb_at_def split: if_splits)
qed simp

lemma ctrl_blocks_length: "is \<noteq> [] \<Longrightarrow> ctrl_blocks b st servo k is \<noteq> []"
  by (cases "is") auto

text \<open>The blocks of the samples, with the servo that is started next.\<close>

definition start_of :: "int \<Rightarrow> servod \<Rightarrow> nat \<Rightarrow> int" where
  "start_of b st servo = (if servo < MAX_SERVOS then int (servostart st ! servo) else b)"

definition apply_clear :: "servod \<Rightarrow> u32 \<Rightarrow> u32 \<Rightarrow> u32" where
  "apply_clear st m lv = (if inverted st then lv OR m else lv AND NOT m)"

definition apply_set :: "servod \<Rightarrow> u32 \<Rightarrow> u32 \<Rightarrow> u32" where
  "apply_set st m lv = (if inverted st then lv AND NOT m else lv OR m)"

fun sample_levels :: "int \<Rightarrow> servod \<Rightarrow> nat \<Rightarrow> nat list \<Rightarrow> u32 \<Rightarrow> u32 \<times> u32 list" where
  "sample_levels b st servo [] lv = (lv, [])"
| "sample_levels b st servo (i # is) lv =
    (let lv1 = apply_clear st (turnoff_mask st ! i) lv;
         start = (int i = start_of b st servo);
         lv2 = (if start then apply_set st (turnon_mask st ! servo) lv1 else lv1);
         (lv3, ls) = sample_levels b st (if start then next_mapped (servo2gpio st) (servo + 1) else servo) is lv2
     in (lv3, lv2 # ls))"

lemma dma_addresses [simp]:
  "gpclr0 st \<noteq> fifo_addr st" "gpset0 st \<noteq> fifo_addr st"
  "dma_copy st (delay_cb nxt st) lv = lv" "cb_dst (delay_cb nxt st) = fifo_addr st"
  by (simp_all add: gpclr0_def gpset0_def fifo_addr_def delay_cb_def dma_copy_def)

lemma dma_copy_masks:
  "i < num_samples st \<Longrightarrow> dma_copy st (copy_cb (4 * i) (gpclr0 st) nxt) lv = apply_clear st (turnoff_mask st ! i) lv"
  "dma_copy st (copy_cb (turnon_at servo st) (gpset0 st) nxt) lv = apply_set st (turnon_mask st ! servo) lv"
  by (simp_all add: dma_copy_def copy_cb_def gpclr0_def gpset0_def apply_clear_def apply_set_def shared_word_def turnon_at_def)

lemma run_ctrl_blocks:
  "\<forall>i\<in>set is. i < num_samples st \<Longrightarrow>
    run_blocks st (ctrl_blocks b st servo k is) lv = sample_levels b st servo is lv"
proof (induction "is" arbitrary: servo k lv)
  case (Cons i "is")
  have dst: "cb_dst (copy_cb src dst nxt) = dst" for src dst nxt
    by (simp add: copy_cb_def)
  show ?case
    using Cons by (simp add: Let_def case_prod_beta dst dma_copy_masks start_of_def)
qed simp

subsection \<open>Well-formed tables\<close>

definition servo_gpio :: "servod \<Rightarrow> nat \<Rightarrow> nat" where
  "servo_gpio st i = unat (servo2gpio st ! i)"

text \<open>
  The mapped servos have different GPIO pins and start at increasing samples of the cycle; the ring of control
  blocks is the one built at the start.  The word behind the array of the starts is not a later sample.
\<close>

definition layout_ok :: "int \<Rightarrow> servod \<Rightarrow> bool" where
  "layout_ok b st \<longleftrightarrow> b \<le> 0 \<and> 0 < num_samples st \<and> length (servo2gpio st) = MAX_SERVOS \<and> length (servostart st) = MAX_SERVOS \<and>
    (\<exists>i. mapped st i) \<and> (\<forall>i. mapped st i \<longrightarrow> servo_gpio st i < 32 \<and> servostart st ! i < num_samples st) \<and>
    (\<forall>i j. mapped st i \<and> mapped st j \<and> i < j \<longrightarrow> servo_gpio st i \<noteq> servo_gpio st j \<and> servostart st ! i < servostart st ! j) \<and>
    control_blocks st = close_ring st (ctrl_blocks b st (next_mapped (servo2gpio st) 0) 0 [0..<num_samples st])"

definition masks_ok :: "servod \<Rightarrow> bool" where
  "masks_ok st \<longleftrightarrow> length (turnoff_mask st) = num_samples st \<and> length (turnon_mask st) = MAX_SERVOS \<and>
    length (servowidth st) = MAX_SERVOS \<and>
    (\<forall>i. mapped st i \<longrightarrow> servowidth st ! i \<le> num_samples st \<and>
      (turnon_mask st ! i = 0 \<or> turnon_mask st ! i = servo_bit i st \<and> 0 < servowidth st ! i) \<and>
      (\<forall>j<num_samples st. bit (turnoff_mask st ! ((servostart st ! i + j) mod num_samples st)) (servo_gpio st i) =
        (servowidth st ! i \<le> j)))"

lemma map_update_last: "xs \<noteq> [] \<Longrightarrow> (map f xs)[length xs - 1 := f (last xs)] = map f xs"
  by (metis last_conv_nth list_update_id map_update)

lemma close_ring_nonempty:
  "cbs \<noteq> [] \<Longrightarrow> map cb_src (close_ring st cbs) = map cb_src cbs \<and> map cb_dst (close_ring st cbs) = map cb_dst cbs"
  using map_update_last [of cbs cb_src] map_update_last [of cbs cb_dst] by (simp add: close_ring_def map_update)

lemma dma_cycle_samples:
  assumes "layout_ok b st"
  shows "dma_cycle st lv = (cb_at 0 st, sample_levels b st (next_mapped (servo2gpio st) 0) [0..<num_samples st] lv)"
proof -
  let ?cbs = "ctrl_blocks b st (next_mapped (servo2gpio st) 0) 0 [0..<num_samples st]"
  have cbs: "control_blocks st = close_ring st ?cbs" "?cbs \<noteq> []"
    using assms by (auto simp: layout_ok_def intro!: ctrl_blocks_length)
  then have len: "length (control_blocks st) = length ?cbs" "0 < length ?cbs"
    by (simp_all add: close_ring_def)
  have "cb_next (control_blocks st ! k) = (if Suc k = length (control_blocks st) then cb_at 0 st else cb_at (Suc k) st)"
    if "k < length (control_blocks st)" for k
    using that ctrl_blocks_next [of k b st "next_mapped (servo2gpio st) 0" 0] unfolding len(1)
    by (auto simp: cbs(1) close_ring_def nth_list_update)
  then have "dma_cycle st lv = (cb_at 0 st, run_blocks st (control_blocks st) lv)"
    using dma_run_ring [of st "length (control_blocks st)" lv] len by (simp add: dma_cycle_def)
  also have "run_blocks st (control_blocks st) lv = run_blocks st ?cbs lv"
    unfolding cbs(1) using close_ring_nonempty [OF cbs(2)] by (intro run_blocks_cong) simp_all
  also have "\<dots> = sample_levels b st (next_mapped (servo2gpio st) 0) [0..<num_samples st] lv"
    by (rule run_ctrl_blocks) simp
  finally show ?thesis .
qed

subsection \<open>One output during a cycle\<close>

definition active :: "servod \<Rightarrow> nat \<Rightarrow> u32 \<Rightarrow> bool" where
  "active st g lv \<longleftrightarrow> bit lv g \<noteq> inverted st"

lemma active_clear: "g < 32 \<Longrightarrow> active st g (apply_clear st m lv) = (active st g lv \<and> \<not> bit m g)"
  and active_set: "g < 32 \<Longrightarrow> active st g (apply_set st m lv) = (active st g lv \<or> bit m g)"
  by (auto simp: active_def apply_clear_def apply_set_def bit_simps)

text \<open>The level of one output, sample by sample: it is switched off, then on.\<close>

fun output_run :: "(nat \<Rightarrow> bool) \<Rightarrow> (nat \<Rightarrow> bool) \<Rightarrow> nat list \<Rightarrow> bool \<Rightarrow> bool list" where
  "output_run off on [] b = []"
| "output_run off on (i # is) b = (let b' = (b \<and> \<not> off i \<or> on i) in b' # output_run off on is b')"

lemma next_mapped_mapped: "next_mapped (servo2gpio st) i = MAX_SERVOS \<or> mapped st (next_mapped (servo2gpio st) i)"
  if "i \<le> MAX_SERVOS"
  using that
proof (induction "MAX_SERVOS - i" arbitrary: i)
  case 0
  then show ?case by (simp add: next_mapped.simps)
next
  case (Suc n)
  then show ?case
    by (cases "servo2gpio st ! i = DMY") (auto simp: next_mapped.simps [of _ i] mapped_def)
qed

lemma next_mapped_least: "i \<le> j \<Longrightarrow> mapped st j \<Longrightarrow> next_mapped (servo2gpio st) i \<le> j"
proof (induction "j - i" arbitrary: i)
  case (Suc n)
  then show ?case
    by (cases "i < MAX_SERVOS \<and> servo2gpio st ! i = DMY") (auto simp: next_mapped.simps [of _ i])
qed (auto simp: next_mapped.simps [of _ j] mapped_def)

lemma next_mapped_ge: "i \<le> next_mapped g i"
proof (induction "MAX_SERVOS - i" arbitrary: i)
  case (Suc n)
  then have "i + 1 \<le> next_mapped g (i + 1)"
    by simp
  then show ?case
    by (subst next_mapped.simps) auto
qed (simp add: next_mapped.simps)

text \<open>The servo to be started next, before a sample.\<close>

definition pointer :: "servod \<Rightarrow> nat \<Rightarrow> nat \<Rightarrow> bool" where
  "pointer st i p \<longleftrightarrow> (p = MAX_SERVOS \<or> mapped st p) \<and> (\<forall>s. mapped st s \<longrightarrow> (servostart st ! s < i) = (s < p))"

lemma pointer_start:
  assumes "layout_ok b st"
  shows "pointer st 0 (next_mapped (servo2gpio st) 0)"
  using next_mapped_mapped [of 0 st] next_mapped_least [of 0 _ st] by (auto simp: pointer_def not_less)

lemma pointer_step:
  assumes "layout_ok b st" "pointer st i p"
  shows "pointer st (Suc i) (if int i = start_of b st p then next_mapped (servo2gpio st) (p + 1) else p)"
    and "mapped st s \<Longrightarrow> i = servostart st ! s \<longleftrightarrow> int i = start_of b st p \<and> s = p"
proof -
  have mono: "servostart st ! s < servostart st ! s'" if "mapped st s" "mapped st s'" "s < s'" for s s'
    using assms(1) that by (auto simp: layout_ok_def)
  obtain s0 where "mapped st s0"
    using assms(1) by (auto simp: layout_ok_def)
  then have last: "0 < i" if "p = MAX_SERVOS"
    using assms(2) that by (auto simp: pointer_def mapped_def)
  have p: "mapped st p \<and> i \<le> servostart st ! p" if "p < MAX_SERVOS"
    using assms(2) that by (auto simp: pointer_def not_less)
  have le: "p \<le> MAX_SERVOS"
    using assms(2) by (auto simp: pointer_def mapped_def)
  have start: "int i = start_of b st p \<longleftrightarrow> p < MAX_SERVOS \<and> servostart st ! p = i"
    using assms(1) last le by (auto simp: start_of_def layout_ok_def)
  show "pointer st (Suc i) (if int i = start_of b st p then next_mapped (servo2gpio st) (p + 1) else p)"
  proof (cases "p < MAX_SERVOS \<and> servostart st ! p = i")
    case True
    have "(servostart st ! s < Suc i) = (s < next_mapped (servo2gpio st) (p + 1))" if "mapped st s" for s
    proof (cases "s \<le> p")
      case s: True
      then show ?thesis
        using True that mono [of s p] p next_mapped_ge [of "p + 1" "servo2gpio st"] by (cases "s = p") auto
    next
      case False
      then have "next_mapped (servo2gpio st) (p + 1) \<le> s"
        using that by (intro next_mapped_least) simp_all
      then show ?thesis
        using True that False mono [of p s] p by auto
    qed
    then show ?thesis
      using True start next_mapped_mapped [of "p + 1" st] by (simp add: pointer_def)
  next
    case False
    have "(servostart st ! s < Suc i) = (s < p)" if "mapped st s" for s
    proof (cases "p < MAX_SERVOS")
      case True
      with False p have "i < servostart st ! p"
        by auto
      then show ?thesis
        using assms(2) that mono [of p s] p True by (cases "s < p") (auto simp: pointer_def not_less le_less)
    next
      case False
      then show ?thesis
        using assms(2) that le by (auto simp: pointer_def mapped_def less_Suc_eq)
    qed
    then show ?thesis
      using False start assms(2) by (auto simp: pointer_def)
  qed
  show "i = servostart st ! s \<longleftrightarrow> int i = start_of b st p \<and> s = p" if s: "mapped st s"
  proof
    assume i: "i = servostart st ! s"
    then have "p \<le> s"
      using assms(2) s by (auto simp: pointer_def not_less [symmetric])
    moreover from this have "p < MAX_SERVOS"
      using s by (simp add: mapped_def)
    moreover from this have "\<not> p < s"
      using mono [of p s] p s i by auto
    ultimately show "int i = start_of b st p \<and> s = p"
      using start i by auto
  qed (use start in auto)
qed

lemma other_turnon:
  assumes "layout_ok b st" "masks_ok st" "mapped st p" "mapped st s" "p \<noteq> s"
  shows "\<not> bit (turnon_mask st ! p) (servo_gpio st s)"
proof -
  have "servo_gpio st p \<noteq> servo_gpio st s"
    using assms(1, 3-5) by (auto simp: layout_ok_def neq_iff)
  moreover have "turnon_mask st ! p = 0 \<or> turnon_mask st ! p = servo_bit p st"
    using assms(2, 3) by (auto simp: masks_ok_def)
  ultimately show ?thesis
    by (auto simp: servo_bit_def servo_gpio_def bit_simps)
qed

lemma sample_outputs:
  assumes "layout_ok b st" "masks_ok st" "mapped st s" "pointer st i p"
  shows "map (active st (servo_gpio st s)) (snd (sample_levels b st p [i..<num_samples st] lv)) =
      output_run (\<lambda>i. bit (turnoff_mask st ! i) (servo_gpio st s))
        (\<lambda>i. i = servostart st ! s \<and> bit (turnon_mask st ! s) (servo_gpio st s)) [i..<num_samples st] (active st (servo_gpio st s) lv) \<and>
    fst (sample_levels b st p [i..<num_samples st] lv) = last (lv # snd (sample_levels b st p [i..<num_samples st] lv))"
  using assms(4)
proof (induction "num_samples st - i" arbitrary: i p lv)
  case 0
  then show ?case by simp
next
  case (Suc m)
  let ?g = "servo_gpio st s"
  let ?st = "int i = start_of b st p"
  let ?lv1 = "apply_clear st (turnoff_mask st ! i) lv"
  let ?lv2 = "if ?st then apply_set st (turnon_mask st ! p) ?lv1 else ?lv1"
  let ?p = "if ?st then next_mapped (servo2gpio st) (p + 1) else p"
  have i: "[i..<num_samples st] = i # [Suc i..<num_samples st]" and g: "?g < 32"
    using Suc.hyps(2) assms(1, 3) by (simp_all add: upt_conv_Cons layout_ok_def)
  have p: "mapped st p" if "?st"
    using that Suc.prems assms(1) pointer_step(2) [OF assms(1) Suc.prems, of p]
    by (auto simp: pointer_def start_of_def layout_ok_def mapped_def split: if_splits)
  have "active st ?g ?lv2 = (active st ?g lv \<and> \<not> bit (turnoff_mask st ! i) ?g \<or>
      i = servostart st ! s \<and> bit (turnon_mask st ! s) ?g)"
    using pointer_step(2) [OF assms(1) Suc.prems assms(3)] other_turnon [OF assms(1, 2) p assms(3)] g
    by (auto simp: active_clear active_set)
  moreover note Suc.hyps(1) [of "Suc i" ?p ?lv2] pointer_step(1) [OF assms(1) Suc.prems]
  ultimately show ?case
    using Suc.hyps(2) by (simp add: i Let_def case_prod_beta)
qed

lemma output_run_length [simp]: "length (output_run off on is b) = length is"
  by (induction "is" arbitrary: b) (simp_all add: Let_def)

lemma output_run_nth:
  "k < n - i \<Longrightarrow> output_run off (\<lambda>m. m = s \<and> on) [i..<n] b ! k =
    (if i \<le> s \<and> s \<le> i + k then (on \<or> b \<and> (\<forall>m. i \<le> m \<and> m \<le> s \<longrightarrow> \<not> off m)) \<and> (\<forall>m. s < m \<and> m \<le> i + k \<longrightarrow> \<not> off m)
     else b \<and> (\<forall>m. i \<le> m \<and> m \<le> i + k \<longrightarrow> \<not> off m))"
proof (induction "n - i" arbitrary: i b k)
  case (Suc d)
  have i: "[i..<n] = i # [Suc i..<n]"
    using Suc.hyps(2) by (simp add: upt_conv_Cons)
  have split: "(\<forall>m. i \<le> m \<and> m \<le> u \<longrightarrow> P m) \<longleftrightarrow> P i \<and> (\<forall>m. Suc i \<le> m \<and> m \<le> u \<longrightarrow> P m)" if "i \<le> u" for u P
    using that by (metis Suc_leI le_eq_less_or_eq order_refl Suc_le_lessD)
  show ?case
  proof (cases k)
    case 0
    then show ?thesis
      by (cases "s = i") (auto simp: i Let_def dest: le_antisym)
  next
    case (Suc k')
    let ?b = "b \<and> \<not> off i \<or> i = s \<and> on"
    have "output_run off (\<lambda>m. m = s \<and> on) [i..<n] b ! k = output_run off (\<lambda>m. m = s \<and> on) [Suc i..<n] ?b ! k'"
      by (simp add: i Let_def Suc)
    also have "\<dots> = (if Suc i \<le> s \<and> s \<le> i + k then (on \<or> ?b \<and> (\<forall>m. Suc i \<le> m \<and> m \<le> s \<longrightarrow> \<not> off m)) \<and> (\<forall>m. s < m \<and> m \<le> i + k \<longrightarrow> \<not> off m)
     else ?b \<and> (\<forall>m. Suc i \<le> m \<and> m \<le> i + k \<longrightarrow> \<not> off m))"
      using Suc.hyps Suc.prems Suc by (subst Suc.hyps(1)) simp_all
    finally show ?thesis
      using split [of s "\<lambda>m. \<not> off m"] split [of "i + k" "\<lambda>m. \<not> off m"] by (auto simp: Suc_le_eq)
  qed
qed simp

text \<open>The samples at which the output of a servo is to be on.\<close>

definition pulse_at :: "servod \<Rightarrow> nat \<Rightarrow> nat \<Rightarrow> bool" where
  "pulse_at st s i \<longleftrightarrow> (i + (num_samples st - servostart st ! s)) mod num_samples st < servowidth st ! s"

lemma turnoff_pattern:
  assumes "layout_ok b st" "masks_ok st" "mapped st s" "i < num_samples st"
  shows "bit (turnoff_mask st ! i) (servo_gpio st s) = (\<not> pulse_at st s i)"
proof -
  let ?n = "num_samples st" and ?st = "servostart st ! s"
  let ?j = "(i + (?n - ?st)) mod ?n"
  have st: "?st < ?n"
    using assms(1, 3) by (simp add: layout_ok_def)
  have "(?st + ?j) mod ?n = (?st + (i + (?n - ?st))) mod ?n"
    by (simp add: mod_add_right_eq)
  also have "\<dots> = i"
    using st assms(4) by simp
  finally have "(?st + ?j) mod ?n = i" .
  moreover have "?j < ?n"
    using assms(4) by simp
  ultimately show ?thesis
    using assms(2, 3) unfolding masks_ok_def pulse_at_def by (metis not_less)
qed

lemma pulse_at_cases:
  assumes "i < num_samples st" "servostart st ! s < num_samples st"
  shows "pulse_at st s i = (if servostart st ! s \<le> i then i - servostart st ! s < servowidth st ! s
    else i + num_samples st - servostart st ! s < servowidth st ! s)"
proof (cases "servostart st ! s \<le> i")
  case True
  then have "i + (num_samples st - servostart st ! s) = (i - servostart st ! s) + num_samples st"
    using assms by simp
  moreover have "((i - servostart st ! s) + num_samples st) mod num_samples st = i - servostart st ! s"
    using assms(1) by simp
  ultimately show ?thesis
    unfolding pulse_at_def using True by simp
next
  case False
  then show ?thesis
    using assms by (simp add: pulse_at_def)
qed

lemma steady_output:
  assumes "layout_ok b st" "masks_ok st" "mapped st s" "turnon_mask st ! s \<noteq> 0 \<or> servowidth st ! s = 0"
  defines "run \<equiv> output_run (\<lambda>i. bit (turnoff_mask st ! i) (servo_gpio st s))
        (\<lambda>i. i = servostart st ! s \<and> bit (turnon_mask st ! s) (servo_gpio st s)) [0..<num_samples st]"
  shows "run (last (run x)) = map (pulse_at st s) [0..<num_samples st]"
proof -
  let ?n = "num_samples st" and ?st = "servostart st ! s" and ?w = "servowidth st ! s"
  let ?on = "bit (turnon_mask st ! s) (servo_gpio st s)" and ?off = "\<lambda>i. bit (turnoff_mask st ! i) (servo_gpio st s)"
  have n: "?st < ?n" "servo_gpio st s < 32"
    using assms(1, 3) by (simp_all add: layout_ok_def)
  have on: "?on \<longleftrightarrow> 0 < ?w"
    using assms(2-4) n(2) by (auto simp: masks_ok_def servo_bit_def servo_gpio_def bit_simps)
  have off: "?off m = (if ?st \<le> m then ?w \<le> m - ?st else ?w \<le> m + ?n - ?st)" if "m < ?n" for m
    using turnoff_pattern [OF assms(1-3) that] pulse_at_cases [OF that n(1)] by auto
  have nth: "run x ! k = (if ?st \<le> k then (?on \<or> x \<and> (\<forall>m\<le>?st. \<not> ?off m)) \<and> (\<forall>m. ?st < m \<and> m \<le> k \<longrightarrow> \<not> ?off m)
      else x \<and> (\<forall>m\<le>k. \<not> ?off m))" if "k < ?n" for k x
    unfolding run_def using output_run_nth [of k ?n 0 ?off ?st ?on x] that by simp
  have tail: "(\<forall>m. ?st < m \<and> m \<le> k \<longrightarrow> \<not> ?off m) \<longleftrightarrow> k = ?st \<or> k - ?st < ?w" if "?st \<le> k" "k < ?n" for k
    using that by (auto simp: off not_le dest: spec [of _ k])
  have head: "(\<forall>m\<le>k. \<not> ?off m) \<longleftrightarrow> k + ?n - ?st < ?w" if "k < ?st" for k
    using that n(1) by (auto simp: off not_le)
  have len: "length (run x) = ?n" for x
    by (simp add: run_def)
  then have "run x \<noteq> []"
    using n(1) by (metis length_0_conv not_less0)
  then have "last (run x) = run x ! (?n - 1)"
    using len by (simp add: last_conv_nth)
  then have last: "last (run x) \<longrightarrow> 0 < ?w" "0 < ?w \<and> ?n - 1 - ?st < ?w \<longrightarrow> last (run x)"
    using nth [of "?n - 1" x] tail [of "?n - 1"] on n(1) off [of ?st] by auto
  have "run (last (run x)) ! k = pulse_at st s k" if "k < ?n" for k
  proof (cases "?st \<le> k")
    case True
    then show ?thesis
      using nth [OF that, of "last (run x)"] tail [of k] that on last off [of ?st] n(1) by (auto simp: pulse_at_cases)
  next
    case False
    then show ?thesis
      using nth [OF that, of "last (run x)"] head [of k] that last n(1) by (auto simp: pulse_at_cases)
  qed
  then show ?thesis
    by (intro nth_equalityI) (simp_all add: len)
qed

subsection \<open>The masks after a command\<close>

lemma down_writes_upt: "0 < n \<Longrightarrow> down_writes n c ((x + c) mod n) = map (\<lambda>m. (x + (c - 1 - m)) mod n) [0..<c]"
proof (induction c)
  case (Suc c)
  have "(if (x + Suc c) mod n = 0 then n - 1 else (x + Suc c) mod n - 1) = (x + c) mod n"
    using Suc.prems by (auto simp: mod_Suc)
  then have "down_writes n (Suc c) ((x + Suc c) mod n) = (x + c) mod n # map (\<lambda>m. (x + (c - 1 - m)) mod n) [0..<c]"
    using Suc by (simp only: down_writes.simps Let_def)
  then show ?case
    by (simp add: upt_conv_Cons map_Suc_upt [symmetric] comp_def del: upt_Suc)
qed simp

lemma up_writes_upt: "0 < n \<Longrightarrow> up_writes n c (x mod n) = map (\<lambda>m. (x + m) mod n) [0..<c]"
proof (induction c arbitrary: x)
  case (Suc c)
  have "(if n \<le> x mod n + 1 then 0 else x mod n + 1) = Suc x mod n"
    using mod_less_divisor [OF Suc.prems, of x] by (auto simp: mod_Suc)
  then show ?case
    using Suc.IH [of "Suc x"] Suc.prems by (simp add: upt_conv_Cons map_Suc_upt [symmetric] comp_def del: upt_Suc)
qed simp

lemma wrap_once: "start < n \<Longrightarrow> w \<le> n \<Longrightarrow> (if n \<le> start + w then start + w - n else start + w) = (start + w) mod n"
  for n start w :: nat
  by (auto simp: le_mod_geq)

lemma turnoff_writes_upt:
  assumes "servostart st ! s < num_samples st" "width \<le> num_samples st"
  defines "n \<equiv> num_samples st" and "x \<equiv> servostart st ! s" and "old \<equiv> servowidth st ! s"
  shows "turnoff_writes s width st =
    (if old < width then map (\<lambda>m. ((x + (width - 1 - m)) mod n, False)) [0..<width - old]
     else map (\<lambda>m. ((x + (width + m)) mod n, True)) [0..<old - width])"
proof -
  have dp: "(if n \<le> x + width then x + width - n else x + width) = (x + width) mod n" and n: "0 < n"
    using wrap_once [of x n width] assms by simp_all
  show ?thesis
  proof (cases "old < width")
    case True
    then have "down_writes n (width - old) ((x + old + (width - old)) mod n) =
        map (\<lambda>m. (x + old + (width - old - 1 - m)) mod n) [0..<width - old]"
      by (intro down_writes_upt n)
    then have "down_writes n (width - old) ((x + width) mod n) = map (\<lambda>m. (x + (width - 1 - m)) mod n) [0..<width - old]"
      using True by (simp add: add.assoc)
    then show ?thesis
      unfolding turnoff_writes_def Let_def n_def [symmetric] x_def [symmetric] old_def [symmetric] dp
      using True by (simp add: comp_def)
  next
    case False
    have "up_writes n (old - width) ((x + width) mod n) = map (\<lambda>m. (x + width + m) mod n) [0..<old - width]"
      by (rule up_writes_upt [OF n])
    then show ?thesis
      unfolding turnoff_writes_def Let_def n_def [symmetric] x_def [symmetric] old_def [symmetric] dp
      using False by (auto simp: comp_def add.assoc)
  qed
qed

lemma write_mask_length [simp]: "length (fold (write_mask msk) ws m) = length m"
  by (induction ws arbitrary: m) (auto simp: write_mask_def)

lemma write_masks_bit:
  assumes "\<forall>(j, b)\<in>set ws. j < length m \<and> b = v" "i < length m"
  shows "bit (fold (write_mask (push_bit g 1)) ws m ! i) (h :: nat) =
    (if h = g \<and> g < 32 \<and> i \<in> fst ` set ws then v else bit (m ! i) h)"
  using assms
proof (induction ws arbitrary: m)
  case (Cons w ws)
  obtain j where w: "w = (j, v)" "j < length m"
    using Cons.prems(1) by auto
  have "bit (write_mask (push_bit g 1) w m ! i) h = (if h = g \<and> g < 32 \<and> i = j then v else bit (m ! i) h)"
    using Cons.prems(2) w by (cases "i = j") (auto simp: write_mask_def bit_simps dest: bit_imp_le_length)
  moreover have "length (write_mask (push_bit g 1) w m) = length m"
    using w by (simp add: write_mask_def)
  ultimately show ?case
    using Cons.IH [of "write_mask (push_bit g 1) w m"] Cons.prems w by auto
qed simp

lemma add_mod_inj: "(x + j) mod n = (x + j') mod n \<Longrightarrow> j < n \<Longrightarrow> j' < n \<Longrightarrow> j = j'" for x j j' n :: nat
proof (induction j j' rule: linorder_wlog)
  case (le j j')
  then have "n dvd (x + j') - (x + j)"
    using mod_eq_dvd_iff_nat [of "x + j" "x + j'" n] by simp
  with le show ?case
    by (auto dest: dvd_imp_le)
qed simp

lemma turnoff_writes_range:
  assumes "servostart st ! s < num_samples st" "width \<le> num_samples st" "j < num_samples st" "servowidth st ! s \<le> num_samples st"
  shows "(servostart st ! s + j) mod num_samples st \<in> fst ` set (turnoff_writes s width st) \<longleftrightarrow>
    min width (servowidth st ! s) \<le> j \<and> j < max width (servowidth st ! s)"
proof -
  let ?n = "num_samples st" and ?x = "servostart st ! s" and ?old = "servowidth st ! s"
  have image: "(\<exists>m<d. (?x + j) mod ?n = (?x + f m) mod ?n) \<longleftrightarrow> lo \<le> j \<and> j < hi"
    if f: "\<And>m. m < d \<Longrightarrow> lo \<le> f m \<and> f m < hi" "\<And>i. lo \<le> i \<Longrightarrow> i < hi \<Longrightarrow> \<exists>m<d. f m = i" "hi \<le> ?n" for f d lo hi
    using f add_mod_inj [of ?x j ?n] assms(3) by (metis order_less_le_trans)
  show ?thesis
  proof (cases "?old < width")
    case True
    have "(\<exists>m<width - ?old. (?x + j) mod ?n = (?x + (width - 1 - m)) mod ?n) \<longleftrightarrow> ?old \<le> j \<and> j < width"
    proof (rule image)
      show "\<exists>m<width - ?old. width - 1 - m = i" if "?old \<le> i" "i < width" for i
        using that by (intro exI [of _ "width - 1 - i"]) auto
    qed (use assms(2) in auto)
    then show ?thesis
      using True by (auto simp: turnoff_writes_upt [OF assms(1, 2)] image_image)
  next
    case False
    have "(\<exists>m<?old - width. (?x + j) mod ?n = (?x + (width + m)) mod ?n) \<longleftrightarrow> width \<le> j \<and> j < ?old"
    proof (rule image)
      show "\<exists>m<?old - width. width + m = i" if "width \<le> i" "i < ?old" for i
        using that by (intro exI [of _ "i - width"]) auto
    qed (use assms(4) in auto)
    then show ?thesis
      using False by (auto simp: turnoff_writes_upt [OF assms(1, 2)] image_image)
  qed
qed

lemma turnoff_writes_value:
  assumes "servostart st ! s < num_samples st" "width \<le> num_samples st"
  shows "\<forall>(j, b)\<in>set (turnoff_writes s width st). j < num_samples st \<and> b = (width < servowidth st ! s)"
  using assms by (auto simp: turnoff_writes_upt [OF assms])

text \<open>The tables that only the start writes.\<close>

definition same_tables :: "servod \<Rightarrow> servod \<Rightarrow> bool" where
  "same_tables st st' \<longleftrightarrow> num_samples st' = num_samples st \<and> servo2gpio st' = servo2gpio st \<and> servostart st' = servostart st \<and>
    inverted st' = inverted st \<and> delay_via_pcm st' = delay_via_pcm st \<and> control_blocks st' = control_blocks st"

lemma ctrl_blocks_same:
  assumes "num_samples st' = num_samples st" "servo2gpio st' = servo2gpio st" "servostart st' = servostart st"
    "inverted st' = inverted st" "delay_via_pcm st' = delay_via_pcm st"
  shows "ctrl_blocks b st' servo k is = ctrl_blocks b st servo k is" "cb_at k st' = cb_at k st"
proof -
  have cb: "cb_at k st' = cb_at k st" "gpclr0 st' = gpclr0 st" "gpset0 st' = gpset0 st" "turnon_at servo st' = turnon_at servo st"
    "delay_cb nxt st' = delay_cb nxt st" for k servo nxt
    by (simp_all add: cb_at_def gpclr0_def gpset0_def turnon_at_def delay_cb_def delay_info_def fifo_addr_def assms)
  then show "cb_at k st' = cb_at k st"
    by simp
  show "ctrl_blocks b st' servo k is = ctrl_blocks b st servo k is"
    by (induction "is" arbitrary: servo k) (simp_all add: cb assms)
qed

lemma layout_same: "same_tables st st' \<Longrightarrow> layout_ok b st' = layout_ok b st"
  using ctrl_blocks_same [of st' st]
  by (auto simp: same_tables_def layout_ok_def mapped_def servo_gpio_def close_ring_def)

lemma set_servo_same: "same_tables st (set_servo now s w st)"
  by (simp add: same_tables_def set_servo_def update_idle_time_def Let_def)

lemma set_servo_masks:
  assumes "layout_ok b st" "masks_ok st" "mapped st s" "w \<le> num_samples st"
  shows "masks_ok (set_servo now s w st)"
proof -
  let ?st' = "set_servo now s w st" and ?n = "num_samples st"
  have s: "servostart st ! s < ?n" "servo_gpio st s < 32" "servowidth st ! s \<le> ?n" "s < 32" and len: "length (turnoff_mask st) = ?n"
    using assms(1-3) by (auto simp: layout_ok_def masks_ok_def mapped_def)
  have fields: "num_samples ?st' = ?n" "mapped ?st' i = mapped st i" "servo_gpio ?st' i = servo_gpio st i" "servo_bit i ?st' = servo_bit i st"
    "servostart ?st' = servostart st" "servowidth ?st' = (servowidth st)[s := w]"
    "turnon_mask ?st' = (turnon_mask st)[s := if w = 0 then 0 else servo_bit s st]" for i
    by (simp_all add: set_servo_def update_idle_time_def Let_def mapped_def servo_gpio_def servo_bit_def)
  have bits: "bit (turnoff_mask ?st' ! k) h =
      (if h = servo_gpio st s \<and> k \<in> fst ` set (turnoff_writes s w st) then w < servowidth st ! s else bit (turnoff_mask st ! k) h)"
    if "k < ?n" for k h
  proof -
    have "turnoff_mask ?st' = fold (write_mask (push_bit (servo_gpio st s) 1)) (turnoff_writes s w st) (turnoff_mask st)"
      by (simp add: set_servo_def update_idle_time_def Let_def servo_bit_def servo_gpio_def)
    moreover have "\<forall>(j, b)\<in>set (turnoff_writes s w st). j < length (turnoff_mask st) \<and> b = (w < servowidth st ! s)"
      using turnoff_writes_value [OF s(1) assms(4)] len by simp
    ultimately show ?thesis
      using write_masks_bit [of "turnoff_writes s w st" "turnoff_mask st" "w < servowidth st ! s" k "servo_gpio st s" h] that len s(2)
      by (simp only: simp_thms)
  qed
  have "bit (turnoff_mask ?st' ! ((servostart st ! i + j) mod ?n)) (servo_gpio st i) = (servowidth ?st' ! i \<le> j)"
    if "mapped st i" "j < ?n" for i j
  proof (cases "i = s")
    case True
    then show ?thesis
      using bits [of "(servostart st ! s + j) mod ?n"] turnoff_writes_range [OF s(1) assms(4) that(2) s(3)] assms(2, 3) s that(2)
      by (auto simp: fields masks_ok_def)
  next
    case False
    then have "servo_gpio st i \<noteq> servo_gpio st s"
      using assms(1, 3) that(1) by (auto simp: layout_ok_def neq_iff)
    then show ?thesis
      using bits [of "(servostart st ! i + j) mod ?n" "servo_gpio st i"] assms(2) that False by (auto simp: fields masks_ok_def)
  qed
  moreover have "length (turnoff_mask ?st') = ?n"
    using len by (simp add: set_servo_def update_idle_time_def Let_def)
  ultimately show ?thesis
    using assms(2-4) s(4) by (auto simp: masks_ok_def fields nth_list_update)
qed

lemma set_servo_idle_masks:
  assumes "masks_ok st" "mapped st s"
  shows "masks_ok (set_servo_idle s st) \<and> same_tables st (set_servo_idle s st)"
  using assms
  by (auto simp: masks_ok_def set_servo_idle_def gpio_set_def Let_def same_tables_def mapped_def servo_gpio_def servo_bit_def nth_list_update)

subsection \<open>The start\<close>

definition count_mapped :: "servod \<Rightarrow> nat \<Rightarrow> nat" where
  "count_mapped st k = length (filter (\<lambda>i. servo2gpio st ! i \<noteq> DMY) [0..<k])"

text \<open>What the parsing of the pin lists and the options leaves: different GPIO pins, and a sample for every servo.\<close>

definition tables_ok :: "servod \<Rightarrow> bool" where
  "tables_ok st \<longleftrightarrow> length (servo2gpio st) = MAX_SERVOS \<and> length (servostart st) = MAX_SERVOS \<and> (\<exists>i. mapped st i) \<and>
    (\<forall>i. mapped st i \<longrightarrow> servo_gpio st i < 32) \<and>
    (\<forall>i j. mapped st i \<and> mapped st j \<and> i < j \<longrightarrow> servo_gpio st i \<noteq> servo_gpio st j) \<and>
    num_servos st = count_mapped st MAX_SERVOS \<and> num_servos st \<le> num_samples st"

lemma count_mapped_Suc: "count_mapped st (Suc k) = count_mapped st k + (if servo2gpio st ! k \<noteq> DMY then 1 else 0)"
  by (simp add: count_mapped_def)

lemma count_mapped_mono: "i \<le> j \<Longrightarrow> count_mapped st i \<le> count_mapped st j"
  by (induction j rule: dec_induct) (simp_all add: count_mapped_Suc)

lemma count_mapped_less: "mapped st i \<Longrightarrow> i < j \<Longrightarrow> count_mapped st i < count_mapped st j"
  using count_mapped_mono [of "Suc i" j st] by (simp add: count_mapped_Suc mapped_def)

lemma assign_start_apply:
  "assign_start i (curstart, st) =
    (if servo2gpio st ! i \<noteq> DMY
     then (curstart + num_samples st div num_servos st, st\<lparr>servostart := (servostart st)[i := curstart]\<rparr>)
     else (curstart, st))"
  by (simp add: assign_start_def)

lemma assign_starts:
  assumes "length (servostart st) = MAX_SERVOS" "k \<le> MAX_SERVOS"
  defines "d \<equiv> num_samples st div num_servos st"
  shows "\<exists>ss. fold assign_start [0..<k] (0, st) = (count_mapped st k * d, st\<lparr>servostart := ss\<rparr>) \<and> length ss = MAX_SERVOS \<and>
    (\<forall>i<k. servo2gpio st ! i \<noteq> DMY \<longrightarrow> ss ! i = count_mapped st i * d)"
  using assms(2)
proof (induction k)
  case 0
  then show ?case
    using assms(1) by (intro exI [of _ "servostart st"]) (simp add: count_mapped_def)
next
  case (Suc k)
  then obtain ss where ss: "fold assign_start [0..<k] (0, st) = (count_mapped st k * d, st\<lparr>servostart := ss\<rparr>)" "length ss = MAX_SERVOS"
      "\<forall>i<k. servo2gpio st ! i \<noteq> DMY \<longrightarrow> ss ! i = count_mapped st i * d"
    by auto
  show ?case
  proof (cases "servo2gpio st ! k = DMY")
    case True
    then show ?thesis
      using ss by (intro exI [of _ ss]) (auto simp: assign_start_apply count_mapped_Suc less_Suc_eq)
  next
    case False
    then show ?thesis
      using ss Suc.prems by (intro exI [of _ "ss[k := count_mapped st k * d]"])
        (auto simp: assign_start_apply count_mapped_Suc less_Suc_eq nth_list_update d_def algebra_simps)
  qed
qed

lemma maskall_bit:
  assumes "mapped st i" "servo_gpio st i < 32"
  shows "bit (maskall st) (servo_gpio st i)"
proof -
  have "bit (fold (\<lambda>i m. if servo2gpio st ! i \<noteq> DMY then m OR servo_bit i st else m) is m0) (servo_gpio st i)"
    if "i \<in> set is \<or> bit m0 (servo_gpio st i)" for "is" m0
    using that
  proof (induction "is" arbitrary: m0)
    case (Cons k "is")
    have "bit (servo_bit i st) (servo_gpio st i)"
      using assms(2) by (simp add: servo_bit_def servo_gpio_def bit_simps)
    then show ?case
      using Cons assms(1) by (auto simp: mapped_def bit_simps)
  qed simp
  then show ?thesis
    using assms(1) by (simp add: maskall_def mapped_def)
qed

lemma init_ctrl_data_ok:
  assumes "tables_ok st" "b \<le> 0"
  shows "layout_ok b (init_ctrl_data b st)" "masks_ok (init_ctrl_data b st)"
proof -
  let ?n = "num_samples st" and ?d = "num_samples st div num_servos st"
  let ?st2 = "st\<lparr>turnon_mask := replicate MAX_SERVOS 0, servowidth := replicate MAX_SERVOS 0, turnoff_mask := replicate ?n (maskall st)\<rparr>"
  obtain ss where ss: "fold assign_start [0..<MAX_SERVOS] (0, ?st2) = (count_mapped ?st2 MAX_SERVOS * (num_samples ?st2 div num_servos ?st2), ?st2\<lparr>servostart := ss\<rparr>)"
      "length ss = MAX_SERVOS" "\<forall>i<MAX_SERVOS. servo2gpio ?st2 ! i \<noteq> DMY \<longrightarrow> ss ! i = count_mapped ?st2 i * (num_samples ?st2 div num_servos ?st2)"
    using assign_starts [of ?st2 MAX_SERVOS] assms(1) by (auto simp: tables_ok_def)
  let ?st3 = "?st2\<lparr>servostart := ss\<rparr>"
  let ?cbs = "close_ring ?st3 (ctrl_blocks b ?st3 (next_mapped (servo2gpio st) 0) 0 [0..<?n])"
  obtain i0 where "mapped st i0"
    using assms(1) by (auto simp: tables_ok_def)
  then have count: "0 < num_servos st" "num_servos st \<le> ?n"
    using count_mapped_less [of st i0 MAX_SERVOS] assms(1) by (auto simp: tables_ok_def mapped_def)
  then have d: "0 < ?d"
    by (simp add: div_greater_zero_iff)
  have start: "ss ! i = count_mapped st i * ?d" if "mapped st i" for i
    using ss(3) that by (simp add: mapped_def count_mapped_def)
  have mono: "ss ! i < ss ! j" if "mapped st i" "mapped st j" "i < j" for i j
    using start [OF that(1)] start [OF that(2)] count_mapped_less [OF that(1, 3)] d by simp
  have bound: "ss ! i < ?n" if "mapped st i" for i
  proof -
    have "count_mapped st i < num_servos st"
      using count_mapped_less [OF that, of MAX_SERVOS] that assms(1) by (simp add: tables_ok_def mapped_def)
    then have "ss ! i < num_servos st * ?d"
      using start [OF that] d by simp
    also have "\<dots> \<le> ?n"
      by simp
    finally show ?thesis .
  qed
  have "maskall (st\<lparr>turnon_mask := replicate MAX_SERVOS 0, servowidth := replicate MAX_SERVOS 0\<rparr>) = maskall st"
    unfolding maskall_def servo_bit_def by (simp cong: if_cong)
  then have st: "init_ctrl_data b st = ?st3\<lparr>control_blocks := ?cbs\<rparr>"
    using ss(1) unfolding init_ctrl_data_def Let_def by simp
  have gpio: "mapped (init_ctrl_data b st) i = mapped st i" "servo_gpio (init_ctrl_data b st) i = servo_gpio st i" for i
    by (simp_all add: st mapped_def servo_gpio_def)
  have "control_blocks (init_ctrl_data b st) = close_ring (init_ctrl_data b st)
      (ctrl_blocks b (init_ctrl_data b st) (next_mapped (servo2gpio st) 0) 0 [0..<?n])"
    unfolding st using ctrl_blocks_same [of "?st3\<lparr>control_blocks := ?cbs\<rparr>" ?st3] by (simp add: close_ring_def)
  then show "layout_ok b (init_ctrl_data b st)"
    using assms mono bound count ss(2) by (auto simp: layout_ok_def gpio tables_ok_def) (simp_all add: st)
  show "masks_ok (init_ctrl_data b st)"
    unfolding masks_ok_def gpio using maskall_bit assms(1) count by (auto simp: st tables_ok_def mapped_def)
qed

section \<open>The pulses\<close>

lemma layout_ok_range: "layout_ok b st \<Longrightarrow> mapped st s \<Longrightarrow> servostart st ! s < num_samples st \<and> servo_gpio st s < 32"
  by (simp add: layout_ok_def)

lemma masks_ok_range:
  "masks_ok st \<Longrightarrow> mapped st s \<Longrightarrow> length (turnoff_mask st) = num_samples st \<and> servowidth st ! s \<le> num_samples st \<and>
    (\<forall>j<num_samples st. bit (turnoff_mask st ! ((servostart st ! s + j) mod num_samples st)) (servo_gpio st s) = (servowidth st ! s \<le> j))"
  by (simp add: masks_ok_def)

text \<open>The output of a servo in the second cycle, from any levels of the outputs on.\<close>

definition settled_output :: "servod \<Rightarrow> nat \<Rightarrow> u32 \<Rightarrow> bool list" where
  "settled_output st s lv =
    (let (_, lv1, _) = dma_cycle st lv; (_, _, ls) = dma_cycle st lv1 in map (active st (servo_gpio st s)) ls)"

lemma settled_output_run:
  assumes "layout_ok b st" "masks_ok st" "mapped st s"
  defines "run \<equiv> output_run (\<lambda>i. bit (turnoff_mask st ! i) (servo_gpio st s))
        (\<lambda>i. i = servostart st ! s \<and> bit (turnon_mask st ! s) (servo_gpio st s)) [0..<num_samples st]"
  shows "settled_output st s lv = run (last (run (active st (servo_gpio st s) lv)))"
proof -
  let ?g = "servo_gpio st s" and ?n = "num_samples st"
  define sl where "sl = sample_levels b st (next_mapped (servo2gpio st) 0) [0..<?n]"
  have out: "map (active st ?g) (snd (sl lv)) = run (active st ?g lv)" "fst (sl lv) = last (lv # snd (sl lv))" for lv
    using sample_outputs [OF assms(1-3) pointer_start [OF assms(1)], of lv] by (simp_all add: sl_def run_def)
  have "0 < ?n"
    using assms(1) by (simp add: layout_ok_def)
  have ne: "snd (sl lv) \<noteq> []" for lv
  proof
    assume "snd (sl lv) = []"
    then have "length (run (active st ?g lv)) = 0"
      using out(1) [of lv] by simp
    with \<open>0 < ?n\<close> show False
      by (simp add: run_def)
  qed
  have "active st ?g (fst (sl lv)) = last (run (active st ?g lv))" for lv
    using out(2) [of lv] ne [of lv] by (simp add: out(1) [symmetric] last_map)
  then show ?thesis
    by (simp add: settled_output_def dma_cycle_samples [OF assms(1)] sl_def [symmetric] case_prod_beta out(1))
qed

lemma pulse_steady:
  assumes "layout_ok b st" "masks_ok st" "mapped st s" "turnon_mask st ! s \<noteq> 0 \<or> servowidth st ! s = 0"
  shows "settled_output st s lv = map (pulse_at st s) [0..<num_samples st]"
  unfolding settled_output_run [OF assms(1-3)] by (rule steady_output [OF assms])

lemma idle_output:
  assumes "layout_ok b st" "masks_ok st" "mapped st s" "turnon_mask st ! s = 0" "servowidth st ! s < num_samples st"
  shows "settled_output st s lv = replicate (num_samples st) False"
proof -
  let ?n = "num_samples st" and ?st = "servostart st ! s"
  let ?off = "\<lambda>i. bit (turnoff_mask st ! i) (servo_gpio st s)"
  define run where "run = output_run ?off (\<lambda>i. i = ?st \<and> bit (turnon_mask st ! s) (servo_gpio st s)) [0..<?n]"
  have n: "?st < ?n"
    using assms(1, 3) by (simp add: layout_ok_def)
  have nth: "run x ! k \<longrightarrow> x \<and> (\<forall>m\<le>k. \<not> ?off m)" if "k < ?n" for k x
    unfolding run_def using output_run_nth [of k ?n 0 ?off ?st False x] that assms(4) by (auto simp: not_less split: if_splits) (metis not_less)
  define m where "m = (?st + (?n - 1)) mod ?n"
  have "\<forall>j<?n. ?off ((?st + j) mod ?n) = (servowidth st ! s \<le> j)"
    using masks_ok_range [OF assms(2, 3)] by blast
  from spec [OF this, of "?n - 1"] have "m < ?n" "?off m"
    using n assms(5) by (simp_all add: m_def)
  then have "\<not> run x ! (?n - 1)" for x
    using nth [of "?n - 1" x] by auto
  moreover have len: "length (run x) = ?n" for x
    by (simp add: run_def)
  ultimately have "\<not> last (run x)" for x
    using n by (metis last_conv_nth length_0_conv not_less0)
  then have "run (last (run x)) = replicate ?n False" for x
    using nth [where x = False] len by (intro nth_equalityI) simp_all
  then show ?thesis
    unfolding settled_output_run [OF assms(1-3)] run_def .
qed

subsection \<open>A pulse while the masks are being changed\<close>

text \<open>
  The DMA controller reads the masks while \<^verbatim>\<open>set_servo\<close> writes them.  \<^term>\<open>prog j\<close> is the number of writes done
  when the controller reads the mask \<^term>\<open>j\<close> samples after the start of the pulse.
\<close>

definition masks_during :: "servod \<Rightarrow> nat \<Rightarrow> nat \<Rightarrow> nat \<Rightarrow> u32 list" where
  "masks_during st s w k = fold (write_mask (servo_bit s st)) (take k (turnoff_writes s w st)) (turnoff_mask st)"

definition pulse_width_during :: "servod \<Rightarrow> nat \<Rightarrow> nat \<Rightarrow> (nat \<Rightarrow> nat) \<Rightarrow> nat" where
  "pulse_width_during st s w prog =
    1 + length (takeWhile (\<lambda>j. \<not> bit (masks_during st s w (prog j) ! ((servostart st ! s + j) mod num_samples st)) (servo_gpio st s))
      [1..<num_samples st])"

lemma takeWhile_upt:
  assumes "1 \<le> v" "v \<le> n" "\<And>j. 1 \<le> j \<Longrightarrow> j < v \<Longrightarrow> P j" "v < n \<Longrightarrow> \<not> P v"
  shows "1 + length (takeWhile P [1..<n]) = v"
proof -
  have "[1..<n] = [1..<v] @ [v..<n]"
    using assms(1, 2) by (metis le_add_diff_inverse upt_add_eq_append)
  moreover have "takeWhile P [v..<n] = []"
    using assms(2, 4) by (cases "v < n") (simp_all add: upt_conv_Cons)
  ultimately show ?thesis
    using assms(1, 3) by (simp add: takeWhile_append)
qed

lemma set_take_upt: "set (take k [0..<l]) = {..<min k l}"
  by (cases "k \<le> l") (auto simp: take_upt)

lemma ring_image:
  assumes "j < n" "\<And>m. m \<in> A \<Longrightarrow> f m < n"
  shows "((x::nat) + j) mod n \<in> (\<lambda>m. (x + f m) mod n) ` A \<longleftrightarrow> j \<in> f ` A"
  using assms add_mod_inj [of x j n] by (auto simp: image_iff)

lemma count_down_image:
  "old < w \<Longrightarrow> j \<in> (\<lambda>m. w - Suc m) ` {..<min k (w - old)} \<longleftrightarrow> old \<le> j \<and> j < w \<and> w \<le> j + k" for j w old k :: nat
proof
  assume *: "old < w" "old \<le> j \<and> j < w \<and> w \<le> j + k"
  show "j \<in> (\<lambda>m. w - Suc m) ` {..<min k (w - old)}"
    by (rule image_eqI [of _ _ "w - 1 - j"]) (use * in auto)
qed auto

lemma masks_during_bit:
  assumes "layout_ok b st" "masks_ok st" "mapped st s" "w \<le> num_samples st" "j < num_samples st"
  defines "old \<equiv> servowidth st ! s"
  shows "bit (masks_during st s w k ! ((servostart st ! s + j) mod num_samples st)) (servo_gpio st s) =
    (if old < w then old \<le> j \<and> \<not> (j < w \<and> w \<le> j + k) else old \<le> j \<or> w \<le> j \<and> j < w + k)"
proof -
  let ?n = "num_samples st" and ?x = "servostart st ! s"
  let ?ws = "take k (turnoff_writes s w st)"
  have s: "?x < ?n" "servo_gpio st s < 32" and len: "length (turnoff_mask st) = ?n" "old \<le> ?n"
    and old: "bit (turnoff_mask st ! ((?x + j) mod ?n)) (servo_gpio st s) = (old \<le> j)"
    using layout_ok_range [OF assms(1, 3)] masks_ok_range [OF assms(2, 3)] assms(5) by (simp_all add: old_def)
  have "\<forall>(j, b)\<in>set ?ws. j < length (turnoff_mask st) \<and> b = (w < old)"
    using turnoff_writes_value [OF s(1) assms(4)] len set_take_subset [of k] unfolding old_def by fastforce
  then have "bit (masks_during st s w k ! ((?x + j) mod ?n)) (servo_gpio st s) =
      (if (?x + j) mod ?n \<in> fst ` set ?ws then w < old else old \<le> j)"
    using write_masks_bit [of ?ws "turnoff_mask st" "w < old" "(?x + j) mod ?n" "servo_gpio st s" "servo_gpio st s"] s len(1) old
    by (simp add: masks_during_def servo_bit_def servo_gpio_def)
  moreover have "(?x + j) mod ?n \<in> fst ` set ?ws \<longleftrightarrow> (if old < w then old \<le> j \<and> j < w \<and> w \<le> j + k else w \<le> j \<and> j < old \<and> j < w + k)"
  proof (cases "old < w")
    case True
    have "fst ` set ?ws = (\<lambda>m. (?x + (w - 1 - m)) mod ?n) ` {..<min k (w - old)}"
      using True unfolding turnoff_writes_upt [OF s(1) assms(4)] old_def by (simp add: take_map image_image set_take_upt)
    moreover have "(?x + j) mod ?n \<in> (\<lambda>m. (?x + (w - 1 - m)) mod ?n) ` {..<min k (w - old)} \<longleftrightarrow> j \<in> (\<lambda>m. w - 1 - m) ` {..<min k (w - old)}"
      by (rule ring_image [OF assms(5)]) (use True assms(4) in auto)
    ultimately show ?thesis
      by (simp add: True count_down_image)
  next
    case False
    have "fst ` set ?ws = (\<lambda>m. (?x + (w + m)) mod ?n) ` {..<min k (old - w)}"
      using False unfolding turnoff_writes_upt [OF s(1) assms(4)] old_def by (auto simp: take_map image_image set_take_upt add.assoc)
    moreover have "(?x + j) mod ?n \<in> (\<lambda>m. (?x + (w + m)) mod ?n) ` {..<min k (old - w)} \<longleftrightarrow> j \<in> (\<lambda>m. w + m) ` {..<min k (old - w)}"
      by (rule ring_image [OF assms(5)]) (use False len in auto)
    ultimately show ?thesis
      using False by (auto intro!: image_eqI [of _ _ "j - w"])
  qed
  ultimately show ?thesis
    by auto
qed

lemma pulse_width_during_eq:
  assumes "1 \<le> v" "v \<le> num_samples st"
    and "\<And>j. 1 \<le> j \<Longrightarrow> j < v \<Longrightarrow>
      \<not> bit (masks_during st s w (prog j) ! ((servostart st ! s + j) mod num_samples st)) (servo_gpio st s)"
    and "v < num_samples st \<Longrightarrow>
      bit (masks_during st s w (prog v) ! ((servostart st ! s + v) mod num_samples st)) (servo_gpio st s)"
  shows "pulse_width_during st s w prog = v"
  unfolding pulse_width_during_def by (rule takeWhile_upt) (use assms in simp_all)

lemma pulse_growing:
  assumes "layout_ok b st" "masks_ok st" "mapped st s" "w \<le> num_samples st"
    and w: "0 < servowidth st ! s" "servowidth st ! s < w" and prog: "mono prog"
  shows "pulse_width_during st s w prog \<in> {servowidth st ! s, w}"
proof -
  let ?old = "servowidth st ! s"
  have bits: "bit (masks_during st s w (prog j) ! ((servostart st ! s + j) mod num_samples st)) (servo_gpio st s) \<longleftrightarrow>
      ?old \<le> j \<and> \<not> (j < w \<and> w \<le> j + prog j)" if "j < num_samples st" for j
    by (simp only: masks_during_bit [OF assms(1-4) that] w(2) if_True)
  show ?thesis
  proof (cases "w \<le> ?old + prog ?old")
    case True
    have "w \<le> j + prog j" if "?old \<le> j" for j
      using True monoD [OF prog that] that by linarith
    then have "pulse_width_during st s w prog = w"
      by (intro pulse_width_during_eq) (use w assms(4) in \<open>auto simp: bits\<close>)
    then show ?thesis by simp
  next
    case False
    then have "pulse_width_during st s w prog = ?old"
      by (intro pulse_width_during_eq) (use w assms(4) in \<open>auto simp: bits\<close>)
    then show ?thesis by simp
  qed
qed

lemma pulse_shrinking:
  assumes "layout_ok b st" "masks_ok st" "mapped st s" "w \<le> num_samples st"
    and v: "0 < v" "w \<le> v" "v \<le> servowidth st ! s"
  shows "pulse_width_during st s w (\<lambda>j. if j < v then 0 else servowidth st ! s - w) = v"
proof -
  let ?old = "servowidth st ! s"
  have bits: "bit (masks_during st s w k ! ((servostart st ! s + j) mod num_samples st)) (servo_gpio st s) \<longleftrightarrow>
      ?old \<le> j \<or> w \<le> j \<and> j < w + k" if "j < num_samples st" for j k
    using masks_during_bit [OF assms(1-4) that, of k] v by simp
  have "?old \<le> num_samples st"
    using assms by (auto simp: masks_ok_def)
  then show ?thesis
    by (intro pulse_width_during_eq) (use v in \<open>auto simp: bits\<close>)
qed

end
