(* ===== verification/Servo_Commands.thy ===== *)
theory Servo_Commands
  imports Servo_Blaster "HOL-Library.Log_Nat"
begin

text \<open>
  The input of the servo daemon (\<^verbatim>\<open>servoBlaster/servod.c\<close>): the command line options, the pin lists, the board
  revision, and the lines read from \<^verbatim>\<open>/dev/servoblaster\<close>.  \<^verbatim>\<open>getopt_long\<close> is not modelled: the options are a list.
  The text of \<^verbatim>\<open>/proc/cpuinfo\<close> is an argument, and so is the time of every event.
\<close>

section \<open>The C library\<close>

definition and_then :: "'e + 'a \<Rightarrow> ('a \<Rightarrow> 'e + 'b) \<Rightarrow> 'e + 'b" where
  "and_then x f = (case x of Inl e \<Rightarrow> Inl e | Inr a \<Rightarrow> f a)"

lemma and_then_simps [simp]: "and_then (Inl e) f = Inl e" "and_then (Inr a) f = f a"
  by (simp_all add: and_then_def)

lemma and_then_Inr: "and_then x f = Inr r \<longleftrightarrow> (\<exists>a. x = Inr a \<and> f a = Inr r)"
  by (cases x) simp_all

subsection \<open>Integers\<close>

definition base_digit :: "char \<Rightarrow> nat" where
  "base_digit c =
    (let v = of_char c in if is_digit c then digit_val c else if 97 \<le> v \<and> v \<le> 122 then v - 87 else if 65 \<le> v \<and> v \<le> 90 then v - 55 else 36)"

definition base_value :: "nat \<Rightarrow> string \<Rightarrow> nat" where
  "base_value b ds = foldl (\<lambda>n c. n * b + base_digit c) 0 ds"

definition hex_prefix :: "string \<Rightarrow> bool" where
  "hex_prefix s \<longleftrightarrow> 2 \<le> length s \<and> hd s = CHR ''0'' \<and> s ! 1 \<in> {CHR ''x'', CHR ''X''}"

text \<open>
  \<^verbatim>\<open>strtol\<close> with the bases 0, 10 and 16: the value, clamped to the 32-bit \<^verbatim>\<open>long\<close> of the host, and the rest of the string
  (all of it when there is no number).
\<close>

definition host_strtol :: "nat \<Rightarrow> string \<Rightarrow> int \<times> string" where
  "host_strtol base s =
    (let t = dropWhile is_space s;
         neg = (t \<noteq> [] \<and> hd t = CHR ''-'');
         u = (if t \<noteq> [] \<and> (hd t = CHR ''-'' \<or> hd t = CHR ''+'') then tl t else t);
         hex = (base \<in> {0, 16} \<and> hex_prefix u \<and> 2 < length u \<and> base_digit (u ! 2) < 16);
         b = (if base \<noteq> 0 then base else if hex then 16 else if u \<noteq> [] \<and> hd u = CHR ''0'' then 8 else 10);
         v = (if hex then drop 2 u else u);
         ds = takeWhile (\<lambda>c. base_digit c < b) v
     in if ds = [] then (0, s)
        else (clamp32 (if neg then - int (base_value b ds) else int (base_value b ds)), dropWhile (\<lambda>c. base_digit c < b) v))"

subsection \<open>Floating-point numbers\<close>

text \<open>
  An operation on \<^verbatim>\<open>double\<close>s is the exact operation on rationals followed by rounding to 53 bits, ties to even.
  The range of the exponent is not limited: a value beyond the largest \<^verbatim>\<open>double\<close>, which the code gets as an
  infinity, and a value below the smallest normal one take the same branches of the code as the number here.
\<close>

definition pow2 :: "int \<Rightarrow> rat" where
  "pow2 e = (if 0 \<le> e then 2 ^ nat e else 1 / 2 ^ nat (- e))"

definition round_even :: "rat \<Rightarrow> int" where
  "round_even y =
    (let f = \<lfloor>y\<rfloor>; r = y - of_int f in if r < 1 / 2 then f else if 1 / 2 < r then f + 1 else if even f then f else f + 1)"

definition double_round :: "rat \<Rightarrow> rat" where
  "double_round x =
    (if x = 0 then 0
     else
       let (n, d) = quotient_of \<bar>x\<bar>;
           e = bitlen n - bitlen d;
           e = (if \<bar>x\<bar> < pow2 e then e - 1 else e);
           u = pow2 (e - 52)
       in of_int (round_even (x / u)) * u)"

text \<open>The conversion to \<^verbatim>\<open>int\<close> truncates; out of range it saturates, as the host's processor does.\<close>

definition double_to_int :: "rat \<Rightarrow> int" where
  "double_to_int x = clamp32 (if x < 0 then \<lceil>x\<rceil> else \<lfloor>x\<rfloor>)"

definition scan_exponent :: "string \<Rightarrow> string \<Rightarrow> int \<times> string" where
  "scan_exponent letters s =
    (if s = [] \<or> hd s \<notin> set letters then (0, s)
     else
       let t = tl s;
           neg = (t \<noteq> [] \<and> hd t = CHR ''-'');
           u = (if t \<noteq> [] \<and> (hd t = CHR ''-'' \<or> hd t = CHR ''+'') then tl t else t);
           ds = takeWhile is_digit u
       in if ds = [] then (0, s)
          else (if neg then - int (scan_digits 0 ds) else int (scan_digits 0 ds), dropWhile is_digit u))"

text \<open>\<^verbatim>\<open>strtod\<close> for a string that starts with a digit: decimal or hexadecimal, with fraction and exponent.\<close>

definition host_strtod :: "string \<Rightarrow> rat \<times> string" where
  "host_strtod s =
    (let hex = (hex_prefix s \<and> (2 < length s \<and> base_digit (s ! 2) < 16 \<or> 3 < length s \<and> s ! 2 = CHR ''.'' \<and> base_digit (s ! 3) < 16));
         b = (if hex then 16 else 10);
         t = (if hex then drop 2 s else s);
         ds = takeWhile (\<lambda>c. base_digit c < b) t;
         r = dropWhile (\<lambda>c. base_digit c < b) t;
         dot = (r \<noteq> [] \<and> hd r = CHR ''.'');
         fs = (if dot then takeWhile (\<lambda>c. base_digit c < b) (tl r) else []);
         r = (if dot then dropWhile (\<lambda>c. base_digit c < b) (tl r) else r);
         (e, r) = scan_exponent (if hex then ''pP'' else ''eE'') r;
         m = of_nat (base_value b (ds @ fs)) / of_nat b ^ length fs;
         scale = (if hex then 2 else 10) ^ nat \<bar>e\<bar>
     in (double_round (if 0 \<le> e then m * scale else m / scale), r))"

section \<open>Commands\<close>

definition parse_width :: "nat \<Rightarrow> string \<Rightarrow> servod \<Rightarrow> int" where
  "parse_width servo width_arg st =
    (let sign = (if width_arg \<noteq> [] \<and> hd width_arg \<in> {CHR ''-'', CHR ''+''} then Some (hd width_arg) else None);
         digits = (if sign = None then width_arg else tl width_arg);
         mn = of_int (servo_min_ticks st); mx = of_int (servo_max_ticks st)
     in if digits = [] \<or> \<not> is_digit (hd digits) then -1
        else
          let (width, p) = host_strtod digits in
          if p \<notin> {[], ''us'', ''%''} then -1
          else
            let width = (if p = [] then width
                  else if p = ''us'' then double_round (width / of_int (step_time_us st))
                  else double_round (double_round (double_round (width * of_int (servo_max_ticks st - servo_min_ticks st)) / 100) + mn));
                width = of_int \<lfloor>width\<rfloor>;
                width = (if sign = Some (CHR ''+'')
                    then let w = double_round (of_nat (servowidth st ! servo) + width) in if mx < w then mx else w
                  else if sign = Some (CHR ''-'')
                    then let w = double_round (of_nat (servowidth st ! servo) - width) in if w < mn then mn else w
                  else width)
            in if width = 0 then 0 else if width < mn \<or> mx < width then -1 else double_to_int width)"

text \<open>The directives of the two \<^verbatim>\<open>sscanf\<close> calls; None is a result below the number of conversions.\<close>

definition scan_lit :: "char \<Rightarrow> string \<Rightarrow> string option" where
  "scan_lit c s = (case s of [] \<Rightarrow> None | x # r \<Rightarrow> if x = c then Some r else None)"

definition scan_word :: "string \<Rightarrow> string option" where
  "scan_word s = (let w = takeWhile (\<lambda>c. \<not> is_space c) (dropWhile is_space s) in if w = [] then None else Some w)"

definition sscanf_servo :: "string \<Rightarrow> (int \<times> string) option" where
  "sscanf_servo s =
    do { (servo, r) \<leftarrow> scan_int s; r \<leftarrow> scan_lit (CHR ''='') r; w \<leftarrow> scan_word r; Some (servo, w) }"

definition sscanf_pin :: "string \<Rightarrow> (int \<times> int \<times> string) option" where
  "sscanf_pin s =
    do { (hdr, r) \<leftarrow> scan_int s; r \<leftarrow> scan_lit (CHR ''-'') r; (pin, r) \<leftarrow> scan_int r; r \<leftarrow> scan_lit (CHR ''='') r;
         w \<leftarrow> scan_word r; Some (hdr, pin, w) }"

datatype command = BadInput | InvalidHeader int | InvalidPin int int | PinNotMapped int int | InvalidServo int
  | ServoNotMapped int | InvalidWidth | DoDebug | SetServo nat nat

definition with_width :: "nat \<Rightarrow> string \<Rightarrow> servod \<Rightarrow> command" where
  "with_width servo width_arg st =
    (let width = parse_width servo width_arg st in if width < 0 then InvalidWidth else SetServo servo (nat width))"

text \<open>
  A line, with its newline.  Both formats store the width in \<^verbatim>\<open>width_arg\<close>, an array of 64 characters, without a
  limit: a word of 64 characters or more is written past its end.
\<close>

definition parse_command :: "string \<Rightarrow> servod \<Rightarrow> servod_error + command" where
  "parse_command buf st =
    (let line = takeWhile (\<lambda>c. c \<noteq> NUL) buf
     in if line \<noteq> [] \<and> hd line \<in> {CHR ''p'', CHR ''P''}
        then (case sscanf_pin (tl line) of
            None \<Rightarrow> Inr BadInput
          | Some (hdr, pin, w) \<Rightarrow>
              if 64 \<le> length w then Inl BufferOverflow
              else if hdr \<noteq> 1 \<and> hdr \<noteq> 5 then Inr (InvalidHeader hdr)
              else if pin < 1 \<or> hdr = 1 \<and> int NUM_P1PINS < pin \<or> hdr = 5 \<and> int NUM_P5PINS < pin then Inr (InvalidPin hdr pin)
              else
                let servo = (if hdr = 1 then p1pin2servo st ! nat pin else p5pin2servo st ! nat pin)
                in if servo = DMY then Inr (PinNotMapped hdr pin) else Inr (with_width (unat servo) w st))
        else (case sscanf_servo line of
            None \<Rightarrow> Inr (if line = ''debug'' @ nl then DoDebug else BadInput)
          | Some (servo, w) \<Rightarrow>
              if 64 \<le> length w then Inl BufferOverflow
              else if servo < 0 \<or> int MAX_SERVOS \<le> servo then Inr (InvalidServo servo)
              else if servo2gpio st ! nat servo = DMY then Inr (ServoNotMapped servo)
              else Inr (with_width (nat servo) w st)))"

definition apply_command :: "int \<times> int \<Rightarrow> command \<Rightarrow> servod \<Rightarrow> servod" where
  "apply_command now c st = (case c of SetServo servo width \<Rightarrow> set_servo now servo width st | _ \<Rightarrow> st)"

text \<open>One character from the device; \<^term>\<open>cmd_line\<close> holds the characters of the line so far.\<close>

definition read_char :: "(int \<times> int) \<times> char \<Rightarrow> servod \<Rightarrow> servod_error + servod" where
  "read_char = (\<lambda>(now, c) st.
    let line = cmd_line st @ [c]
    in if c = CHR 0x0A
       then and_then (parse_command line st) (\<lambda>cmd. Inr (apply_command now cmd (st\<lparr>cmd_line := []\<rparr>)))
       else if 126 \<le> length line then Inr (st\<lparr>cmd_line := []\<rparr>)
       else Inr (st\<lparr>cmd_line := line\<rparr>))"

fun read_chars :: "((int \<times> int) \<times> char) list \<Rightarrow> servod \<Rightarrow> servod_error + servod" where
  "read_chars [] st = Inr st"
| "read_chars (c # cs) st = and_then (read_char c st) (read_chars cs)"

text \<open>
  A round of the main loop at a time: the idle timers, then \<^verbatim>\<open>select\<close> with the timeout they leave, then the characters
  that have arrived.  \<^verbatim>\<open>select\<close> refuses a negative timeout; then nothing is read.
\<close>

definition select_accepts :: "int \<times> int \<Rightarrow> bool" where
  "select_accepts tv \<longleftrightarrow> 0 \<le> fst tv \<and> 0 \<le> snd tv"

definition go_go_go_round :: "(int \<times> int) \<times> ((int \<times> int) \<times> char) list \<Rightarrow> servod \<Rightarrow> servod_error + servod" where
  "go_go_go_round = (\<lambda>(now, input) st.
    let (tv, st1) = get_next_idle_timeout now st
    in if select_accepts tv then read_chars input st1 else Inr st1)"

fun go_go_go_rounds :: "((int \<times> int) \<times> ((int \<times> int) \<times> char) list) list \<Rightarrow> servod \<Rightarrow> servod_error + servod" where
  "go_go_go_rounds [] st = Inr st"
| "go_go_go_rounds (r # rs) st = and_then (go_go_go_round r st) (go_go_go_rounds rs)"

section \<open>The board revision\<close>

definition fgets :: "nat \<Rightarrow> string \<Rightarrow> string \<times> string" where
  "fgets n s =
    (let t = take (n - 1) s; l = takeWhile (\<lambda>c. c \<noteq> CHR 0x0A) t; k = (if length l < length t then length l + 1 else length t)
     in (take k s, drop k s))"

function find_line :: "string \<Rightarrow> string \<Rightarrow> string option" where
  "find_line key s =
    (if s = [] then None
     else let (buf, r) = fgets 128 s in if take (length key) buf = key then Some buf else find_line key r)"
  by pat_completeness auto
termination by (relation "measure (\<lambda>(key, s). length s)") (auto simp: fgets_def Let_def)

declare find_line.simps [simp del]

definition board_rev :: "string option \<Rightarrow> servod_error + nat" where
  "board_rev cpuinfo =
    (case cpuinfo of
       None \<Rightarrow> Inl (Fatal ''Unable to open /proc/cpuinfo'')
     | Some txt \<Rightarrow>
         case find_line ''Revision'' txt of
           None \<Rightarrow> Inl (Fatal ''servod: No Revision record in /proc/cpuinfo'')
         | Some buf \<Rightarrow>
             let ptr = drop (length buf - 3) buf; (revision, end_of) = host_strtol 16 ptr
             in if length ptr - length end_of \<noteq> 2 then Inl (Fatal ''servod: Failed to parse Revision string'')
                else if revision < 1 then Inl (Fatal ''servod: Invalid board Revision'')
                else if revision < 4 then Inr 1 else Inr 2)"

section \<open>The pin lists\<close>

definition pin_map :: "nat \<Rightarrow> bool \<Rightarrow> u8 list" where
  "pin_map revision p1 =
    (if p1 then (if revision = 1 then rev1_p1pin2gpio_map else rev2_p1pin2gpio_map)
     else (if revision = 1 then rev1_p5pin2gpio_map else rev2_p5pin2gpio_map))"

definition header_name :: "bool \<Rightarrow> string" where
  "header_name p1 = (if p1 then ''P1'' else ''P5'')"

text \<open>The servo that the next pin gets, with the tables.\<close>

definition assign_pin :: "nat \<Rightarrow> bool \<Rightarrow> int \<Rightarrow> nat \<times> servod \<Rightarrow> servod_error + nat \<times> servod" where
  "assign_pin revision p1 pin = (\<lambda>(servo, st).
    (let mp = pin_map revision p1
     in if pin < 0 \<or> int (length mp) < pin
        then Inl (Fatal (''Invalid pin number '' @ show_int pin @ '' in '' @ header_name p1 @ '' pin list''))
        else if servo = MAX_SERVOS then Inl (Fatal ''Too many servos specified'')
        else if pin = 0 then Inr (servo + 1, st)
        else if mp ! nat (pin - 1) = DMY
        then Inl (Fatal (''Pin '' @ show_int pin @ '' on header '' @ header_name p1 @ '' cannot be used for a servo output''))
        else
          let st1 = (if p1 then st\<lparr>p1pin2servo := (p1pin2servo st)[nat pin := of_nat servo]\<rparr>
                     else st\<lparr>p5pin2servo := (p5pin2servo st)[nat pin := of_nat servo]\<rparr>)
          in Inr (servo + 1, st1\<lparr>servo2gpio := (servo2gpio st1)[servo := mp ! nat (pin - 1)], num_servos := num_servos st1 + 1\<rparr>)))"

lemma host_strtol_rest: "host_strtol b s = (v, r) \<Longrightarrow> r = s \<or> length r < length s"
proof -
  assume s: "host_strtol b s = (v, r)"
  define t where "t = dropWhile is_space s"
  define u where "u = (if t \<noteq> [] \<and> (hd t = CHR ''-'' \<or> hd t = CHR ''+'') then tl t else t)"
  have "length t \<le> length s" "length u \<le> length t"
    by (simp_all add: t_def length_dropWhile_le u_def)
  moreover have "r = s \<or> (\<exists>P w. length w \<le> length u \<and> takeWhile P w \<noteq> [] \<and> r = dropWhile P w)"
    using s unfolding host_strtol_def t_def [symmetric] Let_def u_def [symmetric]
    by (auto split: if_splits) (metis length_drop diff_le_self order_refl)+
  moreover have "length (dropWhile P w) < length w" if "takeWhile P w \<noteq> []" for P and w :: string
    using that by (cases w) (auto simp: le_imp_less_Suc length_dropWhile_le split: if_splits)
  ultimately show ?thesis
    by (metis order.strict_trans2)
qed

function pin_list :: "nat \<Rightarrow> bool \<Rightarrow> string \<Rightarrow> nat \<times> servod \<Rightarrow> servod_error + nat \<times> servod" where
  "pin_list revision p1 pins sst =
    (if pins = [] then Inr sst
     else
       let (pin, r) = host_strtol 0 pins
       in if r \<noteq> [] \<and> (r = pins \<or> hd r \<noteq> CHR '','')
          then Inl (Fatal (''Invalid character '' @ [hd r] @ '' in '' @ header_name p1 @ '' pin list''))
          else (case assign_pin revision p1 pin sst of
              Inl e \<Rightarrow> Inl e
            | Inr sst' \<Rightarrow> pin_list revision p1 (if r \<noteq> [] \<and> hd r = CHR '','' then tl r else r) sst'))"
  by pat_completeness auto
termination
proof (relation "measure (\<lambda>(revision, p1, pins, sst). length pins)")
  fix revision :: nat and p1 :: bool and pins r :: string and sst sst' :: "nat \<times> servod" and x :: "int \<times> string" and pin
  assume *: "pins \<noteq> []" "x = host_strtol 0 pins" "(pin, r) = x" "\<not> (r \<noteq> [] \<and> (r = pins \<or> hd r \<noteq> CHR '',''))"
    "assign_pin revision p1 pin sst = Inr sst'"
  then have "length r < length pins"
    using host_strtol_rest [of 0 pins pin r] by auto
  then show "((revision, p1, if r \<noteq> [] \<and> hd r = CHR '','' then tl r else r, sst'), revision, p1, pins, sst) \<in> measure (\<lambda>(revision, p1, pins, sst). length pins)"
    by auto
qed simp

declare pin_list.simps [simp del]

text \<open>
  The two rounds of the loop over the lists: the first reads the P1 list if it comes first, every other one the P5 list.
\<close>

definition parse_pin_lists :: "nat \<Rightarrow> bool \<Rightarrow> string \<Rightarrow> string \<Rightarrow> servod \<Rightarrow> servod_error + servod" where
  "parse_pin_lists revision p1first p1pins p5pins st =
    (let st0 = st\<lparr>servo2gpio := replicate MAX_SERVOS DMY, p1pin2servo := replicate (NUM_P1PINS + 1) DMY,
           p5pin2servo := replicate (NUM_P5PINS + 1) DMY\<rparr>
     in and_then (pin_list revision p1first (if p1first then p1pins else p5pins) (0, st0)) (\<lambda>sst.
        and_then (pin_list revision False p5pins sst) (\<lambda>(_, st2). Inr st2)))"

function gpiosearch :: "u8 \<Rightarrow> u8 list \<Rightarrow> nat \<Rightarrow> nat" where
  "gpiosearch gpio mp len =
    (if len \<le> 1 then 0 else if mp ! (len - 1) = gpio then len else gpiosearch gpio mp (len - 1))"
  by pat_completeness auto
termination by (relation "measure (\<lambda>(gpio, mp, len). len)") auto

declare gpiosearch.simps [simp del]

definition gpio2pinname :: "nat \<Rightarrow> u8 \<Rightarrow> servod_error + string" where
  "gpio2pinname revision gpio =
    (let p1 = gpiosearch gpio (pin_map revision True) (length (pin_map revision True));
         p5 = gpiosearch gpio (pin_map revision False) (length (pin_map revision False))
     in if p1 \<noteq> 0 then Inr (''P1-'' @ show_nat p1)
        else if p5 \<noteq> 0 then Inr (''P5-'' @ show_nat p5)
        else Inl (Fatal (''Cannot map GPIO '' @ show_nat (unat gpio) @ '' to a header pin'')))"

section \<open>The start of the daemon\<close>

datatype servo_option = O_pcm | O_idle_timeout string | O_help | O_p1pins string | O_p5pins string | O_min string | O_max string
  | O_invert | O_cycle_time string | O_step_size string | O_debug | O_dma_chan string | O_invalid

record options =
  p1pins :: string
  p5pins :: string
  p1first :: bool
  hadp1 :: bool
  hadp5 :: bool
  via_pcm :: bool
  invert_arg :: bool
  servo_min_arg :: "string option"
  servo_max_arg :: "string option"
  idle_timeout_arg :: "string option"
  cycle_time_arg :: "string option"
  step_time_arg :: "string option"
  dma_chan_arg :: "string option"
  daemonize :: bool

definition default_options :: options where
  "default_options = \<lparr>p1pins = ''7,11,12,13,15,16,18,22'', p5pins = [], p1first = True, hadp1 = False, hadp5 = False, via_pcm = False,
    invert_arg = False, servo_min_arg = None, servo_max_arg = None, idle_timeout_arg = None, cycle_time_arg = None,
    step_time_arg = None, dma_chan_arg = None, daemonize = True\<rparr>"

fun parse_option :: "servo_option \<Rightarrow> options \<Rightarrow> servod_error + options" where
  "parse_option (O_dma_chan a) o1 = Inr (o1\<lparr>dma_chan_arg := Some a\<rparr>)"
| "parse_option O_debug o1 = Inr (o1\<lparr>daemonize := False\<rparr>)"
| "parse_option O_pcm o1 = Inr (o1\<lparr>via_pcm := True\<rparr>)"
| "parse_option (O_idle_timeout a) o1 = Inr (o1\<lparr>idle_timeout_arg := Some a\<rparr>)"
| "parse_option (O_cycle_time a) o1 = Inr (o1\<lparr>cycle_time_arg := Some a\<rparr>)"
| "parse_option (O_step_size a) o1 = Inr (o1\<lparr>step_time_arg := Some a\<rparr>)"
| "parse_option (O_min a) o1 = Inr (o1\<lparr>servo_min_arg := Some a\<rparr>)"
| "parse_option (O_max a) o1 = Inr (o1\<lparr>servo_max_arg := Some a\<rparr>)"
| "parse_option O_invert o1 = Inr (o1\<lparr>invert_arg := True\<rparr>)"
| "parse_option O_help o1 = Inl Usage"
| "parse_option (O_p1pins a) o1 = Inr (o1\<lparr>p1pins := a, hadp1 := True, p1first := (if hadp5 o1 then p1first o1 else True)\<rparr>)"
| "parse_option (O_p5pins a) o1 = Inr (o1\<lparr>p5pins := a, hadp5 := True, p1first := (if hadp1 o1 then p1first o1 else False)\<rparr>)"
| "parse_option O_invalid o1 = Inl (Fatal ''Invalid parameter'')"

fun parse_options :: "servo_option list \<Rightarrow> options \<Rightarrow> servod_error + options" where
  "parse_options [] o1 = Inr o1"
| "parse_options (a # as) o1 = and_then (parse_option a o1) (parse_options as)"

text \<open>A numeric argument with an optional unit, a default and its limits.\<close>

definition number_arg :: "string option \<Rightarrow> int \<Rightarrow> string \<Rightarrow> int \<Rightarrow> int \<Rightarrow> string \<Rightarrow> servod_error + int" where
  "number_arg arg dflt unit_name lo hi name =
    (case arg of
       None \<Rightarrow> Inr dflt
     | Some a \<Rightarrow>
         let (v, p) = host_strtol 10 a
         in if a = [] \<or> \<not> is_digit (hd a) \<or> p \<noteq> [] \<and> p \<noteq> unit_name \<or> v < lo \<or> hi < v
            then Inl (Fatal (''Invalid '' @ name @ '' specified'')) else Inr v)"

definition parse_min_max_arg :: "string \<Rightarrow> string \<Rightarrow> servod \<Rightarrow> servod_error + int" where
  "parse_min_max_arg arg name st =
    (let (val, p) = host_strtod arg; bad = Inl (Fatal (''Invalid '' @ name @ '' value specified''))
     in if arg = [] \<or> \<not> is_digit (hd arg) \<or> val < 0 then bad
        else if p = [] then (if val \<noteq> of_int \<lfloor>val\<rfloor> then bad else Inr (double_to_int val))
        else if p = ''us''
        then (if val \<noteq> of_int \<lfloor>val\<rfloor> then bad
              else if double_to_int val smod step_time_us st \<noteq> 0 then Inl (Fatal (name @ '' value is not a multiple of step-time''))
              else Inr (double_to_int (double_round (val / of_int (step_time_us st)))))
        else if p = ''%''
        then (if val < 0 \<or> 100 < val then Inl (Fatal (name @ '' value must be between 0% and 100% inclusive''))
              else Inr (double_to_int
                (double_round (double_round (double_round (val * of_int (cycle_time_us st)) / 100) / of_int (step_time_us st)))))
        else bad)"

definition min_max_arg :: "string option \<Rightarrow> int \<Rightarrow> string \<Rightarrow> servod \<Rightarrow> servod_error + int" where
  "min_max_arg arg dflt name st =
    (case arg of None \<Rightarrow> Inr (dflt sdiv step_time_us st) | Some a \<Rightarrow> parse_min_max_arg a name st)"

text \<open>The pages of the shared memory: the control blocks of 32 bytes each, and the words of the two masks.\<close>

definition num_pages :: "nat \<Rightarrow> nat" where
  "num_pages n = ((n * 2 + MAX_SERVOS) * 32 + n * 4 + MAX_SERVOS * 4 + 4096 - 1) div 4096"

definition set_times :: "options \<Rightarrow> servod \<Rightarrow> servod_error + servod" where
  "set_times o1 st =
    and_then (number_arg (dma_chan_arg o1) 14 [] 0 14 ''dma-chan'') (\<lambda>chan.
    and_then (number_arg (idle_timeout_arg o1) 0 ''ms'' 10 3600000 ''idle-timeout'') (\<lambda>idle.
    and_then (number_arg (cycle_time_arg o1) 20000 ''us'' 1000 1000000 ''cycle-time'') (\<lambda>cycle.
    and_then (number_arg (step_time_arg o1) 10 ''us'' 2 1000 ''step-size'') (\<lambda>step.
      if cycle smod step \<noteq> 0 then Inl (Fatal ''cycle-time is not a multiple of step-size'')
      else if cycle sdiv step < 100 then Inl (Fatal ''cycle-time must be at least 100 * step-size'')
      else Inr (st\<lparr>dma_chan := chan, idle_timeout := idle, cycle_time_us := cycle, step_time_us := step\<rparr>)))))"

definition set_widths :: "options \<Rightarrow> servod \<Rightarrow> servod_error + servod" where
  "set_widths o1 st =
    and_then (min_max_arg (servo_min_arg o1) 500 ''min'' st) (\<lambda>mn.
    and_then (min_max_arg (servo_max_arg o1) 2500 ''max'' st) (\<lambda>mx.
      let n = nat (cycle_time_us st sdiv step_time_us st)
      in if 16 * 1024 * 1024 div 4096 < num_pages n
         then Inl (Fatal ''Using too much memory; reduce cycle-time or increase step-size'')
         else if int n < mx then Inl (Fatal ''max value is larger than cycle time'')
         else if mx \<le> mn then Inl (Fatal ''min value is >= max value'')
         else Inr (st\<lparr>servo_min_ticks := mn, servo_max_ticks := mx, num_samples := n\<rparr>)))"

text \<open>The static variables of the program before \<^verbatim>\<open>main\<close>; the registers and the outputs are what the hardware has.\<close>

definition boot :: "(peripheral \<Rightarrow> nat \<Rightarrow> u32) \<Rightarrow> u32 \<Rightarrow> servod" where
  "boot regs lv = \<lparr>cycle_time_us = 0, step_time_us = 0, servo2gpio = replicate MAX_SERVOS 0, p1pin2servo = replicate (NUM_P1PINS + 1) 0,
    p5pin2servo = replicate (NUM_P5PINS + 1) 0, servostart = replicate MAX_SERVOS 0, servowidth = replicate MAX_SERVOS 0, num_servos = 0,
    gpiomode = replicate MAX_SERVOS 0, restore_gpio_modes = False, delay_via_pcm = False, servo_kill_time = [], dma_chan = 0,
    idle_timeout = 0, inverted = False, servo_min_ticks = 0, servo_max_ticks = 0, num_samples = 0, turnoff_mask = [],
    turnon_mask = [], control_blocks = [], cmd_line = [], levels = lv, io_regs = regs\<rparr>"

definition configure :: "string option \<Rightarrow> servo_option list \<Rightarrow> servod \<Rightarrow> servod_error + servod" where
  "configure cpuinfo args st =
    and_then (parse_options args default_options) (\<lambda>o1.
    and_then (board_rev cpuinfo) (\<lambda>revision.
      if revision = 1 \<and> p5pins o1 \<noteq> [] then Inl (Fatal ''Board rev 1 does not have a P5 header'')
      else
        and_then (parse_pin_lists revision (p1first o1) (p1pins o1) (p5pins o1) (st\<lparr>delay_via_pcm := via_pcm o1, inverted := invert_arg o1\<rparr>))
          (\<lambda>st. and_then (set_times o1 st) (set_widths o1))))"

definition gpio_setup :: "nat \<Rightarrow> servod \<Rightarrow> servod" where
  "gpio_setup i st =
    (if servo2gpio st ! i = DMY then st
     else
       let g = unat (servo2gpio st ! i); st1 = st\<lparr>gpiomode := (gpiomode st)[i := gpio_get_mode g st]\<rparr>
       in gpio_set_mode g 1 (gpio_set g (inverted st) st1))"

definition start_outputs :: "int \<Rightarrow> servod \<Rightarrow> servod" where
  "start_outputs beyond st =
    (let st1 = st\<lparr>servo_kill_time := replicate MAX_SERVOS (0, 0)\<rparr>;
         st2 = fold gpio_setup [0..<MAX_SERVOS] st1
     in init_hardware (init_ctrl_data beyond (st2\<lparr>restore_gpio_modes := True\<rparr>)))"

definition servod_start :: "string option \<Rightarrow> servo_option list \<Rightarrow> int \<Rightarrow> (peripheral \<Rightarrow> nat \<Rightarrow> u32) \<Rightarrow> u32 \<Rightarrow> servod_error + servod" where
  "servod_start cpuinfo args beyond regs lv = and_then (configure cpuinfo args (boot regs lv)) (\<lambda>st. Inr (start_outputs beyond st))"

section \<open>The invariant of the daemon\<close>

definition limits_ok :: "servod \<Rightarrow> bool" where
  "limits_ok st \<longleftrightarrow> 0 \<le> servo_min_ticks st \<and> servo_min_ticks st < servo_max_ticks st \<and>
    servo_max_ticks st \<le> int (num_samples st) \<and> num_samples st \<le> 500000"

definition width_ok :: "servod \<Rightarrow> nat \<Rightarrow> bool" where
  "width_ok st w \<longleftrightarrow> w = 0 \<or> servo_min_ticks st \<le> int w \<and> int w \<le> servo_max_ticks st"

definition pins_mapped :: "servod \<Rightarrow> bool" where
  "pins_mapped st \<longleftrightarrow> length (p1pin2servo st) = NUM_P1PINS + 1 \<and> length (p5pin2servo st) = NUM_P5PINS + 1 \<and>
    (\<forall>x \<in> set (p1pin2servo st) \<union> set (p5pin2servo st). x = DMY \<or> mapped st (unat x))"

definition servod_inv :: "int \<Rightarrow> servod \<Rightarrow> bool" where
  "servod_inv b st \<longleftrightarrow> layout_ok b st \<and> masks_ok st \<and> limits_ok st \<and> pins_mapped st \<and> (\<forall>w \<in> set (servowidth st). width_ok st w) \<and>
    length (servo_kill_time st) = MAX_SERVOS \<and> length (cmd_line st) < 126"

lemma double_to_int_range: "of_int lo \<le> x \<Longrightarrow> x \<le> of_int hi \<Longrightarrow> 0 \<le> lo \<Longrightarrow> hi < 2 ^ 31 \<Longrightarrow> lo \<le> double_to_int x \<and> double_to_int x \<le> hi"
proof -
  assume *: "of_int lo \<le> x" "x \<le> of_int hi" "0 \<le> lo" "hi < 2 ^ 31"
  then have "0 \<le> x"
    by (meson of_int_0_le_iff order_trans)
  moreover have "lo \<le> \<lfloor>x\<rfloor>" "\<lfloor>x\<rfloor> \<le> hi"
    using * by (simp_all add: le_floor_iff floor_le_iff add_strict_increasing2)
  ultimately show ?thesis
    using * by (simp add: double_to_int_def clamp32_def)
qed

lemma parse_width_cases:
  "parse_width s a st \<in> {-1, 0} \<or>
    (\<exists>x. of_int (servo_min_ticks st) \<le> x \<and> x \<le> of_int (servo_max_ticks st) \<and> parse_width s a st = double_to_int x)"
proof -
  have "(if x = 0 then 0 else if x < of_int lo \<or> of_int hi < x then -1 else double_to_int x) \<in> {-1, 0} \<or>
      (\<exists>y. of_int lo \<le> y \<and> y \<le> of_int hi \<and> (if x = 0 then 0 else if x < of_int lo \<or> of_int hi < x then -1 else double_to_int x) = double_to_int y)"
    for x :: rat and lo hi
    by (auto simp: not_less)
  then show ?thesis
    unfolding parse_width_def Let_def case_prod_beta by (simp only: split: if_split) blast
qed

lemma parse_width_range:
  assumes "limits_ok st" "0 \<le> parse_width s a st"
  shows "width_ok st (nat (parse_width s a st))"
  using parse_width_cases [of s a st] double_to_int_range [of "servo_min_ticks st" _ "servo_max_ticks st"] assms
  by (auto simp: width_ok_def limits_ok_def)

text \<open>A command that is accepted names a mapped servo and a permitted width.\<close>

lemma parse_command_set:
  assumes "limits_ok st" "pins_mapped st" "parse_command buf st = Inr (SetServo s w)"
  shows "mapped st s \<and> width_ok st w"
proof -
  have width: "with_width i a st = SetServo s w \<longleftrightarrow> s = i \<and> 0 \<le> parse_width i a st \<and> w = nat (parse_width i a st)" for i a
    by (auto simp: with_width_def Let_def)
  have p1: "mapped st (unat (p1pin2servo st ! nat p))" if "p \<le> 26" "p1pin2servo st ! nat p \<noteq> DMY" for p
    using assms(2) that nth_mem [of "nat p" "p1pin2servo st"] by (auto simp: pins_mapped_def nat_less_iff)
  have p5: "mapped st (unat (p5pin2servo st ! nat p))" if "p \<le> 8" "p5pin2servo st ! nat p \<noteq> DMY" for p
    using assms(2) that nth_mem [of "nat p" "p5pin2servo st"] by (auto simp: pins_mapped_def nat_less_iff)
  define line where "line = takeWhile (\<lambda>c. c \<noteq> NUL) buf"
  have "\<exists>i a. mapped st i \<and> with_width i a st = SetServo s w"
  proof (cases "line \<noteq> [] \<and> hd line \<in> {CHR ''p'', CHR ''P''}")
    case True
    then obtain hdr pin a where "sscanf_pin (tl line) = Some (hdr, pin, a)"
      using assms(3) by (cases "sscanf_pin (tl line)") (auto simp: parse_command_def line_def [symmetric])
    then show ?thesis
      using assms(3) True p1 p5 by (auto simp: parse_command_def line_def [symmetric] Let_def not_less split: if_splits)
  next
    case False
    then obtain i a where "sscanf_servo line = Some (i, a)"
      using assms(3) by (cases "sscanf_servo line") (auto simp: parse_command_def line_def [symmetric] split: if_splits)
    then have "mapped st (nat i) \<and> with_width (nat i) a st = SetServo s w"
      using assms(3) False by (auto simp: parse_command_def line_def [symmetric] Let_def mapped_def nat_less_iff not_le split: if_splits)
    then show ?thesis
      by blast
  qed
  then show ?thesis
    using parse_width_range [OF assms(1)] by (auto simp: width)
qed

end
