(* ===== verification/Servo_Daemon.thy ===== *)
theory Servo_Daemon
  imports Servo_Commands
begin

text \<open>
  The correctness of the servo daemon: an invariant of every run, the pulses at the outputs, the idle timers, and what
  happens to a pulse that is changed while the DMA controller reads the masks.
\<close>

section \<open>The invariant is kept\<close>

lemma width_ok_le: "limits_ok st \<Longrightarrow> width_ok st w \<Longrightarrow> w \<le> num_samples st"
  by (auto simp: limits_ok_def width_ok_def)

text \<open>What an operation must keep for the invariant, besides the masks.\<close>

definition same_setup :: "servod \<Rightarrow> servod \<Rightarrow> bool" where
  "same_setup st st' \<longleftrightarrow> same_tables st st' \<and> p1pin2servo st' = p1pin2servo st \<and> p5pin2servo st' = p5pin2servo st \<and>
    servo_min_ticks st' = servo_min_ticks st \<and> servo_max_ticks st' = servo_max_ticks st \<and>
    length (servo_kill_time st') = length (servo_kill_time st) \<and> idle_timeout st' = idle_timeout st \<and>
    gpiomode st' = gpiomode st \<and> restore_gpio_modes st' = restore_gpio_modes st \<and> io_regs st' = io_regs st"

lemma same_setup_refl [simp]: "same_setup st st"
  by (simp add: same_setup_def same_tables_def)

lemma same_setup_trans: "same_setup st st' \<Longrightarrow> same_setup st' st'' \<Longrightarrow> same_setup st st''"
  by (simp add: same_setup_def same_tables_def)

lemma same_setup_mapped: "same_setup st st' \<Longrightarrow> mapped st' i = mapped st i"
  by (simp add: same_setup_def same_tables_def mapped_def)

lemma servod_inv_same:
  assumes "servod_inv b st" "same_setup st st'" "masks_ok st'" "\<forall>w \<in> set (servowidth st'). width_ok st w" "length (cmd_line st') < 126"
  shows "servod_inv b st'"
  using assms layout_same [of st st' b]
  by (simp add: servod_inv_def same_setup_def same_tables_def limits_ok_def pins_mapped_def width_ok_def mapped_def)

lemma set_servo_setup: "same_setup st (set_servo now s w st)"
  using set_servo_same [of st now s w] by (simp add: same_setup_def set_servo_def update_idle_time_def Let_def)

lemma set_servo_idle_setup: "same_setup st (set_servo_idle s st)"
  by (simp add: same_setup_def same_tables_def set_servo_idle_def gpio_set_def Let_def)

lemma set_servo_inv:
  assumes "servod_inv b st" "mapped st s" "width_ok st w"
  shows "servod_inv b (set_servo now s w st)"
proof (rule servod_inv_same [OF assms(1) set_servo_setup])
  show "masks_ok (set_servo now s w st)"
    using assms width_ok_le by (intro set_servo_masks) (auto simp: servod_inv_def)
  have "servowidth (set_servo now s w st) = (servowidth st)[s := w]" "cmd_line (set_servo now s w st) = cmd_line st"
    by (simp_all add: set_servo_def update_idle_time_def Let_def)
  then show "\<forall>w' \<in> set (servowidth (set_servo now s w st)). width_ok st w'" "length (cmd_line (set_servo now s w st)) < 126"
    using assms set_update_subset_insert [of "servowidth st" s w] by (auto simp: servod_inv_def)
qed

lemma set_servo_idle_inv:
  assumes "servod_inv b st" "mapped st s"
  shows "servod_inv b (set_servo_idle s st)"
proof (rule servod_inv_same [OF assms(1) set_servo_idle_setup])
  show "masks_ok (set_servo_idle s st)"
    using assms set_servo_idle_masks by (auto simp: servod_inv_def)
  have "servowidth (set_servo_idle s st) = servowidth st" "cmd_line (set_servo_idle s st) = cmd_line st"
    by (simp_all add: set_servo_idle_def gpio_set_def Let_def)
  then show "\<forall>w' \<in> set (servowidth (set_servo_idle s st)). width_ok st w'" "length (cmd_line (set_servo_idle s st)) < 126"
    using assms(1) by (simp_all add: servod_inv_def)
qed

lemma frame_inv [simp]:
  "length l < 126 \<Longrightarrow> servod_inv b st \<Longrightarrow> servod_inv b (st\<lparr>cmd_line := l\<rparr>)"
  "length ks = length (servo_kill_time st) \<Longrightarrow> servod_inv b st \<Longrightarrow> servod_inv b (st\<lparr>servo_kill_time := ks\<rparr>)"
  by (rule servod_inv_same [of b st]; simp add: servod_inv_def same_setup_def same_tables_def masks_ok_def mapped_def servo_gpio_def servo_bit_def)+

lemma frame_setup [simp]:
  "same_setup st (st\<lparr>cmd_line := l\<rparr>)"
  "length ks = length (servo_kill_time st) \<Longrightarrow> same_setup st (st\<lparr>servo_kill_time := ks\<rparr>)"
  by (simp_all add: same_setup_def same_tables_def)

definition idle_due :: "int \<times> int \<Rightarrow> servod \<Rightarrow> nat \<Rightarrow> bool" where
  "idle_due now st i \<longleftrightarrow> servo2gpio st ! i \<noteq> DMY \<and> fst (servo_kill_time st ! i) \<noteq> 0 \<and>
    (fst (servo_kill_time st ! i) < fst now \<or> fst (servo_kill_time st ! i) = fst now \<and> snd (servo_kill_time st ! i) \<le> snd now)"

lemma idle_round_state:
  "snd (idle_round now i (mn, st)) =
    (if idle_due now st i
     then set_servo_idle i (st\<lparr>servo_kill_time := (servo_kill_time st)[i := (0, snd (servo_kill_time st ! i))]\<rparr>) else st)"
  by (simp only: idle_round_def idle_due_def Let_def case_prod_beta fst_conv snd_conv de_Morgan_disj if_distrib [of snd] split: if_split) blast

lemma idle_round_inv:
  assumes "servod_inv b st" "i < MAX_SERVOS" "idle_round now i (mn, st) = (mn', st')"
  shows "servod_inv b st' \<and> same_setup st st'"
proof (cases "idle_due now st i")
  case True
  let ?st = "st\<lparr>servo_kill_time := (servo_kill_time st)[i := (0, snd (servo_kill_time st ! i))]\<rparr>"
  have "servod_inv b ?st" "same_setup st ?st" "mapped ?st i"
    using assms(1, 2) True by (simp_all add: mapped_def idle_due_def)
  moreover have "st' = set_servo_idle i ?st"
    using idle_round_state [of now i mn st] assms(3) True by simp
  ultimately show ?thesis
    using set_servo_idle_inv set_servo_idle_setup same_setup_trans by blast
next
  case False
  then show ?thesis
    using idle_round_state [of now i mn st] assms(1, 3) by simp
qed

lemma idle_rounds_inv:
  "set is \<subseteq> {..<MAX_SERVOS} \<Longrightarrow> servod_inv b st \<Longrightarrow> fold (idle_round now) is (mn, st) = (mn', st') \<Longrightarrow> servod_inv b st' \<and> same_setup st st'"
proof (induction "is" arbitrary: mn st)
  case (Cons i "is")
  obtain mn1 st1 where r: "idle_round now i (mn, st) = (mn1, st1)"
    by (cases "idle_round now i (mn, st)")
  then have "servod_inv b st1" "same_setup st st1"
    using idle_round_inv [OF Cons.prems(2) _ r] Cons.prems(1) by auto
  then show ?case
    using Cons.IH [of st1 mn1] Cons.prems r same_setup_trans by auto
qed simp

lemma get_next_idle_timeout_inv:
  assumes "servod_inv b st" "get_next_idle_timeout now st = (tv, st')"
  shows "servod_inv b st' \<and> same_setup st st'"
  using idle_rounds_inv [of "[0..<MAX_SERVOS]" b st now "(60, 0)" tv st'] assms by (simp add: get_next_idle_timeout_def lessThan_atLeast0)

lemma read_char_inv:
  assumes "servod_inv b st" "read_char (now, c) st = Inr st'"
  shows "servod_inv b st' \<and> same_setup st st'"
proof (cases "c = CHR 0x0A")
  case True
  then obtain cmd where cmd: "parse_command (cmd_line st @ [c]) st = Inr cmd" "st' = apply_command now cmd (st\<lparr>cmd_line := []\<rparr>)"
    using assms(2) by (auto simp: read_char_def and_then_Inr)
  let ?st = "st\<lparr>cmd_line := []\<rparr>"
  show ?thesis
  proof (cases "\<exists>s w. cmd = SetServo s w")
    case True
    then obtain s w where "cmd = SetServo s w"
      by blast
    moreover from this have "mapped ?st s" "width_ok ?st w"
      using parse_command_set [of st "cmd_line st @ [c]" s w] cmd(1) assms(1) by (auto simp: servod_inv_def mapped_def width_ok_def)
    ultimately show ?thesis
      using cmd(2) set_servo_inv [of b ?st s w now] set_servo_setup [of ?st now s w] assms(1) same_setup_trans [of st ?st]
      by (simp add: apply_command_def)
  next
    case False
    then have "st' = ?st"
      using cmd(2) by (cases cmd) (auto simp: apply_command_def)
    then show ?thesis
      using assms(1) by simp
  qed
next
  case False
  then show ?thesis
    using assms by (auto simp: read_char_def Let_def split: if_splits)
qed

lemma read_chars_inv: "servod_inv b st \<Longrightarrow> read_chars cs st = Inr st' \<Longrightarrow> servod_inv b st' \<and> same_setup st st'"
proof (induction cs arbitrary: st)
  case (Cons c cs)
  then show ?case
    using read_char_inv [of b st "fst c" "snd c"] same_setup_trans by (auto simp: and_then_Inr)
qed simp

lemma go_go_go_round_inv: "servod_inv b st \<Longrightarrow> go_go_go_round r st = Inr st' \<Longrightarrow> servod_inv b st' \<and> same_setup st st'"
proof -
  assume *: "servod_inv b st" "go_go_go_round r st = Inr st'"
  obtain now input where r: "r = (now, input)"
    by (cases r)
  obtain tv st1 where t: "get_next_idle_timeout now st = (tv, st1)"
    by (cases "get_next_idle_timeout now st")
  then have "servod_inv b st1" "same_setup st st1"
    using get_next_idle_timeout_inv *(1) by blast+
  moreover have "st' = st1 \<or> read_chars input st1 = Inr st'"
    using * by (auto simp: go_go_go_round_def r t split: if_splits)
  ultimately show ?thesis
    using read_chars_inv same_setup_trans by blast
qed

lemma go_go_go_rounds_inv: "servod_inv b st \<Longrightarrow> go_go_go_rounds rs st = Inr st' \<Longrightarrow> servod_inv b st' \<and> same_setup st st'"
proof (induction rs arbitrary: st)
  case (Cons r rs)
  then obtain st1 where "go_go_go_round r st = Inr st1" "go_go_go_rounds rs st1 = Inr st'"
    by (auto simp: and_then_Inr)
  then show ?case
    using Cons.IH go_go_go_round_inv [OF Cons.prems(1)] same_setup_trans by blast
qed simp

section \<open>The start\<close>

text \<open>The pin tables while the lists are read: \<^term>\<open>servo\<close> is the number the next pin gets.\<close>

definition pins_ok :: "nat \<Rightarrow> servod \<Rightarrow> bool" where
  "pins_ok servo st \<longleftrightarrow> servo \<le> MAX_SERVOS \<and> length (servo2gpio st) = MAX_SERVOS \<and> pins_mapped st \<and>
    (\<forall>i. servo \<le> i \<and> i < MAX_SERVOS \<longrightarrow> servo2gpio st ! i = DMY) \<and> (\<forall>i. mapped st i \<longrightarrow> servo_gpio st i < 32) \<and>
    num_servos st = count_mapped st MAX_SERVOS"

text \<open>Everything but the pin tables.\<close>

definition outside_pins :: "servod \<Rightarrow> servod" where
  "outside_pins st = st\<lparr>servo2gpio := [], p1pin2servo := [], p5pin2servo := [], num_servos := 0\<rparr>"

lemma pin_map_lengths [simp]: "length (pin_map revision p1) = (if p1 then 26 else 8)"
  by (simp add: pin_map_def rev1_p1pin2gpio_map_def rev2_p1pin2gpio_map_def rev1_p5pin2gpio_map_def rev2_p5pin2gpio_map_def)

lemma pin_map_gpio: "g \<in> set (pin_map revision p1) \<Longrightarrow> g = DMY \<or> unat g < 32"
  by (auto simp: pin_map_def rev1_p1pin2gpio_map_def rev2_p1pin2gpio_map_def rev1_p5pin2gpio_map_def rev2_p5pin2gpio_map_def split: if_splits)

lemma count_mapped_update:
  assumes "servo2gpio st' = (servo2gpio st)[s := g]" "servo2gpio st ! s = DMY" "g \<noteq> DMY" "s < length (servo2gpio st)"
  shows "count_mapped st' k = count_mapped st k + (if s < k then 1 else 0)"
proof (induction k)
  case (Suc k)
  then show ?case
    using assms by (cases "s = k") (auto simp: count_mapped_Suc)
qed (simp add: count_mapped_def)

lemma assign_pin_ok:
  assumes "pins_ok servo st" "assign_pin revision p1 pin (servo, st) = Inr (servo', st')"
  shows "pins_ok servo' st' \<and> outside_pins st' = outside_pins st"
proof -
  let ?mp = "pin_map revision p1"
  consider "servo < MAX_SERVOS" "servo' = servo + 1" "st' = st"
    | "servo < MAX_SERVOS" "servo' = servo + 1" "0 < pin" "pin \<le> int (length ?mp)" "?mp ! nat (pin - 1) \<noteq> DMY"
      "st' = (if p1 then st\<lparr>p1pin2servo := (p1pin2servo st)[nat pin := of_nat servo]\<rparr>
              else st\<lparr>p5pin2servo := (p5pin2servo st)[nat pin := of_nat servo]\<rparr>)
        \<lparr>servo2gpio := (servo2gpio st)[servo := ?mp ! nat (pin - 1)], num_servos := num_servos st + 1\<rparr>"
    using assms by (cases p1) (auto simp: assign_pin_def Let_def pins_ok_def not_less split: if_splits)
  then show ?thesis
  proof cases
    case 1
    then show ?thesis
      using assms(1) by (auto simp: pins_ok_def)
  next
    case 2
    let ?g = "?mp ! nat (pin - 1)"
    have g: "unat ?g < 32"
      using pin_map_gpio [of ?g revision p1] nth_mem [of "nat (pin - 1)" ?mp] 2(3-5) by auto
    have tables: "servo2gpio st' = (servo2gpio st)[servo := ?g]" "num_servos st' = num_servos st + 1"
      using 2(6) by (simp_all split: if_splits)
    have len: "length (servo2gpio st) = 32" "servo2gpio st ! servo = DMY"
      using assms(1) 2(1) by (auto simp: pins_ok_def)
    have m: "mapped st' i \<longleftrightarrow> mapped st i \<or> i = servo" for i
      using 2(1, 5) len by (auto simp: mapped_def tables nth_list_update)
    have "set (p1pin2servo st') \<union> set (p5pin2servo st') \<subseteq> insert (of_nat servo) (set (p1pin2servo st) \<union> set (p5pin2servo st))"
      "length (p1pin2servo st') = length (p1pin2servo st)" "length (p5pin2servo st') = length (p5pin2servo st)"
      using 2(6) set_update_subset_insert [of "p1pin2servo st" "nat pin" "of_nat servo"]
        set_update_subset_insert [of "p5pin2servo st" "nat pin" "of_nat servo"] by (auto split: if_splits)
    moreover have "unat (of_nat servo :: u8) = servo"
      using 2(1) by (simp add: unat_of_nat take_bit_nat_def)
    ultimately have "pins_mapped st'"
      using assms(1) m unfolding pins_ok_def pins_mapped_def by auto
    moreover have "servo_gpio st' i < 32" if "mapped st' i" for i
      using assms(1) that g m len 2(1) by (auto simp: servo_gpio_def tables nth_list_update pins_ok_def)
    moreover have "count_mapped st' 32 = count_mapped st 32 + 1"
      using count_mapped_update [OF tables(1) len(2) 2(5)] len(1) 2(1) by simp
    moreover have "outside_pins st' = outside_pins st"
      using 2(6) by (auto simp: outside_pins_def)
    ultimately show ?thesis
      using assms(1) 2(1, 2) by (auto simp: pins_ok_def tables)
  qed
qed

lemma pin_list_ok:
  "pins_ok servo st \<Longrightarrow> pin_list revision p1 pins (servo, st) = Inr (servo', st') \<Longrightarrow> pins_ok servo' st' \<and> outside_pins st' = outside_pins st"
proof (induction revision p1 pins "(servo, st)" arbitrary: servo st rule: pin_list.induct)
  case (1 revision p1 pins servo st)
  show ?case
  proof (cases "pins = []")
    case False
    obtain pin r where r: "host_strtol 0 pins = (pin, r)"
      by (cases "host_strtol 0 pins")
    let ?bad = "r \<noteq> [] \<and> (r = pins \<or> hd r \<noteq> CHR '','')"
    obtain servo1 st1 where a: "\<not> ?bad" "assign_pin revision p1 pin (servo, st) = Inr (servo1, st1)"
        "pin_list revision p1 (if r \<noteq> [] \<and> hd r = CHR '','' then tl r else r) (servo1, st1) = Inr (servo', st')"
      using 1(3) False by (auto simp: pin_list.simps [of _ _ pins] r split: if_splits sum.splits)
    then have "pins_ok servo1 st1" "outside_pins st1 = outside_pins st"
      using assign_pin_ok [OF 1(2)] by blast+
    then show ?thesis
      using 1(1) [OF False refl r [symmetric] a(1, 2)] a(3) by simp
  qed (use 1 in \<open>simp add: pin_list.simps\<close>)
qed

lemma parse_pin_lists_ok:
  assumes "num_servos st = 0" "parse_pin_lists revision first p1 p5 st = Inr st'"
  shows "(\<exists>servo. pins_ok servo st') \<and> outside_pins st' = outside_pins st"
proof -
  let ?st = "st\<lparr>servo2gpio := replicate MAX_SERVOS DMY, p1pin2servo := replicate (NUM_P1PINS + 1) DMY,
    p5pin2servo := replicate (NUM_P5PINS + 1) DMY\<rparr>"
  obtain s1 st1 s2 where l: "pin_list revision first (if first then p1 else p5) (0, ?st) = Inr (s1, st1)"
      "pin_list revision False p5 (s1, st1) = Inr (s2, st')"
    using assms(2) by (auto simp: parse_pin_lists_def Let_def and_then_Inr)
  have unmapped: "\<not> mapped ?st i" for i
    by (auto simp: mapped_def)
  have "count_mapped ?st k = 0" if "k \<le> 32" for k
    using that by (induction k) (simp_all add: count_mapped_Suc, simp add: count_mapped_def)
  then have "pins_ok 0 ?st"
    using assms(1) unmapped by (simp add: pins_ok_def pins_mapped_def)
  then have "pins_ok s1 st1" "outside_pins st1 = outside_pins ?st"
    using pin_list_ok l(1) by blast+
  then show ?thesis
    using pin_list_ok [OF _ l(2)] by (auto simp: outside_pins_def)
qed

lemma number_arg_range: "number_arg arg d unit_name lo hi name = Inr v \<Longrightarrow> v = d \<or> lo \<le> v \<and> v \<le> hi"
  by (auto simp: number_arg_def case_prod_beta split: option.splits if_splits)

definition times_ok :: "servod \<Rightarrow> bool" where
  "times_ok st \<longleftrightarrow> 1000 \<le> cycle_time_us st \<and> cycle_time_us st \<le> 1000000 \<and> 2 \<le> step_time_us st \<and> step_time_us st \<le> 1000 \<and>
    100 \<le> cycle_time_us st sdiv step_time_us st \<and> (idle_timeout st = 0 \<or> 10 \<le> idle_timeout st \<and> idle_timeout st \<le> 3600000)"

lemma set_times_ok:
  assumes "set_times o1 st = Inr st'"
  shows "times_ok st' \<and>
    (\<exists>chan idle cycle step. st' = st\<lparr>dma_chan := chan, idle_timeout := idle, cycle_time_us := cycle, step_time_us := step\<rparr>)"
proof -
  obtain chan idle cycle step where *: "number_arg (idle_timeout_arg o1) 0 ''ms'' 10 3600000 ''idle-timeout'' = Inr idle"
      "number_arg (cycle_time_arg o1) 20000 ''us'' 1000 1000000 ''cycle-time'' = Inr cycle"
      "number_arg (step_time_arg o1) 10 ''us'' 2 1000 ''step-size'' = Inr step" "\<not> cycle sdiv step < 100"
      "st' = st\<lparr>dma_chan := chan, idle_timeout := idle, cycle_time_us := cycle, step_time_us := step\<rparr>"
    using assms unfolding set_times_def and_then_Inr by (auto simp del: sdiv_int_numeral_numeral split: if_splits)
  then show ?thesis
    using number_arg_range [OF *(1)] number_arg_range [OF *(2)] number_arg_range [OF *(3)] by (auto simp: times_ok_def)
qed

lemma double_round_nonneg: "0 \<le> x \<Longrightarrow> 0 \<le> double_round x"
proof -
  assume "0 \<le> x"
  have "0 \<le> pow2 e" for e
    by (simp add: pow2_def)
  moreover have "0 \<le> round_even y" if "0 \<le> y" for y
    using that by (simp add: round_even_def Let_def)
  ultimately show ?thesis
    using \<open>0 \<le> x\<close> by (simp add: double_round_def Let_def case_prod_beta)
qed

lemma double_to_int_nonneg: "0 \<le> x \<Longrightarrow> 0 \<le> double_to_int x"
  by (simp add: double_to_int_def clamp32_def)

lemma sdiv_nonneg: "0 \<le> d \<Longrightarrow> 2 \<le> k \<Longrightarrow> 0 \<le> d sdiv k \<and> d sdiv k \<le> d div 2" for d k :: int
  by (cases "d = 0") (auto simp: signed_divide_int_def pos_imp_zdiv_nonneg_iff zdiv_mono2)

lemma min_max_arg_nonneg: "times_ok st \<Longrightarrow> 0 \<le> d \<Longrightarrow> min_max_arg arg d name st = Inr v \<Longrightarrow> 0 \<le> v"
  by (auto simp: min_max_arg_def parse_min_max_arg_def Let_def case_prod_beta not_less times_ok_def sdiv_nonneg
      split: option.splits if_splits intro!: double_to_int_nonneg double_round_nonneg divide_nonneg_nonneg mult_nonneg_nonneg)

lemma set_widths_ok:
  assumes "times_ok st" "set_widths o1 st = Inr st'"
  shows "limits_ok st' \<and> 100 \<le> num_samples st' \<and>
    (\<exists>mn mx n. st' = st\<lparr>servo_min_ticks := mn, servo_max_ticks := mx, num_samples := n\<rparr>)"
proof -
  let ?n = "cycle_time_us st sdiv step_time_us st"
  obtain mn mx where *: "min_max_arg (servo_min_arg o1) 500 ''min'' st = Inr mn"
      "\<not> int (nat ?n) < mx" "\<not> mx \<le> mn" "st' = st\<lparr>servo_min_ticks := mn, servo_max_ticks := mx, num_samples := nat ?n\<rparr>"
    using assms(2) unfolding set_widths_def and_then_Inr Let_def by (auto split: if_splits)
  have "?n \<le> 500000"
    using sdiv_nonneg [of "cycle_time_us st" "step_time_us st"] assms(1) by (auto simp: times_ok_def)
  then show ?thesis
    using * min_max_arg_nonneg [OF assms(1) _ *(1)] assms(1) by (auto simp: limits_ok_def times_ok_def nat_le_iff le_nat_iff)
qed

text \<open>The state after \<^verbatim>\<open>main\<close> has read its arguments.\<close>

definition configured :: "(peripheral \<Rightarrow> nat \<Rightarrow> u32) \<Rightarrow> servod \<Rightarrow> bool" where
  "configured regs st \<longleftrightarrow> limits_ok st \<and> 100 \<le> num_samples st \<and> (\<exists>servo. pins_ok servo st) \<and> length (servostart st) = MAX_SERVOS \<and>
    length (gpiomode st) = MAX_SERVOS \<and> cmd_line st = [] \<and> io_regs st = regs \<and>
    (idle_timeout st = 0 \<or> 10 \<le> idle_timeout st \<and> idle_timeout st \<le> 3600000)"

lemma configure_ok:
  assumes "configure cpuinfo args (boot regs lv) = Inr st"
  shows "configured regs st"
proof -
  obtain o1 revision st1 st2 where c: "parse_pin_lists revision (p1first o1) (p1pins o1) (p5pins o1)
        ((boot regs lv)\<lparr>delay_via_pcm := via_pcm o1, inverted := invert_arg o1\<rparr>) = Inr st1"
      "set_times o1 st1 = Inr st2" "set_widths o1 st2 = Inr st"
    using assms unfolding configure_def and_then_Inr by (auto simp: and_then_Inr split: if_splits)
  obtain servo where pins: "pins_ok servo st1"
      and out: "outside_pins st1 = outside_pins ((boot regs lv)\<lparr>delay_via_pcm := via_pcm o1, inverted := invert_arg o1\<rparr>)"
    using parse_pin_lists_ok [OF _ c(1)] by (auto simp: boot_def)
  have keep: "servostart st1 = replicate 32 0" "gpiomode st1 = replicate 32 0" "cmd_line st1 = []" "io_regs st1 = regs"
    using arg_cong [OF out, of servostart] arg_cong [OF out, of gpiomode] arg_cong [OF out, of cmd_line] arg_cong [OF out, of io_regs]
    by (simp_all add: outside_pins_def boot_def)
  obtain chan idle cycle step where st2: "times_ok st2"
      "st2 = st1\<lparr>dma_chan := chan, idle_timeout := idle, cycle_time_us := cycle, step_time_us := step\<rparr>"
    using set_times_ok [OF c(2)] by blast
  obtain mn mx n where st: "limits_ok st" "100 \<le> num_samples st"
      "st = st2\<lparr>servo_min_ticks := mn, servo_max_ticks := mx, num_samples := n\<rparr>"
    using set_widths_ok [OF st2(1) c(3)] by blast
  have "pins_ok servo st"
    using pins unfolding st(3) st2(2) by (simp add: pins_ok_def pins_mapped_def mapped_def servo_gpio_def count_mapped_def)
  then show ?thesis
    using st st2 keep by (auto simp: configured_def times_ok_def)
qed

subsection \<open>The modes of the pins\<close>

lemma seven_mask: "(7 :: u32) = mask 3"
  by (simp add: mask_eq_exp_minus_1)

lemma get_set_mode:
  assumes "mode AND 7 = mode"
  shows "gpio_get_mode g (gpio_set_mode h mode st) = (if g = h then mode else gpio_get_mode g st)"
proof (cases "g div 10 = h div 10")
  case False
  then show ?thesis
    by (auto simp: gpio_get_mode_def gpio_set_mode_def io_write_def Let_def)
next
  case True
  have small: "bit mode n \<Longrightarrow> n < 3" for n
    using assms unfolding seven_mask by (metis bit_and_iff bit_mask_iff)
  define r where "r = io_regs st GPIO (h div 10)"
  have get: "gpio_get_mode g (gpio_set_mode h mode st) =
      drop_bit (g mod 10 * 3) (r AND NOT (push_bit (h mod 10 * 3) 7) OR push_bit (h mod 10 * 3) mode) AND 7"
    using True by (simp add: gpio_get_mode_def gpio_set_mode_def io_write_def Let_def r_def)
  have shift: "g mod 10 * 3 + n < 32" "h mod 10 * 3 + n < 32" if "n < 3" for n
    using that mod_less_divisor [of 10 g] mod_less_divisor [of 10 h] by linarith+
  show ?thesis
  proof (cases "g = h")
    case True
    have "gpio_get_mode g (gpio_set_mode h mode st) = mode"
      unfolding get seven_mask by (rule bit_word_eqI) (use True small shift in \<open>auto simp: bit_simps\<close>)
    then show ?thesis
      using True by simp
  next
    case False
    then have "g mod 10 \<noteq> h mod 10"
      using \<open>g div 10 = h div 10\<close> by (metis div_mult_mod_eq)
    then have apart: "\<not> (h mod 10 * 3 \<le> g mod 10 * 3 + n \<and> g mod 10 * 3 + n - h mod 10 * 3 < 3)" if "n < 3" for n
      using that by linarith
    have "gpio_get_mode g (gpio_set_mode h mode st) = drop_bit (g mod 10 * 3) r AND 7"
      unfolding get seven_mask by (rule bit_word_eqI) (use small shift apart in \<open>auto simp: bit_simps\<close>)
    then show ?thesis
      using False True by (simp add: gpio_get_mode_def r_def)
  qed
qed

lemma get_mode_small: "gpio_get_mode g st AND 7 = gpio_get_mode g st"
  by (simp add: gpio_get_mode_def and.assoc)

lemma get_mode_regs: "io_regs st' GPIO = io_regs st GPIO \<Longrightarrow> gpio_get_mode g st' = gpio_get_mode g st"
  by (simp add: gpio_get_mode_def)

definition distinct_pins :: "servod \<Rightarrow> bool" where
  "distinct_pins st \<longleftrightarrow> distinct (filter (\<lambda>g. g \<noteq> DMY) (servo2gpio st))"

lemma distinct_pins_gpio:
  assumes "distinct_pins st" "length (servo2gpio st) = MAX_SERVOS" "mapped st i" "mapped st j" "i \<noteq> j"
  shows "servo_gpio st i \<noteq> servo_gpio st j"
proof -
  have "servo2gpio st ! i \<noteq> servo2gpio st ! j" if "i < j" "mapped st i" "mapped st j" for i j
  proof
    assume eq: "servo2gpio st ! i = servo2gpio st ! j"
    have "servo2gpio st = take j (servo2gpio st) @ servo2gpio st ! j # drop (Suc j) (servo2gpio st)"
      using that assms(2) by (simp add: id_take_nth_drop mapped_def)
    then have "distinct (filter (\<lambda>g. g \<noteq> DMY) (take j (servo2gpio st)) @ servo2gpio st ! j # filter (\<lambda>g. g \<noteq> DMY) (drop (Suc j) (servo2gpio st)))"
      using assms(1) that unfolding distinct_pins_def by (metis (mono_tags, lifting) filter.simps(2) filter_append mapped_def)
    moreover have "servo2gpio st ! i \<in> set (take j (servo2gpio st))"
      using that assms(2) by (auto simp: in_set_conv_nth mapped_def intro!: exI [of _ i])
    ultimately show False
      using eq that by (auto simp: mapped_def)
  qed
  then show ?thesis
    using assms(3-5) unfolding servo_gpio_def by (metis linorder_neqE_nat unsigned_word_eqI)
qed

text \<open>Everything but the modes and levels of the pins.\<close>

definition outside_gpio :: "servod \<Rightarrow> servod" where
  "outside_gpio st = st\<lparr>gpiomode := [], levels := 0, io_regs := \<lambda>_ _. 0\<rparr>"

lemma outside_gpio_same:
  assumes "outside_gpio st' = outside_gpio st"
  shows "servo2gpio st' = servo2gpio st" "mapped st' i = mapped st i" "servo_gpio st' i = servo_gpio st i"
proof -
  show "servo2gpio st' = servo2gpio st"
    using arg_cong [OF assms, of servo2gpio] by (simp add: outside_gpio_def)
  then show "mapped st' i = mapped st i" "servo_gpio st' i = servo_gpio st i"
    by (simp_all add: mapped_def servo_gpio_def)
qed

lemma outside_gpio_ops [simp]:
  "outside_gpio (gpio_set_mode g m st) = outside_gpio st" "outside_gpio (gpio_set g l st) = outside_gpio st"
  "outside_gpio (st\<lparr>gpiomode := ms\<rparr>) = outside_gpio st" "gpiomode (gpio_set_mode g m st) = gpiomode st"
  "gpiomode (gpio_set g l st) = gpiomode st" "gpio_get_mode g' (gpio_set g l st) = gpio_get_mode g' st"
  "gpio_get_mode g' (st\<lparr>gpiomode := ms\<rparr>) = gpio_get_mode g' st"
  by (simp_all add: outside_gpio_def gpio_set_mode_def gpio_set_def io_write_def Let_def gpio_get_mode_def)

lemma gpio_setup_apply:
  assumes "mapped st i"
  shows "outside_gpio (gpio_setup i st) = outside_gpio st"
    "gpiomode (gpio_setup i st) = (gpiomode st)[i := gpio_get_mode (servo_gpio st i) st]"
    "gpio_get_mode g (gpio_setup i st) = (if g = servo_gpio st i then 1 else gpio_get_mode g st)"
  using assms by (simp_all add: gpio_setup_def mapped_def servo_gpio_def Let_def get_set_mode)

lemma gpio_setups:
  assumes "distinct_pins st" "length (servo2gpio st) = MAX_SERVOS" "length (gpiomode st) = MAX_SERVOS" "k \<le> MAX_SERVOS"
  defines "st' \<equiv> fold gpio_setup [0..<k] st"
  shows "outside_gpio st' = outside_gpio st \<and> length (gpiomode st') = MAX_SERVOS \<and>
    (\<forall>i<k. mapped st i \<longrightarrow> gpiomode st' ! i = gpio_get_mode (servo_gpio st i) st) \<and>
    (\<forall>g. (\<forall>i<k. mapped st i \<longrightarrow> g \<noteq> servo_gpio st i) \<longrightarrow> gpio_get_mode g st' = gpio_get_mode g st)"
  using assms(4) unfolding st'_def
proof (induction k)
  case (Suc k)
  let ?s = "fold gpio_setup [0..<k] st"
  have IH: "outside_gpio ?s = outside_gpio st" "length (gpiomode ?s) = 32"
      "\<And>i. i < k \<Longrightarrow> mapped st i \<Longrightarrow> gpiomode ?s ! i = gpio_get_mode (servo_gpio st i) st"
      "\<And>g. (\<forall>i<k. mapped st i \<longrightarrow> g \<noteq> servo_gpio st i) \<Longrightarrow> gpio_get_mode g ?s = gpio_get_mode g st"
    using Suc by simp_all
  have s: "fold gpio_setup [0..<Suc k] st = gpio_setup k ?s"
    by simp
  show ?case
  proof (cases "mapped st k")
    case True
    then have k: "mapped ?s k" "servo_gpio ?s k = servo_gpio st k"
      using outside_gpio_same [OF IH(1)] by simp_all
    have "gpio_get_mode (servo_gpio st k) ?s = gpio_get_mode (servo_gpio st k) st"
      using IH(4) [of "servo_gpio st k"] distinct_pins_gpio [OF assms(1, 2) True] by (metis less_irrefl_nat)
    then show ?thesis
      unfolding s gpio_setup_apply [OF k(1)] k(2) using IH True Suc.prems
      by (auto simp: less_Suc_eq nth_list_update)
  next
    case False
    then have "gpio_setup k ?s = ?s"
      using outside_gpio_same [OF IH(1)] Suc.prems by (simp add: gpio_setup_def mapped_def)
    then show ?thesis
      unfolding s using IH False by (auto simp: less_Suc_eq)
  qed
qed (use assms in simp)

subsection \<open>The started daemon\<close>

lemma init_ctrl_data_frame:
  assumes "length (servostart st) = MAX_SERVOS"
  shows "\<exists>m ss cbs. init_ctrl_data b st = st\<lparr>turnon_mask := replicate MAX_SERVOS 0, servowidth := replicate MAX_SERVOS 0,
    turnoff_mask := m, servostart := ss, control_blocks := cbs\<rparr>"
proof -
  let ?st = "st\<lparr>turnon_mask := replicate MAX_SERVOS 0, servowidth := replicate MAX_SERVOS 0\<rparr>"
  let ?st2 = "?st\<lparr>turnoff_mask := replicate (num_samples st) (maskall ?st)\<rparr>"
  obtain ss where "snd (fold assign_start [0..<MAX_SERVOS] (0, ?st2)) = ?st2\<lparr>servostart := ss\<rparr>"
    using assign_starts [of ?st2 MAX_SERVOS] assms by auto
  then show ?thesis
    unfolding init_ctrl_data_def Let_def
    by (intro exI [of _ "replicate (num_samples st) (maskall ?st)"] exI [of _ ss] exI) simp
qed

lemma io_writes_frame:
  "\<forall>(p, i, f) \<in> set ws. p \<noteq> GPIO \<Longrightarrow> \<exists>r. fold (\<lambda>(p, i, f) s. io_write p i (f (io_regs s p i)) s) ws st = st\<lparr>io_regs := r\<rparr> \<and>
    r GPIO = io_regs st GPIO"
proof (induction ws arbitrary: st)
  case Nil
  then show ?case
    by (intro exI [of _ "io_regs st"]) simp
next
  case (Cons w ws)
  obtain p i f where w: "w = (p, i, f)"
    by (cases w)
  let ?st = "io_write p i (f (io_regs st p i)) st"
  obtain r where "fold (\<lambda>(p, i, f) s. io_write p i (f (io_regs s p i)) s) ws ?st = ?st\<lparr>io_regs := r\<rparr>" "r GPIO = io_regs ?st GPIO"
    using Cons.IH [of ?st] Cons.prems by auto
  then show ?case
    using Cons.prems by (intro exI [of _ r]) (auto simp: w io_write_def)
qed

lemma init_hardware_frame: "\<exists>r. init_hardware st = st\<lparr>io_regs := r\<rparr> \<and> r GPIO = io_regs st GPIO"
  unfolding init_hardware_def Let_def by (rule io_writes_frame) auto

lemma outside_gpio_restore: "outside_gpio (st\<lparr>restore_gpio_modes := x\<rparr>) = (outside_gpio st)\<lparr>restore_gpio_modes := x\<rparr>"
  by (cases st) (simp add: outside_gpio_def)

lemma start_inv:
  assumes "configured regs st" "distinct_pins st" "mapped st i" "b \<le> 0"
  shows "servod_inv b (start_outputs b st)"
proof -
  define st1 where "st1 = st\<lparr>servo_kill_time := replicate MAX_SERVOS (0, 0)\<rparr>"
  define st2 where "st2 = (fold gpio_setup [0..<MAX_SERVOS] st1)\<lparr>restore_gpio_modes := True\<rparr>"
  obtain servo where c: "limits_ok st" "100 \<le> num_samples st" "pins_ok servo st" "length (servostart st) = 32" "length (gpiomode st) = 32" "cmd_line st = []"
    using assms(1) by (auto simp: configured_def)
  have "outside_gpio (fold gpio_setup [0..<MAX_SERVOS] st1) = outside_gpio st1"
    using gpio_setups [of st1 MAX_SERVOS] assms(2) c(3, 5) by (simp add: st1_def distinct_pins_def pins_ok_def)
  then have out: "outside_gpio st2 = outside_gpio (st1\<lparr>restore_gpio_modes := True\<rparr>)"
    by (simp add: st2_def outside_gpio_restore)
  note same = arg_cong [OF out, of servo2gpio] arg_cong [OF out, of servostart] arg_cong [OF out, of num_servos]
    arg_cong [OF out, of num_samples] arg_cong [OF out, of servo_min_ticks] arg_cong [OF out, of servo_max_ticks]
    arg_cong [OF out, of p1pin2servo] arg_cong [OF out, of p5pin2servo] arg_cong [OF out, of servo_kill_time] arg_cong [OF out, of cmd_line]
  have fields: "servo2gpio st2 = servo2gpio st" "servostart st2 = servostart st" "num_servos st2 = num_servos st" "num_samples st2 = num_samples st"
    "servo_min_ticks st2 = servo_min_ticks st" "servo_max_ticks st2 = servo_max_ticks st" "p1pin2servo st2 = p1pin2servo st"
    "p5pin2servo st2 = p5pin2servo st" "servo_kill_time st2 = replicate MAX_SERVOS (0, 0)" "cmd_line st2 = []"
    using same c(6) by (simp_all add: outside_gpio_def st1_def)
  have maps: "mapped st2 j = mapped st j" "servo_gpio st2 j = servo_gpio st j" "count_mapped st2 j = count_mapped st j" for j
    by (simp_all add: mapped_def servo_gpio_def count_mapped_def fields)
  have "count_mapped st k \<le> k" for k
    by (induction k) (simp_all add: count_mapped_Suc, simp add: count_mapped_def)
  from this [of 32] have "tables_ok st2"
    using c assms(3) distinct_pins_gpio [OF assms(2)] unfolding tables_ok_def maps fields pins_ok_def by fastforce
  note ok = init_ctrl_data_ok [OF this assms(4)]
  obtain m ss cbs where i: "init_ctrl_data b st2 = st2\<lparr>turnon_mask := replicate MAX_SERVOS 0, servowidth := replicate MAX_SERVOS 0,
      turnoff_mask := m, servostart := ss, control_blocks := cbs\<rparr>" (is "_ = ?st3")
    using init_ctrl_data_frame [of st2 b] c(4) by (auto simp: fields)
  obtain r where h: "init_hardware ?st3 = ?st3\<lparr>io_regs := r\<rparr>"
    using init_hardware_frame [of ?st3] by blast
  have "start_outputs b st = ?st3\<lparr>io_regs := r\<rparr>"
    using i h by (simp add: start_outputs_def Let_def st2_def st1_def)
  moreover have "layout_ok b (?st3\<lparr>io_regs := r\<rparr>)" "masks_ok (?st3\<lparr>io_regs := r\<rparr>)"
    using ok layout_same [of ?st3 "?st3\<lparr>io_regs := r\<rparr>"] unfolding i
    by (simp_all add: same_tables_def masks_ok_def mapped_def servo_gpio_def servo_bit_def)
  ultimately show ?thesis
    using c by (simp add: servod_inv_def fields limits_ok_def pins_ok_def pins_mapped_def mapped_def width_ok_def)
qed

subsection \<open>Runs\<close>

lemma gpio_setups_frame: "outside_gpio (fold gpio_setup is st) = outside_gpio st"
proof (induction "is" arbitrary: st)
  case (Cons i "is")
  have "outside_gpio (gpio_setup i st) = outside_gpio st"
    by (simp add: gpio_setup_def Let_def)
  then show ?case
    using Cons.IH by simp
qed simp

lemma start_frame:
  assumes "length (servostart st) = MAX_SERVOS"
  defines "st1 \<equiv> fold gpio_setup [0..<MAX_SERVOS] (st\<lparr>servo_kill_time := replicate MAX_SERVOS (0, 0)\<rparr>)"
  shows "servo2gpio (start_outputs b st) = servo2gpio st" "idle_timeout (start_outputs b st) = idle_timeout st"
    "gpiomode (start_outputs b st) = gpiomode st1" "io_regs (start_outputs b st) GPIO = io_regs st1 GPIO" "restore_gpio_modes (start_outputs b st)"
    "servo_min_ticks (start_outputs b st) = servo_min_ticks st" "servo_max_ticks (start_outputs b st) = servo_max_ticks st"
    "num_samples (start_outputs b st) = num_samples st" "cmd_line (start_outputs b st) = cmd_line st"
    "servo_kill_time (start_outputs b st) = replicate MAX_SERVOS (0, 0)"
proof -
  have out: "outside_gpio st1 = outside_gpio (st\<lparr>servo_kill_time := replicate MAX_SERVOS (0, 0)\<rparr>)"
    unfolding st1_def by (rule gpio_setups_frame)
  have keep: "servo2gpio st1 = servo2gpio st" "idle_timeout st1 = idle_timeout st" "servostart st1 = servostart st"
    "servo_min_ticks st1 = servo_min_ticks st" "servo_max_ticks st1 = servo_max_ticks st" "num_samples st1 = num_samples st" "cmd_line st1 = cmd_line st"
    "servo_kill_time st1 = replicate MAX_SERVOS (0, 0)"
    using arg_cong [OF out, of servo2gpio] arg_cong [OF out, of idle_timeout] arg_cong [OF out, of servostart] arg_cong [OF out, of cmd_line]
      arg_cong [OF out, of servo_min_ticks] arg_cong [OF out, of servo_max_ticks] arg_cong [OF out, of num_samples] arg_cong [OF out, of servo_kill_time] by (simp_all add: outside_gpio_def)
  obtain m ss cbs where i: "init_ctrl_data b (st1\<lparr>restore_gpio_modes := True\<rparr>) = st1\<lparr>restore_gpio_modes := True, turnon_mask := replicate MAX_SERVOS 0,
      servowidth := replicate MAX_SERVOS 0, turnoff_mask := m, servostart := ss, control_blocks := cbs\<rparr>" (is "_ = ?st3")
    using init_ctrl_data_frame [of "st1\<lparr>restore_gpio_modes := True\<rparr>" b] assms(1) by (auto simp: keep)
  obtain r where h: "init_hardware ?st3 = ?st3\<lparr>io_regs := r\<rparr>" "r GPIO = io_regs ?st3 GPIO"
    using init_hardware_frame [of ?st3] by blast
  have "start_outputs b st = ?st3\<lparr>io_regs := r\<rparr>"
    using i h(1) by (simp add: start_outputs_def Let_def st1_def)
  then show "servo2gpio (start_outputs b st) = servo2gpio st" "idle_timeout (start_outputs b st) = idle_timeout st"
    "gpiomode (start_outputs b st) = gpiomode st1" "io_regs (start_outputs b st) GPIO = io_regs st1 GPIO" "restore_gpio_modes (start_outputs b st)"
    "servo_min_ticks (start_outputs b st) = servo_min_ticks st" "servo_max_ticks (start_outputs b st) = servo_max_ticks st"
    "num_samples (start_outputs b st) = num_samples st" "cmd_line (start_outputs b st) = cmd_line st"
    "servo_kill_time (start_outputs b st) = replicate MAX_SERVOS (0, 0)"
    using h(2) keep by simp_all
qed

text \<open>The pins of a daemon that is running: different, and at least one.\<close>

definition usable_pins :: "servod \<Rightarrow> bool" where
  "usable_pins st \<longleftrightarrow> distinct_pins st \<and> (\<exists>g \<in> set (servo2gpio st). g \<noteq> DMY)"

text \<open>Commands and idle rounds do not change the pins, so it does not matter in which state of the run one asks.\<close>

lemma start_round_pins:
  assumes "servod_start cpuinfo args b regs lv = Inr st0" "usable_pins st0" "b \<le> 0"
  obtains st where "configured regs st" "st0 = start_outputs b st" "distinct_pins st" "servod_inv b st0"
proof -
  obtain st where st: "configure cpuinfo args (boot regs lv) = Inr st" "st0 = start_outputs b st"
    using assms(1) by (auto simp: servod_start_def and_then_Inr)
  then have c: "configured regs st"
    using configure_ok by blast
  then have gpio: "servo2gpio st0 = servo2gpio st" "length (servo2gpio st) = MAX_SERVOS"
    using start_frame [of st b] st(2) by (auto simp: configured_def pins_ok_def)
  then have pins: "distinct_pins st" "\<exists>i. mapped st i"
    using assms(2) by (auto simp: usable_pins_def distinct_pins_def in_set_conv_nth mapped_def)
  show ?thesis
    using that [OF c st(2) pins(1)] start_inv [OF c pins(1) _ assms(3)] pins(2) st(2) by blast
qed

definition servod_running :: "int \<Rightarrow> (peripheral \<Rightarrow> nat \<Rightarrow> u32) \<Rightarrow> servod \<Rightarrow> bool" where
  "servod_running b regs st \<longleftrightarrow> (\<exists>cpuinfo args lv st0 rounds. servod_start cpuinfo args b regs lv = Inr st0 \<and> usable_pins st0 \<and>
    go_go_go_rounds rounds st0 = Inr st)"

lemma running_inv: "servod_running b regs st \<Longrightarrow> b \<le> 0 \<Longrightarrow> servod_inv b st"
  unfolding servod_running_def by (metis start_round_pins go_go_go_rounds_inv)

subsection \<open>The daemon as the robot starts it\<close>

text \<open>
  The options of \<^verbatim>\<open>script/servoblaster\<close>, whose idle timeout is 2000 ms, with any other timeout, and what a board of the second
  revision reports.
\<close>

definition script_args :: "string \<Rightarrow> servo_option list" where
  "script_args timeout = [O_pcm, O_p1pins ''18,22'', O_idle_timeout timeout]"

definition rev2_cpuinfo :: "string option" where
  "rev2_cpuinfo = Some (''Revision'' @ [CHR 0x09] @ '': 000e'' @ nl)"

lemma rev2_board: "board_rev rev2_cpuinfo = Inr 2"
  by code_simp

lemma script_numbers:
  "host_strtol 0 ''18,22'' = (18, '',22'')" "host_strtol 0 ''22'' = (22, [])" "number_arg (Some ''2000'') 0 ''ms'' 10 3600000 ''idle-timeout'' = Inr 2000"
  by code_simp+

lemma longest_timeout: "number_arg (Some ''3600000'') 0 ''ms'' 10 3600000 ''idle-timeout'' = Inr 3600000"
  by (simp add: number_arg_def host_strtol_def base_value_def base_digit_def is_digit_def is_space_def digit_val_def clamp32_def Let_def)

lemma script_pins:
  "parse_pin_lists 2 True ''18,22'' [] st = Inr (st\<lparr>servo2gpio := [24, 25] @ replicate 30 DMY,
    p1pin2servo := (replicate 27 DMY)[18 := 0, 22 := 1], p5pin2servo := replicate 9 DMY, num_servos := num_servos st + 2\<rparr>)"
proof -
  let ?st = "st\<lparr>servo2gpio := replicate 32 DMY, p1pin2servo := replicate 27 DMY, p5pin2servo := replicate 9 DMY\<rparr>"
  have "assign_pin 2 True 18 (0, ?st) = Inr (1, ?st\<lparr>p1pin2servo := (replicate 27 DMY)[18 := 0], servo2gpio := (replicate 32 DMY)[0 := 24], num_servos := num_servos st + 1\<rparr>)"
    (is "_ = Inr (1, ?st1)")
    by (simp add: assign_pin_def pin_map_def rev2_p1pin2gpio_map_def Let_def)
  moreover have "assign_pin 2 True 22 (1, ?st1) = Inr (2, ?st1\<lparr>p1pin2servo := (replicate 27 DMY)[18 := 0, 22 := 1],
      servo2gpio := (replicate 32 DMY)[0 := 24, 1 := 25], num_servos := num_servos st + 2\<rparr>)"
    by (simp add: assign_pin_def pin_map_def rev2_p1pin2gpio_map_def Let_def)
  moreover have "(replicate 32 DMY)[0 := 24, 1 := 25] = [24, 25] @ replicate 30 DMY"
    by (simp add: numeral_eq_Suc)
  ultimately show ?thesis
    by (simp add: parse_pin_lists_def pin_list.simps script_numbers)
qed

definition script_config :: "int \<Rightarrow> (peripheral \<Rightarrow> nat \<Rightarrow> u32) \<Rightarrow> u32 \<Rightarrow> servod" where
  "script_config t regs lv = (boot regs lv)\<lparr>delay_via_pcm := True, inverted := False, servo2gpio := [24, 25] @ replicate 30 DMY,
    p1pin2servo := (replicate 27 DMY)[18 := 0, 22 := 1], p5pin2servo := replicate 9 DMY, num_servos := 2,
    dma_chan := 14, idle_timeout := t, cycle_time_us := 20000, step_time_us := 10,
    servo_min_ticks := 50, servo_max_ticks := 250, num_samples := 2000\<rparr>"

lemma script_configure:
  assumes "number_arg (Some timeout) 0 ''ms'' 10 3600000 ''idle-timeout'' = Inr t"
  shows "configure rev2_cpuinfo (script_args timeout) (boot regs lv) = Inr (script_config t regs lv)"
proof -
  let ?o = "default_options\<lparr>via_pcm := True, p1pins := ''18,22'', hadp1 := True, p1first := True, idle_timeout_arg := Some timeout\<rparr>"
  have "parse_options (script_args timeout) default_options = Inr ?o"
    by (simp add: script_args_def default_options_def)
  moreover have "set_times ?o st = Inr (st\<lparr>dma_chan := 14, idle_timeout := t, cycle_time_us := 20000, step_time_us := 10\<rparr>)" for st
    using assms by (simp add: set_times_def default_options_def) (simp add: number_arg_def)
  moreover have "set_widths ?o st = Inr (st\<lparr>servo_min_ticks := 50, servo_max_ticks := 250, num_samples := 2000\<rparr>)"
    if "cycle_time_us st = 20000" "step_time_us st = 10" for st
    using that by (simp add: set_widths_def default_options_def min_max_arg_def num_pages_def)
  ultimately show ?thesis
    by (simp add: configure_def rev2_board script_pins default_options_def script_config_def boot_def)
qed

definition script_state :: "int \<Rightarrow> (peripheral \<Rightarrow> nat \<Rightarrow> u32) \<Rightarrow> u32 \<Rightarrow> servod" where
  "script_state t regs lv = start_outputs 0 (script_config t regs lv)"

lemma script_start:
  "servod_start rev2_cpuinfo (script_args ''2000'') 0 regs lv = Inr (script_state 2000 regs lv)"
  "servod_start rev2_cpuinfo (script_args ''3600000'') 0 regs lv = Inr (script_state 3600000 regs lv)"
  by (simp_all add: servod_start_def script_configure script_numbers longest_timeout script_state_def)

lemma script_state_fields [simp]:
  "servo2gpio (script_state t regs lv) = [24, 25] @ replicate 30 DMY" "idle_timeout (script_state t regs lv) = t"
  "servo_min_ticks (script_state t regs lv) = 50" "servo_max_ticks (script_state t regs lv) = 250"
  "num_samples (script_state t regs lv) = 2000" "cmd_line (script_state t regs lv) = []"
  "servo_kill_time (script_state t regs lv) = replicate MAX_SERVOS (0, 0)"
  using start_frame [of "script_config t regs lv" 0] by (simp_all add: script_state_def script_config_def boot_def)

lemma script_usable: "usable_pins (script_state t regs lv)"
  by (simp add: usable_pins_def distinct_pins_def)

lemma script_running:
  assumes "go_go_go_rounds rounds (script_state t regs lv) = Inr st" "t \<in> {2000, 3600000}"
  shows "servod_running 0 regs st"
  unfolding servod_running_def using assms script_start script_usable by blast

lemma script_run: "servod_running 0 regs (script_state 2000 regs lv)" "servod_running 0 regs (script_state 3600000 regs lv)"
  using script_running [of "[]" 2000 regs lv] script_running [of "[]" 3600000 regs lv] by simp_all

lemma script_mapped [simp]: "mapped (script_state t regs lv) 0" "mapped (script_state t regs lv) 1" "mapped (script_state t regs lv) (Suc 0)"
  by (simp_all add: mapped_def)

lemma script_limits: "limits_ok (script_state t regs lv)"
  by (simp add: limits_ok_def)

section \<open>Decimal widths\<close>

lemma round_even_int [simp]: "round_even (of_int k) = k"
  by (simp add: round_even_def)

lemma pow2_split: "e \<le> 52 \<Longrightarrow> 0 \<le> e \<Longrightarrow> of_int n / pow2 (e - 52) = of_int (n * 2 ^ nat (52 - e))"
  by (auto simp: pow2_def)

lemma double_round_nat:
  assumes "n < 2 ^ 53"
  shows "double_round (of_nat n) = of_nat n"
proof (cases "n = 0")
  case False
  define e where "e = bitlen (int n) - 1"
  have one: "bitlen 1 = 1"
    by (simp add: compute_bitlen [of 1])
  have b: "2 ^ nat (bitlen (int n) - 1) \<le> int n" "1 \<le> bitlen (int n)"
    using bitlen_bounds [of "int n"] bitlen_nonneg [of "int n"] bitlen_eq_zero_iff [of "int n"] False by linarith+
  have "nat e < 53"
  proof (rule ccontr)
    assume "\<not> nat e < 53"
    then have "(2::int) ^ 53 \<le> 2 ^ nat e"
      by (intro power_increasing) simp_all
    then have "(2::int) ^ 53 \<le> int n"
      using b(1) unfolding e_def by (rule order.trans)
    with assms show False by simp
  qed
  then have e: "0 \<le> e" "e \<le> 52"
    using b(2) by (simp_all add: e_def)
  have "pow2 e = rat_of_int (2 ^ nat e)"
    using e(1) by (simp add: pow2_def)
  then have "\<not> rat_of_int (int n) < pow2 e"
    using b(1) by (simp only: of_int_less_iff e_def not_less)
  moreover have "quotient_of (rat_of_int (int n)) = (int n, 1)"
    by simp
  ultimately have "double_round (rat_of_int (int n)) = of_int (round_even (of_int (int n) / pow2 (e - 52))) * pow2 (e - 52)"
    using False by (simp add: double_round_def one e_def [symmetric] Let_def)
  also have "\<dots> = of_int (int n) / pow2 (e - 52) * pow2 (e - 52)"
    unfolding pow2_split [OF e(2, 1)] by (simp only: round_even_int)
  also have "\<dots> = of_nat n"
    by (simp add: pow2_def)
  finally show ?thesis by simp
qed (simp add: double_round_def)

lemma base_digit_decimal: "base_digit c < 10 \<longleftrightarrow> is_digit c"
  by (auto simp: base_digit_def digit_val_def is_digit_def Let_def)

lemma base_value_decimal: "(\<And>c. c \<in> set ds \<Longrightarrow> is_digit c) \<Longrightarrow> base_value 10 ds = scan_digits 0 ds"
proof -
  assume "\<And>c. c \<in> set ds \<Longrightarrow> is_digit c"
  then have "foldl (\<lambda>n c. n * 10 + base_digit c) a ds = scan_digits a ds" for a
    by (induction ds arbitrary: a) (simp_all add: base_digit_def)
  then show ?thesis
    by (simp add: base_value_def)
qed

lemma host_strtod_decimal:
  assumes "\<not> hex_prefix s" "takeWhile (\<lambda>c. base_digit c < 10) s = ds" "dropWhile (\<lambda>c. base_digit c < 10) s = r"
    "\<not> (r \<noteq> [] \<and> hd r = CHR ''.'')" "scan_exponent ''eE'' r = (0, r)"
  shows "host_strtod s = (double_round (of_nat (base_value 10 ds)), r)"
  using assms by (auto simp: host_strtod_def Let_def)

lemma host_strtod_show_nat:
  assumes "n < 2 ^ 53" "r = [] \<or> hd r \<in> {CHR ''u'', CHR ''%''}"
  shows "host_strtod (show_nat n @ r) = (of_nat n, r)"
proof -
  let ?s = "show_nat n @ r"
  have digits: "\<forall>c \<in> set (show_nat n). is_digit c"
    by (simp add: show_nat_digits)
  have r: "r = [] \<or> \<not> is_digit (hd r) \<and> hd r \<noteq> CHR ''.'' \<and> hd r \<notin> set ''eE''"
    using assms(2) by (auto simp: is_digit_def)
  have "\<not> hex_prefix ?s"
  proof
    assume h: "hex_prefix ?s"
    then have "?s ! 1 \<in> {CHR ''x'', CHR ''X''}" "2 \<le> length ?s"
      by (simp_all add: hex_prefix_def)
    moreover obtain c cs where "show_nat n = c # cs"
      by (cases "show_nat n") auto
    ultimately show False
      using assms(2) digits by (cases cs; cases r) (auto simp: is_digit_def)
  qed
  moreover have "takeWhile (\<lambda>c. base_digit c < 10) ?s = show_nat n" "dropWhile (\<lambda>c. base_digit c < 10) ?s = r"
    using digits r unfolding base_digit_decimal by (auto simp: takeWhile_append dropWhile_append takeWhile_eq_Nil_iff dropWhile_eq_self_iff)
  moreover have "scan_exponent ''eE'' r = (0, r)"
    using r by (auto simp: scan_exponent_def)
  ultimately have "host_strtod ?s = (double_round (of_nat (base_value 10 (show_nat n))), r)"
    using r by (intro host_strtod_decimal) auto
  then show ?thesis
    using digits by (simp add: base_value_decimal scan_digits_show_nat double_round_nat [OF assms(1)])
qed

lemma parse_width_steps:
  assumes "limits_ok st" "servo_min_ticks st \<le> int w" "int w \<le> servo_max_ticks st"
  shows "parse_width s (show_nat w) st = int w"
proof -
  have w: "w \<le> 500000"
    using assms by (simp add: limits_ok_def)
  then have "host_strtod (show_nat w) = (of_nat w, [])"
    using host_strtod_show_nat [of w "[]"] by simp
  moreover have "hd (show_nat w) \<notin> {CHR ''-'', CHR ''+''}"
    using digit_not_sign [OF hd_show_nat_digit] by auto
  moreover have "double_to_int (of_nat w) = int w"
    using w by (simp add: double_to_int_def clamp32_def)
  ultimately have "parse_width s (show_nat w) st =
      (if (of_nat w :: rat) = 0 then 0 else if (of_nat w :: rat) < of_int (servo_min_ticks st) \<or> of_int (servo_max_ticks st) < (of_nat w :: rat)
       then -1 else int w)"
    using hd_show_nat_digit [of w] by (simp add: parse_width_def)
  moreover have "rat_of_int (servo_min_ticks st) \<le> rat_of_int (int w)" "rat_of_int (int w) \<le> rat_of_int (servo_max_ticks st)"
    using assms(2, 3) by (simp_all only: of_int_le_iff)
  ultimately show ?thesis
    by auto
qed

subsection \<open>Lines\<close>

lemma parse_command_cmd_line [simp]: "parse_command buf (st\<lparr>cmd_line := l\<rparr>) = parse_command buf st"
proof -
  have fields: "servo_min_ticks (st\<lparr>cmd_line := l\<rparr>) = servo_min_ticks st" "servo_max_ticks (st\<lparr>cmd_line := l\<rparr>) = servo_max_ticks st"
    "step_time_us (st\<lparr>cmd_line := l\<rparr>) = step_time_us st" "servowidth (st\<lparr>cmd_line := l\<rparr>) = servowidth st"
    "servo2gpio (st\<lparr>cmd_line := l\<rparr>) = servo2gpio st" "p1pin2servo (st\<lparr>cmd_line := l\<rparr>) = p1pin2servo st"
    "p5pin2servo (st\<lparr>cmd_line := l\<rparr>) = p5pin2servo st"
    by simp_all
  show ?thesis
    unfolding parse_command_def with_width_def parse_width_def fields by (rule refl)
qed

lemma read_chars_append: "read_chars (cs @ ds) st = and_then (read_chars cs st) (read_chars ds)"
  by (induction cs arbitrary: st) (simp_all add: and_then_def split: sum.splits)

lemma read_line_start:
  "CHR 0x0A \<notin> set l \<Longrightarrow> length (cmd_line st) + length l < 126 \<Longrightarrow>
    read_chars (map (Pair now) l) st = Inr (st\<lparr>cmd_line := cmd_line st @ l\<rparr>)"
  by (induction l arbitrary: st) (auto simp: read_char_def)

lemma read_line:
  assumes "CHR 0x0A \<notin> set l" "length l < 126" "cmd_line st = []"
  shows "read_chars (map (Pair now) (l @ nl)) st = and_then (parse_command (l @ nl) st) (\<lambda>cmd. Inr (apply_command now cmd st))"
proof -
  have "st\<lparr>cmd_line := []\<rparr> = st"
    by (cases st) (use assms(3) in simp)
  moreover have "read_chars (map (Pair now) (l @ nl)) st =
      and_then (parse_command (l @ nl) st) (\<lambda>cmd. Inr (apply_command now cmd (st\<lparr>cmd_line := []\<rparr>)))"
    using read_line_start [of l st now] assms by (simp add: read_chars_append read_char_def nl_def and_then_def split: sum.splits)
  ultimately show ?thesis
    by (simp only:)
qed

lemma parse_command_steps:
  assumes "limits_ok st" "mapped st s" "servo_min_ticks st \<le> int w" "int w \<le> servo_max_ticks st"
  shows "parse_command (show_nat s @ ''='' @ show_nat w @ nl) st = Inr (SetServo s w)"
proof -
  let ?line = "show_nat s @ ''='' @ show_nat w @ nl"
  have digits: "\<forall>c \<in> set (show_nat k). is_digit c" for k
    by (simp add: show_nat_digits)
  have chars: "\<forall>c \<in> set ?line. c \<noteq> NUL"
    using digits [of s] digits [of w] by (auto simp: nl_def NUL_def is_digit_def)
  have first: "hd ?line \<notin> {CHR ''p'', CHR ''P''}"
    using hd_show_nat_digit [of s] by (auto simp: is_digit_def)
  have s: "s < 32" "servo2gpio st ! s \<noteq> DMY" and w: "w \<le> 500000"
    using assms by (simp_all add: mapped_def limits_ok_def)
  have scan: "scan_int ?line = Some (int s, ''='' @ show_nat w @ nl)"
    using scan_int_show_int [of "int s" "''='' @ show_nat w @ nl"] s(1) by (simp add: show_int_def int32_def is_digit_def)
  have nl_space: "is_space (CHR 0x0A)"
    by (simp add: is_space_def)
  have word: "scan_word (show_nat w @ nl) = Some (show_nat w)"
  proof -
    have "takeWhile (\<lambda>c. \<not> is_space c) (show_nat w @ nl) = show_nat w"
      using digits [of w] digit_not_space nl_space by (subst takeWhile_append2) (auto simp: nl_def)
    then show ?thesis
      by (simp add: scan_word_def dropWhile_space_show_nat)
  qed
  then have "sscanf_servo ?line = Some (int s, show_nat w)"
    using scan by (simp add: sscanf_servo_def scan_lit_def)
  moreover have "length (show_nat w) < 64"
    using length_show_nat [of w 6] w by simp
  moreover have "parse_width s (show_nat w) st = int w"
    by (rule parse_width_steps [OF assms(1, 3, 4)])
  moreover have "takeWhile (\<lambda>c. c \<noteq> NUL) ?line = ?line"
    using chars by (simp only: takeWhile_eq_all_conv)
  ultimately show ?thesis
    using first s unfolding parse_command_def by (simp only: Let_def) (simp add: with_width_def)
qed

section \<open>Correctness of the commands\<close>

lemma output_run_cong:
  "(\<And>i. i \<in> set is \<Longrightarrow> off i = off' i \<and> on i = on' i) \<Longrightarrow> output_run off on is x = output_run off' on' is x"
  by (induction "is" arbitrary: x) (simp_all add: Let_def)

lemma set_servo_fields [simp]:
  "num_samples (set_servo now s w st) = num_samples st" "servostart (set_servo now s w st) = servostart st"
  "servowidth (set_servo now s w st) = (servowidth st)[s := w]" "inverted (set_servo now s w st) = inverted st"
  "turnon_mask (set_servo now s w st) = (turnon_mask st)[s := if w = 0 then 0 else servo_bit s st]"
  "servo_gpio (set_servo now s w st) i = servo_gpio st i" "mapped (set_servo now s w st) i = mapped st i"
  "servo2gpio (set_servo now s w st) = servo2gpio st" "idle_timeout (set_servo now s w st) = idle_timeout st"
  by (simp_all add: set_servo_def update_idle_time_def Let_def servo_gpio_def mapped_def)

lemma set_servo_others:
  assumes "servod_inv b st" "mapped st s" "width_ok st w" "mapped st s'" "s' \<noteq> s"
  shows "settled_output (set_servo now s w st) s' lv = settled_output st s' lv"
proof -
  let ?st' = "set_servo now s w st"
  have inv: "layout_ok b st" "masks_ok st" "layout_ok b ?st'" "masks_ok ?st'"
    using assms(1) set_servo_inv [OF assms(1-3)] by (simp_all add: servod_inv_def)
  have off: "bit (turnoff_mask ?st' ! i) (servo_gpio st s') = bit (turnoff_mask st ! i) (servo_gpio st s')" if "i < num_samples st" for i
    using turnoff_pattern [OF inv(1, 2) assms(4) that] turnoff_pattern [OF inv(3, 4), of s' i] that assms(4, 5)
    by (simp add: pulse_at_def)
  have run: "output_run (\<lambda>i. bit (turnoff_mask ?st' ! i) (servo_gpio st s')) f [0..<num_samples st] x =
      output_run (\<lambda>i. bit (turnoff_mask st ! i) (servo_gpio st s')) f [0..<num_samples st] x" for f x
    by (rule output_run_cong) (simp add: off)
  have "active ?st' g l = active st g l" for g l
    by (simp add: active_def)
  then show ?thesis
    using settled_output_run [OF inv(1, 2) assms(4), of lv] settled_output_run [OF inv(3, 4), of s' lv] assms(4, 5) by (simp add: run)
qed

lemma set_servo_output:
  assumes "servod_inv b st" "mapped st s" "width_ok st w"
  shows "settled_output (set_servo now s w st) s lv =
    map (\<lambda>i. (i + (num_samples st - servostart st ! s)) mod num_samples st < w) [0..<num_samples st]"
proof -
  let ?st' = "set_servo now s w st"
  have inv: "layout_ok b ?st'" "masks_ok ?st'"
    using set_servo_inv [OF assms] by (simp_all add: servod_inv_def)
  have len: "s < length (turnon_mask st)" "s < length (servowidth st)" "servo_gpio st s < 32"
    using assms(1, 2) by (auto simp: servod_inv_def masks_ok_def mapped_def layout_ok_def)
  have "servo_bit s st \<noteq> 0"
    using len(3) by (auto simp: servo_bit_def servo_gpio_def bit_eq_iff bit_simps)
  then show ?thesis
    using pulse_steady [OF inv, of s lv] assms(2) len by (simp add: pulse_at_def)
qed

text \<open>
  C0.  The pulse train.  In every state of a running daemon whose output pins are different, when a line from the
  device is accepted as a command for a servo, then from the second cycle of the DMA controller on the
  servo's output is on at exactly the requested number of consecutive samples from the servo's start on, wrapping at
  the end of the cycle, whatever the levels were; the outputs of all other servos are as before.
\<close>

theorem servod_command_pulse:
  assumes "servod_running b regs st" "b \<le> 0" "parse_command line st = Inr (SetServo s w)"
  shows "settled_output (apply_command now (SetServo s w) st) s lv =
      map (\<lambda>i. (i + (num_samples st - servostart st ! s)) mod num_samples st < w) [0..<num_samples st] \<and>
    (\<forall>s'. mapped st s' \<and> s' \<noteq> s \<longrightarrow>
      settled_output (apply_command now (SetServo s w) st) s' lv = settled_output st s' lv)"
proof -
  have inv: "servod_inv b st"
    using running_inv assms(1, 2) by blast
  then have "mapped st s" "width_ok st w"
    using parse_command_set [OF _ _ assms(3)] by (auto simp: servod_inv_def)
  then show ?thesis
    using set_servo_output [OF inv] set_servo_others [OF inv] by (simp add: apply_command_def)
qed

theorem servod_command_pulse_witness:
  "settled_output (apply_command (0, 0) (SetServo 1 150) (script_state 2000 (\<lambda>_ _. 0) 0)) 1 0 =
    map (\<lambda>i. (i + (2000 - servostart (script_state 2000 (\<lambda>_ _. 0) 0) ! 1)) mod 2000 < 150) [0..<2000]"
  using servod_command_pulse [OF script_run(1) _ parse_command_steps [of _ 1 150], of "\<lambda>_ _. 0" 0 "(0, 0)" 0]
  by (simp add: script_limits)

section \<open>The idle timers\<close>

definition usec :: "int \<times> int \<Rightarrow> int" where
  "usec t = fst t * 1000000 + snd t"

definition time_ok :: "int \<times> int \<Rightarrow> bool" where
  "time_ok t \<longleftrightarrow> 0 < fst t \<and> 0 \<le> snd t \<and> snd t < 1000000"

lemma carry_usec_div: "0 \<le> u \<Longrightarrow> carry_usec (s, u) = (s + u div 1000000, u mod 1000000)"
proof (induction "(s, u)" arbitrary: s u rule: carry_usec.induct)
  case (1 s u)
  show ?case
  proof (cases "1000000 \<le> u")
    case True
    have "u div 1000000 = (u - 1000000) div 1000000 + 1" "u mod 1000000 = (u - 1000000) mod 1000000"
      by (rule div_pos_geq, simp, rule True) (rule mod_pos_geq, simp, rule True)
    then show ?thesis
      using 1 True by (simp add: carry_usec.simps [of s u])
  qed (use 1 in \<open>simp add: carry_usec.simps [of s u]\<close>)
qed

lemma usec_carry: "usec (a + x div 1000000, x mod 1000000) = a * 1000000 + x"
  unfolding usec_def fst_conv snd_conv distrib_right add.assoc div_mult_mod_eq by (rule refl)

lemma usec_split: "(a + t div 1000) * 1000000 + (u + t mod 1000 * 1000) = a * 1000000 + u + t * 1000" for t :: int
proof -
  define q r where "q = t div 1000" and "r = t mod 1000"
  then have "t = q * 1000 + r"
    by simp
  then show ?thesis
    unfolding q_def [symmetric] r_def [symmetric] by simp
qed

lemma set_servo_kill_time:
  assumes "servod_inv b st" "mapped st s" "0 < idle_timeout st" "time_ok now"
  shows "time_ok (servo_kill_time (set_servo now s w st) ! s)"
    "usec (servo_kill_time (set_servo now s w st) ! s) = usec now + idle_timeout st * 1000"
proof -
  define u where "u = snd now + idle_timeout st mod 1000 * 1000"
  define a where "a = fst now + idle_timeout st div 1000"
  have u: "0 \<le> u"
    using assms(4) by (simp add: time_ok_def u_def)
  have "s < length (servo_kill_time st)"
    using assms(1, 2) by (simp add: servod_inv_def mapped_def)
  then have k: "servo_kill_time (set_servo now s w st) ! s = (a + u div 1000000, u mod 1000000)"
    using assms(3) by (simp add: set_servo_def update_idle_time_def Let_def u_def [symmetric] a_def [symmetric] carry_usec_div [OF u])
  have "0 \<le> u div 1000000" "0 < a"
    using u assms(3, 4) by (simp_all add: pos_imp_zdiv_nonneg_iff a_def time_ok_def add_pos_nonneg)
  then show "time_ok (servo_kill_time (set_servo now s w st) ! s)"
    unfolding k time_ok_def by simp
  show "usec (servo_kill_time (set_servo now s w st) ! s) = usec now + idle_timeout st * 1000"
    unfolding k usec_carry unfolding a_def u_def usec_split by (simp add: usec_def)
qed

lemma idle_due_usec:
  assumes "time_ok (servo_kill_time st ! s)" "time_ok now" "mapped st s"
  shows "idle_due now st s \<longleftrightarrow> usec (servo_kill_time st ! s) \<le> usec now"
  using assms by (auto simp: idle_due_def usec_def time_ok_def mapped_def)

text \<open>A round touches one servo only.\<close>

lemma set_servo_idle_fields [simp]:
  "servowidth (set_servo_idle i st) = servowidth st" "servo_kill_time (set_servo_idle i st) = servo_kill_time st"
  "servo2gpio (set_servo_idle i st) = servo2gpio st" "turnon_mask (set_servo_idle i st) = (turnon_mask st)[i := 0]"
  "num_samples (set_servo_idle i st) = num_samples st" "servostart (set_servo_idle i st) = servostart st"
  by (simp_all add: set_servo_idle_def gpio_set_def Let_def)

lemma idle_rounds_servo:
  assumes "distinct is" "s < length (turnon_mask st)"
  shows "turnon_mask (snd (fold (idle_round now) is (mn, st))) ! s =
      (if s \<in> set is \<and> idle_due now st s then 0 else turnon_mask st ! s) \<and>
    servowidth (snd (fold (idle_round now) is (mn, st))) = servowidth st"
  using assms
proof (induction "is" arbitrary: mn st)
  case (Cons i "is")
  define st1 where "st1 = snd (idle_round now i (mn, st))"
  define mn1 where "mn1 = fst (idle_round now i (mn, st))"
  have step: "fold (idle_round now) (i # is) (mn, st) = fold (idle_round now) is (mn1, st1)"
    by (simp add: st1_def mn1_def)
  have st1: "st1 = (if idle_due now st i
      then set_servo_idle i (st\<lparr>servo_kill_time := (servo_kill_time st)[i := (0, snd (servo_kill_time st ! i))]\<rparr>) else st)"
    unfolding st1_def by (rule idle_round_state)
  have due: "idle_due now st1 s = idle_due now st s" if "s \<noteq> i"
    using that by (auto simp: st1 idle_due_def)
  have masks: "length (turnon_mask st1) = length (turnon_mask st)" "servowidth st1 = servowidth st"
      "turnon_mask st1 ! s = (if s = i \<and> idle_due now st s then 0 else turnon_mask st ! s)"
    using Cons.prems(2) by (auto simp: st1)
  have IH: "turnon_mask (snd (fold (idle_round now) is (mn1, st1))) ! s =
        (if s \<in> set is \<and> idle_due now st1 s then 0 else turnon_mask st1 ! s)"
      "servowidth (snd (fold (idle_round now) is (mn1, st1))) = servowidth st1"
    using Cons.IH [of st1 mn1] Cons.prems masks(1) by simp_all
  show ?case
    unfolding step IH masks using Cons.prems(1) due by (cases "s = i") auto
qed simp

lemma idle_timeout_servo:
  assumes "servod_inv b st" "mapped st s" "get_next_idle_timeout now st = (tv, st')"
  shows "turnon_mask st' ! s = (if idle_due now st s then 0 else turnon_mask st ! s)" "servowidth st' = servowidth st"
proof -
  have "s < length (turnon_mask st)" "s < MAX_SERVOS"
    using assms(1, 2) by (simp_all add: servod_inv_def masks_ok_def mapped_def)
  then show "turnon_mask st' ! s = (if idle_due now st s then 0 else turnon_mask st ! s)" "servowidth st' = servowidth st"
    using idle_rounds_servo [of "[0..<MAX_SERVOS]" s st now "(60, 0)"] assms(3) by (simp_all add: get_next_idle_timeout_def)
qed

text \<open>
  C0.  The idle timeout.  With an idle timeout, after a command that sets a servo to a width below the whole cycle,
  a later look at the idle timers leaves the pulses of the servo as they are if the timeout, in milliseconds, has not yet passed since
  the command; if it has passed, the output stays off from the second cycle on.
\<close>

theorem servod_idle_timeout:
  assumes "servod_running b regs st" "b \<le> 0" "parse_command line st = Inr (SetServo s w)" "0 < w" "w < num_samples st"
    "0 < idle_timeout st" "time_ok now" "time_ok later"
  shows "settled_output (snd (get_next_idle_timeout later (apply_command now (SetServo s w) st))) s lv =
    (if usec now + idle_timeout st * 1000 \<le> usec later then replicate (num_samples st) False
     else map (\<lambda>i. (i + (num_samples st - servostart st ! s)) mod num_samples st < w) [0..<num_samples st])"
proof -
  let ?st1 = "set_servo now s w st"
  obtain tv st2 where t: "get_next_idle_timeout later ?st1 = (tv, st2)"
    by (cases "get_next_idle_timeout later ?st1")
  have inv: "servod_inv b st"
    using running_inv assms(1, 2) by blast
  then have s: "mapped st s" "width_ok st w"
    using parse_command_set [OF _ _ assms(3)] by (auto simp: servod_inv_def)
  have inv1: "servod_inv b ?st1" "mapped ?st1 s"
    using set_servo_inv [OF inv s] s(1) by simp_all
  then have inv2: "layout_ok b st2" "masks_ok st2" and same: "same_setup ?st1 st2"
    using get_next_idle_timeout_inv [OF inv1(1) t] by (simp_all add: servod_inv_def)
  then have m2: "mapped st2 s" "num_samples st2 = num_samples st" "servostart st2 = servostart st"
    using s(1) same_setup_mapped [OF same] by (simp_all add: same_setup_def same_tables_def)
  have len: "s < length (turnon_mask st)" "s < length (servowidth st)" "servo_gpio st s < 32"
    using inv s(1) by (auto simp: servod_inv_def masks_ok_def mapped_def layout_ok_def)
  have "servo_bit s st \<noteq> 0"
    using len(3) by (auto simp: servo_bit_def servo_gpio_def bit_eq_iff bit_simps)
  then have masks: "turnon_mask st2 ! s = 0 \<longleftrightarrow> usec now + idle_timeout st * 1000 \<le> usec later" "servowidth st2 ! s = w"
    using idle_timeout_servo [OF inv1 t] idle_due_usec [OF set_servo_kill_time(1) [OF inv s(1) assms(6, 7)] assms(8) inv1(2)]
      set_servo_kill_time(2) [OF inv s(1) assms(6, 7)] assms(4) len by simp_all
  show ?thesis
  proof (cases "usec now + idle_timeout st * 1000 \<le> usec later")
    case True
    then show ?thesis
      using idle_output [OF inv2 m2(1), of lv] masks assms(5) t m2 by (simp add: apply_command_def)
  next
    case False
    then show ?thesis
      using pulse_steady [OF inv2 m2(1), of lv] masks t m2 by (simp add: apply_command_def pulse_at_def)
  qed
qed

theorem servod_idle_timeout_witness:
  "settled_output (snd (get_next_idle_timeout (1002, 0) (apply_command (1000, 0) (SetServo 1 150) (script_state 2000 (\<lambda>_ _. 0) 0)))) 1 0 =
    replicate 2000 False"
  using servod_idle_timeout [OF script_run(1) _ parse_command_steps [of _ 1 150], of "\<lambda>_ _. 0" 0 "(1000, 0)" "(1002, 0)" 0]
  by (simp add: script_limits time_ok_def usec_def)

subsection \<open>Timeouts beyond the range of a long\<close>

lemma usec_sdiv: "usec (k sdiv 1000000, k smod 1000000) = k"
proof -
  have "sgn k * (\<bar>k\<bar> div m) * m + sgn k * (\<bar>k\<bar> mod m) = k" for m
    unfolding mult.assoc distrib_left [symmetric] div_mult_mod_eq by (simp add: sgn_mult_abs)
  from this [of 1000000] show ?thesis
    unfolding usec_def signed_divide_int_def signed_modulo_int_def by simp
qed

text \<open>The timeout found so far only gets smaller.\<close>

lemma idle_round_min:
  fixes st :: servod and i :: nat and now :: "int \<times> int"
  assumes "int32 (usec mn)"
  defines "diff \<equiv> wrap32 (usec (servo_kill_time st ! i) - usec now)"
  shows "int32 (usec (fst (idle_round now i (mn, st)))) \<and> usec (fst (idle_round now i (mn, st))) \<le> usec mn \<and>
    (mapped st i \<and> fst (servo_kill_time st ! i) \<noteq> 0 \<and> \<not> idle_due now st i \<longrightarrow> usec (fst (idle_round now i (mn, st))) \<le> diff)"
proof -
  obtain ks ku where k: "servo_kill_time st ! i = (ks, ku)"
    by (cases "servo_kill_time st ! i")
  have d: "wrap32 ((ks - fst now) * 1000000 + ku - snd now) = diff" "wrap32 (fst mn * 1000000 + snd mn) = usec mn"
    using assms(1) by (simp_all add: diff_def k usec_def algebra_simps)
  have "fst (idle_round now i (mn, st)) = (if servo2gpio st ! i = DMY \<or> ks = 0 \<or> idle_due now st i then mn
      else if diff < usec mn then (diff sdiv 1000000, diff smod 1000000) else mn)"
    unfolding idle_round_def Let_def k case_prod_conv d by (auto simp: idle_due_def k)
  moreover have "int32 diff"
    unfolding diff_def by (rule int32_wrap32)
  ultimately show ?thesis
    using assms(1) by (auto simp: usec_sdiv k mapped_def)
qed

lemma idle_rounds_min:
  "int32 (usec mn) \<Longrightarrow> int32 (usec (fst (fold (idle_round now) is (mn, st)))) \<and> usec (fst (fold (idle_round now) is (mn, st))) \<le> usec mn"
proof (induction "is" arbitrary: mn st)
  case (Cons i "is")
  obtain mn1 st1 where r: "idle_round now i (mn, st) = (mn1, st1)"
    by (cases "idle_round now i (mn, st)")
  then show ?case
    using idle_round_min [OF Cons.prems, where i = i and st = st and now = now] Cons.IH [where mn = mn1 and st = st1] by auto
qed simp

lemma idle_rounds_kill_time:
  "s \<notin> set is \<Longrightarrow> servo_kill_time (snd (fold (idle_round now) is (mn, st))) ! s = servo_kill_time st ! s \<and>
    servo2gpio (snd (fold (idle_round now) is (mn, st))) = servo2gpio st"
proof (induction "is" arbitrary: mn st)
  case (Cons i "is")
  obtain mn1 st1 where r: "idle_round now i (mn, st) = (mn1, st1)"
    by (cases "idle_round now i (mn, st)")
  moreover have "servo_kill_time st1 ! s = servo_kill_time st ! s" "servo2gpio st1 = servo2gpio st"
    using idle_round_state [of now i mn st] r Cons.prems by (auto split: if_splits)
  ultimately show ?case
    using Cons.IH [where mn = mn1 and st = st1] Cons.prems by simp
qed simp

lemma next_timeout_le:
  assumes "mapped st s" "fst (servo_kill_time st ! s) \<noteq> 0" "\<not> idle_due now st s"
  shows "usec (fst (get_next_idle_timeout now st)) \<le> wrap32 (usec (servo_kill_time st ! s) - usec now)"
proof -
  have s: "s < 32"
    using assms(1) by (simp add: mapped_def)
  have "[0..<32] = [0..<s] @ s # [Suc s..<32]"
    using s by (metis le_add_diff_inverse less_imp_le_nat upt_add_eq_append upt_conv_Cons zero_le)
  moreover obtain mn1 st1 where r1: "fold (idle_round now) [0..<s] ((60, 0), st) = (mn1, st1)"
    by (cases "fold (idle_round now) [0..<s] ((60, 0), st)")
  moreover obtain mn2 st2 where r2: "idle_round now s (mn1, st1) = (mn2, st2)"
    by (cases "idle_round now s (mn1, st1)")
  ultimately have run: "get_next_idle_timeout now st = fold (idle_round now) [Suc s..<32] (mn2, st2)"
    by (simp add: get_next_idle_timeout_def)
  have "int32 (usec (60, 0))"
    by (simp add: int32_def usec_def)
  then have mn1: "int32 (usec mn1)"
    using idle_rounds_min [of "(60, 0)" now "[0..<s]" st] r1 by simp
  have st1: "servo_kill_time st1 ! s = servo_kill_time st ! s" "servo2gpio st1 = servo2gpio st"
    using idle_rounds_kill_time [of s "[0..<s]" now "(60, 0)" st] r1 by simp_all
  then have "mapped st1 s" "\<not> idle_due now st1 s"
    using assms(1, 3) by (simp_all add: mapped_def idle_due_def)
  then have "int32 (usec mn2)" "usec mn2 \<le> wrap32 (usec (servo_kill_time st ! s) - usec now)"
    using idle_round_min [OF mn1, where i = s and st = st1 and now = now] r2 assms(2) st1(1) by auto
  then show ?thesis
    using idle_rounds_min [of mn2 now "[Suc s..<32]" st2] run by auto
qed

text \<open>
  C0.  Long idle timeouts.  The daemon accepts idle timeouts up to 3600000 ms.  While at least
  \<^term>\<open>2 ^ 31\<close> microseconds of the timeout remain after a command, the difference of the two times leaves the 32-bit
  \<^verbatim>\<open>long\<close>, \<^verbatim>\<open>select\<close> gets a negative timeout, and the round of the main loop reads nothing of the input, so
  further commands are not executed.
\<close>

theorem servod_long_timeout_deaf:
  assumes "servod_running b regs st" "b \<le> 0" "parse_command line st = Inr (SetServo s w)"
    "0 < idle_timeout st" "idle_timeout st \<le> 3600000" "time_ok now" "time_ok later"
    "2 ^ 31 \<le> usec now + idle_timeout st * 1000 - usec later" "usec now \<le> usec later"
  shows "go_go_go_round (later, input) (apply_command now (SetServo s w) st) =
    Inr (snd (get_next_idle_timeout later (apply_command now (SetServo s w) st)))"
proof -
  let ?st1 = "set_servo now s w st" and ?d = "usec now + idle_timeout st * 1000 - usec later"
  have inv: "servod_inv b st"
    using running_inv assms(1, 2) by blast
  then have s: "mapped st s" "mapped ?st1 s"
    using parse_command_set [OF _ _ assms(3)] by (auto simp: servod_inv_def)
  note kill = set_servo_kill_time [OF inv s(1) assms(4, 6), of w]
  have "fst (servo_kill_time ?st1 ! s) \<noteq> 0" "\<not> idle_due later ?st1 s"
    using kill idle_due_usec [OF kill(1) assms(7) s(2)] assms(8) by (auto simp: time_ok_def)
  then have "usec (fst (get_next_idle_timeout later ?st1)) \<le> wrap32 ?d"
    using next_timeout_le [OF s(2)] kill(2) by simp
  moreover have "wrap32 ?d < 0"
  proof -
    have "2 ^ 31 \<le> ?d" "?d < 2 ^ 32"
      using assms(5, 8, 9) by simp_all
    then have "(?d + 2 ^ 31) mod 2 ^ 32 = ?d + 2 ^ 31 - 2 ^ 32"
      using mod_pos_geq [of "2 ^ 32" "?d + 2 ^ 31"] mod_pos_pos_trivial [of "?d + 2 ^ 31 - 2 ^ 32" "2 ^ 32"] by simp
    then show ?thesis
      using \<open>?d < 2 ^ 32\<close> by (simp add: wrap32_def)
  qed
  ultimately have "\<not> select_accepts (fst (get_next_idle_timeout later ?st1))"
    by (auto simp: select_accepts_def usec_def)
  then show ?thesis
    by (simp add: go_go_go_round_def apply_command_def case_prod_beta)
qed

theorem servod_long_timeout_deaf_witness:
  "go_go_go_round ((1001, 0), map (Pair (1001, 0)) (''0=200'' @ nl)) (apply_command (1000, 0) (SetServo 1 150) (script_state 3600000 (\<lambda>_ _. 0) 0)) =
    Inr (snd (get_next_idle_timeout (1001, 0) (apply_command (1000, 0) (SetServo 1 150) (script_state 3600000 (\<lambda>_ _. 0) 0))))"
  using servod_long_timeout_deaf [OF script_run(2) _ parse_command_steps [of _ 1 150], of "\<lambda>_ _. 0" 0 "(1000, 0)" "(1001, 0)"]
  by (simp add: script_limits time_ok_def usec_def)

section \<open>Pulses that are changed while they run\<close>

lemma running_command:
  assumes "servod_running b regs st" "b \<le> 0" "parse_command line st = Inr (SetServo s w)"
  shows "layout_ok b st" "masks_ok st" "mapped st s" "w \<le> num_samples st"
proof -
  have inv: "servod_inv b st"
    using running_inv assms(1, 2) by blast
  then show "layout_ok b st" "masks_ok st" "mapped st s" "w \<le> num_samples st"
    using parse_command_set [OF _ _ assms(3)] width_ok_le by (auto simp: servod_inv_def)
qed

text \<open>
  C0.  Longer pulses.  While \<^verbatim>\<open>set_servo\<close> makes a running pulse longer, the DMA controller may read the masks between any two of
  its writes; still the pulse has either the old width or the new one.
\<close>

theorem servod_growing_pulse:
  assumes "servod_running b regs st" "b \<le> 0" "parse_command line st = Inr (SetServo s w)"
    "0 < servowidth st ! s" "servowidth st ! s < w" "mono prog"
  shows "pulse_width_during st s w prog \<in> {servowidth st ! s, w}"
  using pulse_growing [OF running_command [OF assms(1-3)] assms(4-6)] .

text \<open>
  C0.  Shorter pulses.  While \<^verbatim>\<open>set_servo\<close> makes a running pulse shorter, every width between the new and the old one
  can appear at the output: all of it, when the writes come between two samples.
\<close>

theorem servod_shrinking_pulse:
  assumes "servod_running b regs st" "b \<le> 0" "parse_command line st = Inr (SetServo s w)" "0 < v" "w \<le> v" "v \<le> servowidth st ! s"
  shows "\<exists>prog. mono prog \<and> (\<forall>j. prog j \<le> length (turnoff_writes s w st)) \<and> pulse_width_during st s w prog = v"
proof -
  let ?prog = "\<lambda>j. if j < v then 0 else servowidth st ! s - w"
  note c = running_command [OF assms(1-3)]
  have "length (turnoff_writes s w st) = servowidth st ! s - w"
    using turnoff_writes_upt [OF _ c(4), of s] layout_ok_range [OF c(1, 3)] assms(5, 6) by simp
  moreover have "mono ?prog"
    by (rule monoI) simp
  ultimately show ?thesis
    using pulse_shrinking [OF c assms(4-6)] by (intro exI [of _ ?prog]) simp
qed

lemma script_line:
  assumes "servod_inv 0 st" "cmd_line st = []" "mapped st s" "servo_min_ticks st \<le> int w" "int w \<le> servo_max_ticks st" "s < 10"
  shows "read_chars (map (Pair now) (show_nat s @ ''='' @ show_nat w @ nl)) st = Inr (set_servo now s w st)"
proof -
  have lim: "limits_ok st"
    using assms(1) by (simp add: servod_inv_def)
  then have w: "w < 10 ^ 6"
    using assms(5) by (simp add: limits_ok_def)
  let ?l = "show_nat s @ ''='' @ show_nat w"
  have "CHR 0x0A \<notin> set ?l"
    using show_nat_digits [of "CHR 0x0A"] by (auto simp: is_digit_def)
  moreover have "length ?l < 126"
    using length_show_nat [OF w] length_show_nat [of s 1] assms(6) by simp
  ultimately show ?thesis
    using read_line [of ?l st now] parse_command_steps [OF lim assms(3-5)] assms(2) by (simp add: apply_command_def)
qed

lemma no_timers:
  assumes "\<forall>i<MAX_SERVOS. fst (servo_kill_time st ! i) = 0"
  shows "get_next_idle_timeout now st = ((60, 0), st)"
proof -
  have "set is \<subseteq> {..<MAX_SERVOS} \<Longrightarrow> fold (idle_round now) is (mn, st) = (mn, st)" for "is" mn
  proof (induction "is")
    case (Cons i "is")
    have "idle_round now i (mn, st) = (mn, st)"
      using assms Cons.prems by (simp add: idle_round_def case_prod_beta)
    then show ?case
      using Cons by simp
  qed simp
  from this [of "[0..<MAX_SERVOS]"] show ?thesis
    by (simp add: get_next_idle_timeout_def lessThan_atLeast0)
qed

text \<open>The daemon of the robot after its first command.\<close>

definition script_set :: "nat \<Rightarrow> nat \<Rightarrow> servod" where
  "script_set s w = set_servo (1000, 0) s w (script_state 2000 (\<lambda>_ _. 0) 0)"

lemma script_set_running:
  assumes "s \<in> {0, 1}" "50 \<le> w" "w \<le> 250"
  shows "servod_running 0 (\<lambda>_ _. 0) (script_set s w)"
proof -
  let ?st = "script_state 2000 (\<lambda>_ _. 0) 0"
  have "servod_inv 0 ?st"
    using running_inv [OF script_run(1)] by simp
  then have "read_chars (map (Pair (1000, 0)) (show_nat s @ ''='' @ show_nat w @ nl)) ?st = Inr (script_set s w)"
    unfolding script_set_def using assms by (intro script_line) auto
  moreover have "get_next_idle_timeout (1000, 0) ?st = ((60, 0), ?st)"
    by (rule no_timers) simp
  ultimately have "go_go_go_rounds [((1000, 0), map (Pair (1000, 0)) (show_nat s @ ''='' @ show_nat w @ nl))] ?st = Inr (script_set s w)"
    by (simp add: go_go_go_round_def select_accepts_def)
  then show ?thesis
    by (rule script_running) simp
qed

lemma script_set_fields:
  assumes "s \<in> {0, 1}"
  shows "limits_ok (script_set s w)" "servo_min_ticks (script_set s w) = 50" "servo_max_ticks (script_set s w) = 250"
    "mapped (script_set s w) 0" "mapped (script_set s w) 1" "servowidth (script_set s w) ! s = w"
proof -
  have "length (servowidth (script_state 2000 (\<lambda>_ _. 0) 0)) = 32"
    using running_inv [OF script_run(1)] by (simp add: servod_inv_def masks_ok_def)
  then show "servowidth (script_set s w) ! s = w"
    using assms by (auto simp: script_set_def)
  have "same_setup (script_state 2000 (\<lambda>_ _. 0) 0) (script_set s w)"
    unfolding script_set_def by (rule set_servo_setup)
  then show "limits_ok (script_set s w)" "servo_min_ticks (script_set s w) = 50" "servo_max_ticks (script_set s w) = 250"
    using script_limits by (simp_all add: same_setup_def same_tables_def limits_ok_def)
  show "mapped (script_set s w) 0" "mapped (script_set s w) 1"
    by (simp_all add: script_set_def)
qed

theorem servod_growing_pulse_witness: "pulse_width_during (script_set 1 100) 1 200 (\<lambda>j. 2 * j) \<in> {100, 200}"
  using servod_growing_pulse [OF script_set_running [of 1 100] _ parse_command_steps [of "script_set 1 100" 1 200], of "\<lambda>j. 2 * j"]
    script_set_fields [of 1 100] by (simp add: mono_def)

theorem servod_shrinking_pulse_witness: "\<exists>prog. mono prog \<and> pulse_width_during (script_set 1 200) 1 100 prog = 150"
  using servod_shrinking_pulse [OF script_set_running [of 1 200] _ parse_command_steps [of "script_set 1 200" 1 100], of 150]
    script_set_fields [of 1 200] by auto

section \<open>Limits, pins and modes\<close>

text \<open>
  C0.  Widths in range.  In every state of a running daemon, the width of each servo is zero or between the configured
  minimum and maximum, which are positive limits within the cycle; the minimum is below the maximum.
\<close>

theorem servod_widths_in_range:
  assumes "servod_running b regs st" "b \<le> 0" "w \<in> set (servowidth st)"
  shows "(w = 0 \<or> servo_min_ticks st \<le> int w \<and> int w \<le> servo_max_ticks st) \<and>
    0 \<le> servo_min_ticks st \<and> servo_min_ticks st < servo_max_ticks st \<and> servo_max_ticks st \<le> int (num_samples st)"
  using running_inv [OF assms(1, 2)] assms(3) by (auto simp: servod_inv_def width_ok_def limits_ok_def)

theorem servod_widths_in_range_witness:
  "100 \<in> set (servowidth (script_set 1 100)) \<and> servo_min_ticks (script_set 1 100) \<le> 100 \<and> 100 \<le> servo_max_ticks (script_set 1 100)"
proof -
  have "1 < length (servowidth (script_set 1 100))"
    using running_inv [OF script_set_running [of 1 100]] by (simp add: servod_inv_def masks_ok_def)
  then have "100 \<in> set (servowidth (script_set 1 100))"
    using nth_mem [of 1 "servowidth (script_set 1 100)"] script_set_fields(6) [of 1 100] by (metis insertI1 insertI2)
  then show ?thesis
    using servod_widths_in_range [OF script_set_running [of 1 100], of 100] by simp
qed

lemma pin_list_p5_only: "pin_list revision False pins (servo, st) = Inr (servo', st') \<Longrightarrow> p1pin2servo st' = p1pin2servo st"
proof (induction revision False pins "(servo, st)" arbitrary: servo st rule: pin_list.induct)
  case (1 revision pins servo st)
  show ?case
  proof (cases "pins = []")
    case False
    obtain pin r where r: "host_strtol 0 pins = (pin, r)"
      by (cases "host_strtol 0 pins")
    let ?bad = "r \<noteq> [] \<and> (r = pins \<or> hd r \<noteq> CHR '','')"
    obtain servo1 st1 where a: "\<not> ?bad" "assign_pin revision False pin (servo, st) = Inr (servo1, st1)"
        "pin_list revision False (if r \<noteq> [] \<and> hd r = CHR '','' then tl r else r) (servo1, st1) = Inr (servo', st')"
      using 1(2) False by (auto simp: pin_list.simps [of _ _ pins] r split: if_splits sum.splits)
    have "p1pin2servo st1 = p1pin2servo st"
      using a(2) by (auto simp: assign_pin_def Let_def split: if_splits)
    then show ?thesis
      using 1(1) [OF False refl r [symmetric] a(1, 2) a(3)] by simp
  qed (use 1 in \<open>simp add: pin_list.simps\<close>)
qed

text \<open>
  C0.  The order of the pin lists.  When the list of the P5 header comes first on the command line, the list of the P1 header is not
  read at all: any other P1 list gives the same daemon, and no pin of P1 is mapped to a servo.
\<close>

theorem servod_p5_first:
  assumes "configure cpuinfo [O_p5pins p5, O_p1pins p1] (boot regs lv) = Inr st"
  shows "configure cpuinfo [O_p5pins p5, O_p1pins p1'] (boot regs lv) = Inr st \<and> (\<forall>x \<in> set (p1pin2servo st). x = DMY)"
proof -
  let ?o = "\<lambda>p1. default_options\<lparr>p5pins := p5, hadp5 := True, p1pins := p1, hadp1 := True, p1first := False\<rparr>"
  have opts: "parse_options [O_p5pins p5, O_p1pins x] default_options = Inr (?o x)" for x
    by (simp add: default_options_def)
  have same: "set_times (?o p1') = set_times (?o p1)" "set_widths (?o p1') = set_widths (?o p1)"
      "parse_pin_lists revision False p1' p5 = parse_pin_lists revision False p1 p5" for revision
    by (simp_all add: set_times_def set_widths_def parse_pin_lists_def fun_eq_iff)
  have "configure cpuinfo [O_p5pins p5, O_p1pins p1'] (boot regs lv) = configure cpuinfo [O_p5pins p5, O_p1pins p1] (boot regs lv)"
    unfolding configure_def opts and_then_simps by (simp add: same cong: if_cong)
  moreover obtain revision st1 st2 where c: "parse_pin_lists revision False p1 p5 ((boot regs lv)\<lparr>delay_via_pcm := False, inverted := False\<rparr>) = Inr st1"
      "set_times (?o p1) st1 = Inr st2" "set_widths (?o p1) st2 = Inr st"
    using assms unfolding configure_def opts and_then_simps and_then_Inr
    by (auto simp: and_then_Inr default_options_def split: if_splits)
  moreover have "p1pin2servo st1 = replicate 27 DMY"
    using c(1) pin_list_p5_only by (fastforce simp: parse_pin_lists_def Let_def and_then_Inr)
  moreover have "p1pin2servo st = p1pin2servo st1"
    using set_times_ok [OF c(2)] set_widths_ok [OF _ c(3)] by auto
  ultimately show ?thesis
    using assms by simp
qed

lemma p5_first_example:
  "\<exists>st. configure rev2_cpuinfo [O_p5pins ''3'', O_p1pins ''7''] (boot (\<lambda>_ _. 0) 0) = Inr st \<and> num_servos st = 2"
proof -
  let ?st = "(boot (\<lambda>_ _. 0) 0)\<lparr>delay_via_pcm := False, inverted := False, servo2gpio := replicate 32 DMY,
    p1pin2servo := replicate 27 DMY, p5pin2servo := replicate 9 DMY\<rparr>"
  have n: "host_strtol 0 ''3'' = (3, [])"
    by code_simp
  have pins: "\<exists>st. pin_list 2 False ''3'' (k, s) = Inr (k + 1, st) \<and> num_servos st = num_servos s + 1" if "k < 32" for k s
    using that by (simp add: pin_list.simps n assign_pin_def pin_map_def rev2_p5pin2gpio_map_def Let_def)
  obtain st1 where st1: "pin_list 2 False ''3'' (0, ?st) = Inr (1, st1)" "num_servos st1 = 1"
    using pins [of 0 ?st] by (auto simp: boot_def)
  obtain st2 where st2: "pin_list 2 False ''3'' (1, st1) = Inr (2, st2)" "num_servos st2 = 2"
    using pins [of 1 st1] st1(2) by auto
  let ?o = "default_options\<lparr>p5pins := ''3'', hadp5 := True, p1pins := ''7'', hadp1 := True, p1first := False\<rparr>"
  have "parse_options [O_p5pins ''3'', O_p1pins ''7''] default_options = Inr ?o"
    by (simp add: default_options_def)
  moreover have "set_times ?o st = Inr (st\<lparr>dma_chan := 14, idle_timeout := 0, cycle_time_us := 20000, step_time_us := 10\<rparr>)" for st
    by (simp add: set_times_def default_options_def number_arg_def)
  moreover have "set_widths ?o st = Inr (st\<lparr>servo_min_ticks := 50, servo_max_ticks := 250, num_samples := 2000\<rparr>)"
    if "cycle_time_us st = 20000" "step_time_us st = 10" for st
    using that by (simp add: set_widths_def default_options_def min_max_arg_def num_pages_def)
  moreover have "parse_pin_lists 2 False ''7'' ''3'' ((boot (\<lambda>_ _. 0) 0)\<lparr>delay_via_pcm := False, inverted := False\<rparr>) = Inr st2"
    using st1(1) st2(1) by (simp add: parse_pin_lists_def)
  ultimately show ?thesis
    using st2(2) by (simp add: configure_def rev2_board default_options_def)
qed

theorem servod_p5_first_witness:
  "\<exists>st. configure rev2_cpuinfo [O_p5pins ''3'', O_p1pins ''7''] (boot (\<lambda>_ _. 0) 0) = Inr st \<and> num_servos st = 2 \<and>
    configure rev2_cpuinfo [O_p5pins ''3'', O_p1pins []] (boot (\<lambda>_ _. 0) 0) = Inr st \<and> set (p1pin2servo st) \<subseteq> {DMY}"
proof -
  obtain st where st: "configure rev2_cpuinfo [O_p5pins ''3'', O_p1pins ''7''] (boot (\<lambda>_ _. 0) 0) = Inr st" "num_servos st = 2"
    using p5_first_example by blast
  then show ?thesis
    using servod_p5_first [OF st(1), of "[]"] by auto
qed

text \<open>
  C0.  A width of 64 characters or more.  The line is short enough for the line buffer, and writes past the array for
  the width, in every state at the beginning of a line.
\<close>

theorem servod_width_overflow:
  assumes "64 \<le> k" "k \<le> 120" "cmd_line st = []"
  shows "read_chars (map (Pair now) (''0='' @ replicate k (CHR ''1'') @ nl)) st = Inl BufferOverflow"
proof -
  let ?w = "replicate k (CHR ''1'')"
  let ?line = "''0='' @ ?w @ nl"
  have "scan_int ?line = Some (0, ''='' @ ?w @ nl)"
    by (simp add: scan_int_def Let_def is_space_def is_digit_def digit_val_def clamp32_def)
  moreover have "takeWhile (\<lambda>c. \<not> is_space c) (?w @ nl) = ?w"
    by (subst takeWhile_append2) (auto simp: is_space_def nl_def)
  then have "scan_word (?w @ nl) = Some ?w"
    using assms(1) by (cases k) (simp_all add: scan_word_def is_space_def)
  ultimately have "sscanf_servo ?line = Some (0, ?w)"
    by (simp add: sscanf_servo_def scan_lit_def)
  moreover have "takeWhile (\<lambda>c. c \<noteq> NUL) ?line = ?line"
    by (auto simp: takeWhile_eq_all_conv NUL_def nl_def)
  ultimately have "parse_command ?line st = Inl BufferOverflow"
    unfolding parse_command_def using assms(1) by (simp only: Let_def) simp
  then show ?thesis
    using read_line [of "''0='' @ ?w" st now] assms by simp
qed

theorem servod_width_overflow_witness:
  "read_chars (map (Pair (0, 0)) (''0='' @ replicate 64 (CHR ''1'') @ nl)) (script_state 2000 (\<lambda>_ _. 0) 0) = Inl BufferOverflow"
  by (rule servod_width_overflow) simp_all

text \<open>The modes of the pins of a running daemon: saved for its own pins, untouched for the others.\<close>

lemma running_modes:
  assumes "servod_running b regs st" "b \<le> 0"
  shows "restore_gpio_modes st" "distinct_pins st" "length (servo2gpio st) = MAX_SERVOS"
    "mapped st i \<Longrightarrow> gpiomode st ! i = gpio_get_mode (servo_gpio st i) (boot regs 0)"
    "(\<And>i. mapped st i \<Longrightarrow> g \<noteq> servo_gpio st i) \<Longrightarrow> gpio_get_mode g st = gpio_get_mode g (boot regs 0)"
proof -
  obtain cpuinfo args lv st0 rounds where r: "servod_start cpuinfo args b regs lv = Inr st0" "usable_pins st0" "go_go_go_rounds rounds st0 = Inr st"
    using assms(1) by (auto simp: servod_running_def)
  obtain c where c: "configured regs c" "st0 = start_outputs b c" "distinct_pins c" "servod_inv b st0"
    using start_round_pins [OF r(1, 2) assms(2)] by blast
  have same: "same_setup st0 st"
    using go_go_go_rounds_inv [OF c(4) r(3)] by blast
  let ?c = "c\<lparr>servo_kill_time := replicate MAX_SERVOS (0, 0)\<rparr>"
  let ?st1 = "fold gpio_setup [0..<MAX_SERVOS] ?c"
  have len: "length (servostart c) = 32" "length (gpiomode c) = 32" "length (servo2gpio c) = 32" "io_regs c = regs"
    using c(1) by (auto simp: configured_def pins_ok_def)
  note f = start_frame [OF len(1), of b]
  have st: "servo2gpio st = servo2gpio c" "gpiomode st = gpiomode ?st1" "io_regs st GPIO = io_regs ?st1 GPIO" "restore_gpio_modes st"
    using same f c(2) by (simp_all add: same_setup_def same_tables_def)
  have maps: "mapped st i = mapped ?c i" "servo_gpio st i = servo_gpio ?c i" for i
    by (simp_all add: mapped_def servo_gpio_def st)
  have boot_mode: "gpio_get_mode g ?c = gpio_get_mode g (boot regs 0)" for g
    by (rule get_mode_regs) (simp add: len boot_def)
  have setups: "\<forall>i<MAX_SERVOS. mapped ?c i \<longrightarrow> gpiomode ?st1 ! i = gpio_get_mode (servo_gpio ?c i) ?c"
      "\<forall>g. (\<forall>i<MAX_SERVOS. mapped ?c i \<longrightarrow> g \<noteq> servo_gpio ?c i) \<longrightarrow> gpio_get_mode g ?st1 = gpio_get_mode g ?c"
    using gpio_setups [of ?c MAX_SERVOS] c(3) len by (simp_all add: distinct_pins_def)
  show "restore_gpio_modes st" "length (servo2gpio st) = MAX_SERVOS"
    using st len by simp_all
  show "distinct_pins st"
    using c(3) by (simp add: distinct_pins_def st)
  show "gpiomode st ! i = gpio_get_mode (servo_gpio st i) (boot regs 0)" if "mapped st i"
    using setups(1) that unfolding maps st(2) boot_mode [symmetric] by (simp add: mapped_def)
  show "gpio_get_mode g st = gpio_get_mode g (boot regs 0)" if "\<And>i. mapped st i \<Longrightarrow> g \<noteq> servo_gpio st i"
    using setups(2) that get_mode_regs [OF st(3), of g] unfolding maps boot_mode [symmetric] by simp
qed

definition restore_mode :: "nat \<Rightarrow> servod \<Rightarrow> servod" where
  "restore_mode i s = (if servo2gpio s ! i \<noteq> DMY then gpio_set_mode (unat (servo2gpio s ! i)) (gpiomode s ! i) s else s)"

lemma restore_modes:
  assumes "distinct_pins st" "length (servo2gpio st) = MAX_SERVOS" "k \<le> MAX_SERVOS"
    "\<forall>i. mapped st i \<longrightarrow> gpiomode st ! i AND 7 = gpiomode st ! i"
  shows "servo2gpio (fold restore_mode [0..<k] st) = servo2gpio st \<and> gpiomode (fold restore_mode [0..<k] st) = gpiomode st \<and>
    (\<forall>i<k. mapped st i \<longrightarrow> gpio_get_mode (servo_gpio st i) (fold restore_mode [0..<k] st) = gpiomode st ! i) \<and>
    (\<forall>g. (\<forall>i<k. mapped st i \<longrightarrow> g \<noteq> servo_gpio st i) \<longrightarrow> gpio_get_mode g (fold restore_mode [0..<k] st) = gpio_get_mode g st)"
  using assms(3)
proof (induction k)
  case (Suc k)
  let ?s = "fold restore_mode [0..<k] st"
  have IH: "servo2gpio ?s = servo2gpio st" "gpiomode ?s = gpiomode st"
      "\<And>i. i < k \<Longrightarrow> mapped st i \<Longrightarrow> gpio_get_mode (servo_gpio st i) ?s = gpiomode st ! i"
      "\<And>g. (\<forall>i<k. mapped st i \<longrightarrow> g \<noteq> servo_gpio st i) \<Longrightarrow> gpio_get_mode g ?s = gpio_get_mode g st"
    using Suc by simp_all
  have s: "fold restore_mode [0..<Suc k] st = restore_mode k ?s"
    by simp
  show ?case
  proof (cases "mapped st k")
    case True
    then have r: "restore_mode k ?s = gpio_set_mode (servo_gpio st k) (gpiomode st ! k) ?s"
      by (simp add: restore_mode_def IH servo_gpio_def mapped_def)
    have mode: "gpiomode st ! k AND 7 = gpiomode st ! k"
      using assms(4) True by simp
    have fields: "servo2gpio (restore_mode k ?s) = servo2gpio st" "gpiomode (restore_mode k ?s) = gpiomode st"
      using IH by (simp_all add: r gpio_set_mode_def io_write_def Let_def)
    have "servo_gpio st i \<noteq> servo_gpio st k" if "i < k" "mapped st i" for i
      using distinct_pins_gpio [OF assms(1, 2) that(2) True] that(1) by blast
    then show ?thesis
      unfolding s fields unfolding r get_set_mode [OF mode] using IH(3, 4) True by (auto simp: less_Suc_eq)
  next
    case False
    then have "restore_mode k ?s = ?s"
      using Suc.prems by (simp add: restore_mode_def IH mapped_def)
    then show ?thesis
      unfolding s using IH False by (auto simp: less_Suc_eq)
  qed
qed simp

lemma set_servos_setup: "same_setup st (fold (\<lambda>i s. if servo2gpio s ! i \<noteq> DMY then set_servo now i 0 s else s) is st)"
proof (induction "is" arbitrary: st)
  case (Cons i "is")
  let ?s = "if servo2gpio st ! i \<noteq> DMY then set_servo now i 0 st else st"
  have "same_setup st ?s"
    by (simp add: set_servo_setup)
  then show ?case
    using Cons.IH [of ?s] same_setup_trans by (simp only: fold_Cons o_apply)
qed simp

text \<open>
  C0.  The modes of the pins.  When a running daemon terminates, every pin of the GPIO registers has the mode it had
  before the daemon started, whatever was done in between.
\<close>

theorem servod_restores_modes:
  assumes "servod_running b regs st" "b \<le> 0"
  shows "gpio_get_mode g (terminate_servod now st) = gpio_get_mode g (boot regs 0)"
proof -
  note m = running_modes [OF assms]
  define st1 where "st1 = fold (\<lambda>i s. if servo2gpio s ! i \<noteq> DMY then set_servo now i 0 s else s) [0..<MAX_SERVOS] st"
  define st2 where "st2 = io_write DMA 0 (push_bit 31 1) st1"
  have same: "same_setup st st1"
    unfolding st1_def by (rule set_servos_setup)
  then have fields: "servo2gpio st2 = servo2gpio st" "gpiomode st2 = gpiomode st" "restore_gpio_modes st2" "io_regs st2 GPIO = io_regs st GPIO"
    using m(1) by (simp_all add: st2_def io_write_def same_setup_def same_tables_def)
  have maps: "mapped st2 i = mapped st i" "servo_gpio st2 i = servo_gpio st i" for i
    by (simp_all add: mapped_def servo_gpio_def fields)
  have mode7: "\<forall>i. mapped st2 i \<longrightarrow> gpiomode st2 ! i AND 7 = gpiomode st2 ! i"
    using m(4) get_mode_small by (simp add: maps fields)
  have t: "terminate_servod now st = fold restore_mode [0..<MAX_SERVOS] st2"
    unfolding terminate_servod_def Let_def st1_def [symmetric] st2_def [symmetric] restore_mode_def [abs_def] using fields(3) by simp
  note r = restore_modes [of st2 MAX_SERVOS, OF _ _ order_refl mode7]
  show ?thesis
  proof (cases "\<exists>i. mapped st i \<and> g = servo_gpio st i")
    case True
    then obtain i where i: "mapped st i" "g = servo_gpio st i"
      by blast
    then show ?thesis
      using r m(2-4) by (simp add: t maps fields distinct_pins_def) (simp add: mapped_def)
  next
    case False
    then show ?thesis
      using r m(2, 3) m(5) [of g] get_mode_regs [OF fields(4), of g] by (simp add: t maps fields distinct_pins_def)
  qed
qed

theorem servod_restores_modes_witness: "gpio_get_mode 24 (terminate_servod (1001, 0) (script_set 1 100)) = gpio_get_mode 24 (boot (\<lambda>_ _. 0) 0)"
  by (rule servod_restores_modes [OF script_set_running]) simp_all

section \<open>The shared memory\<close>

lemma ctrl_blocks_count:
  assumes "layout_ok b st" "pointer st i p"
  shows "length (ctrl_blocks b st p k [i..<num_samples st]) + count_mapped st p \<le> 2 * (num_samples st - i) + count_mapped st MAX_SERVOS"
  using assms(2)
proof (induction "num_samples st - i" arbitrary: i p k)
  case 0
  then have "p \<le> MAX_SERVOS"
    by (auto simp: pointer_def mapped_def)
  then show ?case
    using 0 count_mapped_mono [of p MAX_SERVOS st] by simp
next
  case (Suc m)
  let ?st = "int i = start_of b st p" and ?q = "next_mapped (servo2gpio st) (p + 1)"
  have i: "[i..<num_samples st] = i # [Suc i..<num_samples st]"
    using Suc.hyps(2) by (simp add: upt_conv_Cons)
  have p: "mapped st p" if "?st"
    using that Suc.prems assms(1) by (auto simp: pointer_def start_of_def layout_ok_def mapped_def split: if_splits)
  have next_p: "pointer st (Suc i) (if ?st then ?q else p)"
    using pointer_step(1) [OF assms(1) Suc.prems] .
  show ?case
  proof (cases ?st)
    case True
    have "count_mapped st (p + 1) = count_mapped st p + 1"
      using p [OF True] by (simp add: count_mapped_Suc mapped_def)
    then have "count_mapped st p + 1 \<le> count_mapped st ?q"
      using count_mapped_mono [OF next_mapped_ge [of "p + 1" "servo2gpio st"], of st] by simp
    moreover have m: "m = num_samples st - Suc i"
      using Suc.hyps(2) by simp
    moreover have "pointer st (Suc i) ?q"
      using next_p True by simp
    ultimately show ?thesis
      using Suc.hyps(1) [OF m, of ?q "k + 3"] Suc.hyps(2) True by (simp add: i start_of_def [symmetric])
  next
    case False
    moreover have m: "m = num_samples st - Suc i"
      using Suc.hyps(2) by simp
    moreover have "pointer st (Suc i) p"
      using next_p False by simp
    ultimately show ?thesis
      using Suc.hyps(1) [OF m, of p "k + 2"] Suc.hyps(2) False by (simp add: i start_of_def [symmetric])
  qed
qed

lemma num_pages_enough: "68 * n + 1152 \<le> 4096 * num_pages n"
proof -
  have "x + 4095 = 4096 * ((x + 4095) div 4096) + (x + 4095) mod 4096" "(x + 4095) mod 4096 < 4096" for x :: nat
    by simp_all
  from this [of "68 * n + 1152"] show ?thesis
    by (simp add: num_pages_def algebra_simps)
qed

text \<open>
  C0.  The memory of the DMA controller.  With fewer than 32 servos (the headers have 21 usable pins), the two masks and the
  control blocks of a running daemon lie one after the other within the pages that it has mapped.
\<close>

theorem servod_memory_fits:
  assumes "servod_running b regs st" "b \<le> 0" "count_mapped st MAX_SERVOS < MAX_SERVOS"
  shows "turnon_at MAX_SERVOS st \<le> cb_at 0 st \<and> cb_at (length (control_blocks st)) st \<le> 4096 * num_pages (num_samples st)"
proof -
  have layout: "layout_ok b st"
    using running_inv [OF assms(1, 2)] by (simp add: servod_inv_def)
  let ?n = "num_samples st"
  have "length (control_blocks st) = length (ctrl_blocks b st (next_mapped (servo2gpio st) 0) 0 [0..<?n])"
    using layout by (simp add: layout_ok_def close_ring_def)
  then have "length (control_blocks st) \<le> 2 * ?n + 31"
    using ctrl_blocks_count [OF layout pointer_start [OF layout], of 0] assms(3) by simp
  moreover have "4 * ?n + 128 \<le> 32 * ((39 + ?n) div 8)" "32 * ((39 + ?n) div 8) \<le> 4 * ?n + 156"
    by presburger+
  ultimately show ?thesis
    using num_pages_enough [of ?n] by (simp add: cb_at_def turnon_at_def)
qed

theorem servod_memory_fits_witness:
  "cb_at (length (control_blocks (script_set 1 100))) (script_set 1 100) \<le> 4096 * num_pages (num_samples (script_set 1 100))"
proof -
  have "servo2gpio (script_set 1 100) = [24, 25] @ replicate 30 DMY"
    by (simp add: script_set_def)
  then have "count_mapped (script_set 1 100) MAX_SERVOS < MAX_SERVOS"
    by (simp add: count_mapped_def numeral_eq_Suc)
  then show ?thesis
    using servod_memory_fits [OF script_set_running [of 1 100]] by simp
qed

section \<open>The names of the pins\<close>

lemma pin_names:
  "list_all (\<lambda>k. pin_map 1 True ! k = DMY \<or> gpio2pinname 1 (pin_map 1 True ! k) = Inr (''P1-'' @ show_nat (k + 1))) [0..<26]"
  "list_all (\<lambda>k. pin_map 2 True ! k = DMY \<or> gpio2pinname 2 (pin_map 2 True ! k) = Inr (''P1-'' @ show_nat (k + 1))) [0..<26]"
  "list_all (\<lambda>k. pin_map 1 False ! k = DMY \<or> gpio2pinname 1 (pin_map 1 False ! k) = Inr (''P5-'' @ show_nat (k + 1))) [0..<8]"
  "list_all (\<lambda>k. pin_map 2 False ! k = DMY \<or> gpio2pinname 2 (pin_map 2 False ! k) = Inr (''P5-'' @ show_nat (k + 1))) [0..<8]"
  by code_simp+

text \<open>
  C0.  Pin names.  On both board revisions the name that is printed for the GPIO number of a usable pin of a header is that
  header and pin.
\<close>

theorem gpio2pinname_pin:
  assumes "revision \<in> {1, 2}" "1 \<le> pin" "pin \<le> length (pin_map revision p1)" "pin_map revision p1 ! (pin - 1) \<noteq> DMY"
  shows "gpio2pinname revision (pin_map revision p1 ! (pin - 1)) = Inr (header_name p1 @ ''-'' @ show_nat pin)"
proof -
  have "pin - 1 \<in> set [0..<length (pin_map revision p1)]"
    using assms(2, 3) by auto
  moreover have "pin - 1 + 1 = pin"
    using assms(2) by simp
  ultimately show ?thesis
    using pin_names assms(1, 4) by (cases p1) (auto simp: list_all_iff header_name_def)
qed

theorem gpio2pinname_pin_witness: "gpio2pinname 2 (pin_map 2 True ! 21) = Inr (''P1-'' @ show_nat 22)"
  using gpio2pinname_pin [of 2 22 True] by (simp add: pin_map_def rev2_p1pin2gpio_map_def header_name_def)

end
