(* ===== verification/Spec2Isabelle.thy ===== *)
theory Spec2Isabelle
  imports Sensors Compass Servo_Driver Host_Interface Gaze_Control Funk_Heap Funk_Services Display_Daemon Servo_Daemon
begin

text \<open>
  A verification development of the myCub robot: the firmware of its controller board, the programs of
  its Raspberry Pi, and the FunkOS kernel of an earlier board.  Paths are under \<^verbatim>\<open>src/\<close>.

  \<^bold>\<open>The parts and how they interact.\<close>  A host program (\<^verbatim>\<open>main/components/myCubInterface/main.cpp\<close>) offers the
  robot's methods to others and writes command lines to a serial port.  On the board, the shell
  (\<^verbatim>\<open>firmware/apps/system/myCub/myCub.cpp\<close>) reads the lines, splits them into words and calls the methods of
  \<^verbatim>\<open>MyCubInterface\<close> (\<^verbatim>\<open>mycub_interface.cpp\<close>); four controller threads carry out the motions, and the gait
  (\<^verbatim>\<open>mycub_walk.cpp\<close>) calls the same methods.  The controllers send positions to the servo device; the
  sensor methods use the range and the analog devices and the compass uses the I2C driver.  Each device is
  a character driver over a lower half (\<^verbatim>\<open>firmware/nuttx/configs/lm4f120-launchpad/src/\<close>) that programs the
  peripherals through the driver library of the processor.  On the Raspberry Pi, the gaze
  controller (\<^verbatim>\<open>main/components/gazeControl/main.cpp\<close>) moves the head, and the display daemon
  (\<^verbatim>\<open>main/components/displayDriver/\<close>) draws text and sends it to a small screen.  FunkOS
  (\<^verbatim>\<open>firmware/funkos/kernel/\<close>) is a preemptive kernel with its own scheduler.

  \<^bold>\<open>The theories.\<close>
  \<^item> \<^verbatim>\<open>MyCub_Prelude\<close>: C integers and strings, the counting semaphore of the operating system, shared lemmas.
  \<^item> \<^verbatim>\<open>Lm4f_Board\<close>: the register memory and the library routines of \<^verbatim>\<open>board_driver/*.c\<close> the drivers call.
  \<^item> \<^verbatim>\<open>Char_Device\<close>: the interface of a reference-counted device as the locale \<^verbatim>\<open>refcounted\<close>, which refines a
    saturating counter; interpreted by the three drivers.
  \<^item> \<^verbatim>\<open>Servo_Driver\<close>, \<^verbatim>\<open>Range_Driver\<close>, \<^verbatim>\<open>Adc_Driver\<close>, \<^verbatim>\<open>I2c_Driver\<close>: \<^verbatim>\<open>up_servo.c\<close>, \<^verbatim>\<open>up_range_srf04.c\<close>, \<^verbatim>\<open>up_adc.c\<close>,
    \<^verbatim>\<open>up_i2c.c\<close> and their character drivers: the registers after each operation, the bytes and samples
    returned, the error paths, and that waiting for a pulse ends.
  \<^item> \<^verbatim>\<open>Compass\<close>: \<^verbatim>\<open>mycub_compass\<close>; the axes are those of the sensor, and the heading lies within a turn.
  \<^item> \<^verbatim>\<open>Joint_Control\<close>: \<^verbatim>\<open>mycub_interface.cpp\<close>, with the controllers and callers as a step relation whose steps are
    the sections between locks; every position sent is valid, and what starting and stopping do.
  \<^item> \<^verbatim>\<open>Sensors\<close>, \<^verbatim>\<open>Walk\<close>, \<^verbatim>\<open>Shell\<close>: the sensor methods, the gait and the command shell.
  \<^item> \<^verbatim>\<open>Host_Interface\<close>: the host program over the locales \<^verbatim>\<open>pose_board\<close> and \<^verbatim>\<open>motion_board\<close>, which state what the
    host relies on, interpreted by the shell and the joint controller behind the serial line.
  \<^item> \<^verbatim>\<open>Gaze_Control\<close>: inverse and forward kinematics and the motion of the head.
  \<^item> \<^verbatim>\<open>Lcd_Font\<close>, \<^verbatim>\<open>Lcd\<close>: the tables and the driver of the display.
  \<^item> \<^verbatim>\<open>Funk_Heap\<close>, \<^verbatim>\<open>Funk_Task\<close>, \<^verbatim>\<open>Funk_Port\<close>, \<^verbatim>\<open>Funk_Sync\<close>, \<^verbatim>\<open>Funk_Services\<close>: the FunkOS heap, scheduler, context switch,
    semaphores and mutexes (over the locale \<^verbatim>\<open>wait_list\<close>), messages, timers and watchdog.
  \<^item> this theory: the joint controller over the servo driver.

  \<^bold>\<open>State and operations.\<close>  A struct or class is a record with the fields of the source; an operation is a
  function that returns the updated state with the C result, and a call that can block is cut where it
  blocks.  What the code reads from hardware or from another program (pin levels, timer values, bytes
  of a bus, replies) is an argument of the operation, a list of the values in the order they are read.
  Registers and stacks are memories of words; linked structures live in a store indexed by address,
  with 0 for NULL.  Integers keep their width where they can wrap.  The \<^verbatim>\<open>double\<close> computations of the
  gaze controller and the compass are over the reals, with \<^verbatim>\<open>atan2\<close> as a parameter; those of the battery
  methods are exact rationals.

  \<^bold>\<open>Loops.\<close>  No result rests on a chosen amount of fuel.  Loops over lists and bounded counters are structural; the loops of FunkOS
  over linked lists and the loops of the display with 8-bit counters are partial functions, whose
  value None means that the loop does not end (or follows NULL, or reads outside a table), and the
  properties state when they return.  Loops that wait for the environment run over the list of
  observations and report when it is used up.

  \<^bold>\<open>Not modelled.\<close>  The vendor library beyond the routines the drivers call; the NuttX operating system, which the
  robot's drivers plug into; the controller written in Ada (\<^verbatim>\<open>firmware/ADA\<close>), a separate program; FunkOS drivers, modules and
  example projects, and its driver interface; the programs that are calls of OpenCV, YARP or a speech engine; scripts and
  graphical interfaces; code generated for remote calls.  The manifest lists them with their reasons.
\<close>

section \<open>From the joint methods to the PWM registers\<close>

text \<open>
  The events of the joint control, carried out on the servo device: \<^verbatim>\<open>SetPos j p\<close> is the ioctl with the
  structure of joint \<^verbatim>\<open>j\<close> (\<^verbatim>\<open>servo_drv[j]\<close>, whose identifier is \<^verbatim>\<open>j\<close> and whose 16-bit position is set to
  \<^verbatim>\<open>p\<close>), the other events do not concern the device.  None when a call blocks or crashes.
\<close>

fun drive_servo :: "u32 \<Rightarrow> io_event list \<Rightarrow> servo_dev \<Rightarrow> servo_dev option" where
  "drive_servo clk [] d = Some d"
| "drive_servo clk (SetPos j p # es) d =
    (case servo_ioctl clk False SERVOIOC_SETPOS (servo_pose (of_nat j) (of_int p)) d of
       Done r (d', _) \<Rightarrow> drive_servo clk es d'
     | _ \<Rightarrow> None)"
| "drive_servo clk (_ # es) d = drive_servo clk es d"

text \<open>The last position that was sent to a joint.\<close>

fun last_pos :: "nat \<Rightarrow> io_event list \<Rightarrow> int option" where
  "last_pos j [] = None"
| "last_pos j (e # es) =
    (case last_pos j es of
       Some p \<Rightarrow> Some p
     | None \<Rightarrow> (case e of SetPos i p \<Rightarrow> if i = j then Some p else None | _ \<Rightarrow> None))"

definition joint_output :: "u32 \<Rightarrow> board \<Rightarrow> board \<Rightarrow> io_event list \<Rightarrow> nat \<Rightarrow> bool" where
  "joint_output clk b b' es j \<longleftrightarrow>
    (case last_pos j es of
       None \<Rightarrow> timer_match (regs b') (g_servo_timers ! j) = timer_match (regs b) (g_servo_timers ! j)
             \<and> timer_on (regs b') (g_servo_timers ! j) = timer_on (regs b) (g_servo_timers ! j)
     | Some p \<Rightarrow> timer_match (regs b') (g_servo_timers ! j) = unat clk div 50 * (544 + 10 * nat p) div 20000
             \<and> timer_on (regs b') (g_servo_timers ! j))"

lemma servo_pose_args:
  assumes "j < 4" "0 \<le> p" "p \<le> 160"
  shows "unat (servo_id (servo_pose (of_nat j) (of_int p))) = j"
    "unat (servo_pos (servo_pose (of_nat j) (of_int p))) = nat p"
proof -
  show "unat (servo_id (servo_pose (of_nat j) (of_int p))) = j"
    using assms by (simp add: servo_pose_def unat_of_nat)
  have "take_bit 16 p = p"
    using assms by (simp add: take_bit_int_eq_self)
  then show "unat (servo_pos (servo_pose (of_nat j) (of_int p))) = nat p"
    by (simp add: servo_pose_def unsigned_of_int)
qed

text \<open>One request: the device stays free and the pulse is the unclamped one.\<close>

lemma servo_request:
  assumes "servo_exclsem u = 1" "servo_ready clk b" "clk \<le> 80000000" "j < 4" "8 \<le> p" "p \<le> 160"
  shows "\<exists>u' b'. servo_ioctl clk False SERVOIOC_SETPOS (servo_pose (of_nat j) (of_int p)) (u, b) =
      Done 0 ((u', b'), servo_pose (of_nat j) (of_int p))
    \<and> servo_exclsem u' = 1 \<and> servo_ready clk b' \<and> irq_off b' = irq_off b \<and> lockcount b' = lockcount b
    \<and> (\<forall>i<4. joint_output clk b b' [SetPos j p] i)"
proof -
  let ?info = "servo_pose (of_nat j) (of_int p)"
  have args: "unat (servo_id ?info) = j" "unat (servo_pos ?info) = nat p"
    using assms by (simp_all add: servo_pose_args)
  have pulse: "min 2400 (544 + 10 * nat p) = 544 + 10 * nat p"
    using assms by simp
  obtain b' where b': "up_servo_setpos clk ?info b = (0, b')" "irq_off b' = irq_off b" "lockcount b' = lockcount b"
      "servo_ready clk b'" "timer_on (regs b') (g_servo_timers ! j)"
      "timer_match (regs b') (g_servo_timers ! j) = timer_period (regs b') (g_servo_timers ! j) * (544 + 10 * nat p) div 20000"
      "\<forall>i<4. i \<noteq> j \<longrightarrow> timer_match (regs b') (g_servo_timers ! i) = timer_match (regs b) (g_servo_timers ! i)
          \<and> timer_on (regs b') (g_servo_timers ! i) = timer_on (regs b) (g_servo_timers ! i)"
    using servo_setpos_effect [of ?info clk b] assms(2-4) unfolding args pulse by blast
  have "timer_period (regs b') (g_servo_timers ! j) = unat clk div 50"
    using b'(4) assms(4) by (simp add: servo_ready_def)
  then have "\<forall>i<4. joint_output clk b b' [SetPos j p] i"
    using b'(5-7) by (simp add: joint_output_def)
  then show ?thesis
    using assms(1) b'(1-4) by (intro exI [of _ "u\<lparr>servo_info := ?info\<rparr>"] exI [of _ b'])
      (simp add: servo_ioctl_def Let_def)
qed

lemma last_pos_sent: "last_pos j es = Some p \<Longrightarrow> SetPos j p \<in> set es"
  by (induction es) (auto split: option.splits io_event.splits if_splits)

lemma joint_output_trans:
  "joint_output clk b b1 [e] j \<Longrightarrow> joint_output clk b1 b2 es j \<Longrightarrow> joint_output clk b b2 (e # es) j"
  by (auto simp: joint_output_def split: option.splits io_event.splits if_splits)

lemma drive_servo_outputs:
  assumes "servo_exclsem u = 1" "servo_ready clk b" "clk \<le> 80000000"
    "\<forall>j p. SetPos j p \<in> set es \<longrightarrow> j < 4 \<and> 8 \<le> p \<and> p \<le> 160"
  shows "\<exists>u' b'. drive_servo clk es (u, b) = Some (u', b') \<and> servo_exclsem u' = 1 \<and> servo_ready clk b'
    \<and> irq_off b' = irq_off b \<and> lockcount b' = lockcount b \<and> (\<forall>j<4. joint_output clk b b' es j)"
  using assms
proof (induction es arbitrary: u b)
  case Nil
  then show ?case
    by (simp add: joint_output_def)
next
  case (Cons e es)
  have rest: "\<forall>j p. SetPos j p \<in> set es \<longrightarrow> j < 4 \<and> 8 \<le> p \<and> p \<le> 160"
    using Cons.prems(4) by simp
  show ?case
  proof (cases "\<exists>j p. e = SetPos j p")
    case True
    then obtain j p where e: "e = SetPos j p"
      by blast
    with Cons.prems obtain u1 b1 where s1: "servo_ioctl clk False SERVOIOC_SETPOS (servo_pose (of_nat j) (of_int p)) (u, b) =
        Done 0 ((u1, b1), servo_pose (of_nat j) (of_int p))"
        "servo_exclsem u1 = 1" "servo_ready clk b1" "irq_off b1 = irq_off b" "lockcount b1 = lockcount b"
        "\<forall>i<4. joint_output clk b b1 [e] i"
      using servo_request [of u clk b j p] by auto
    obtain u2 b2 where "drive_servo clk es (u1, b1) = Some (u2, b2)" "servo_exclsem u2 = 1" "servo_ready clk b2"
        "irq_off b2 = irq_off b1" "lockcount b2 = lockcount b1" "\<forall>j<4. joint_output clk b1 b2 es j"
      using Cons.IH [OF s1(2,3) Cons.prems(3) rest] by blast
    then show ?thesis
      using s1 joint_output_trans by (auto simp: e)
  next
    case False
    then have "drive_servo clk (e # es) (u, b) = drive_servo clk es (u, b)"
        "joint_output clk b b' (e # es) j = joint_output clk b b' es j" for b' j
      by (cases e; simp add: joint_output_def split: option.splits)+
    then show ?thesis
      using Cons.IH [OF Cons.prems(1-3) rest] by simp
  qed
qed

section \<open>The battery, from the firmware to the display\<close>

text \<open>The periodic calls of the robot interface.\<close>

fun host_updates :: "nat \<Rightarrow> 'w serial \<Rightarrow> 'w host \<Rightarrow> 'w host option" where
  "host_updates 0 ser h = Some h"
| "host_updates (Suc k) ser h =
    (case host_updates k ser h of None \<Rightarrow> None | Some h1 \<Rightarrow> map_option snd (host_updateModule ser h1))"

lemma host_updates_volts:
  fixes h :: "shell host"
  assumes "length (sh_mem (link h)) = 512" "\<not> serBusy h" "int32 (se_volt env)" "battery_volt h = 0" "battery_volt_count h = 0"
    and "k \<le> 12"
  shows "\<exists>w. host_updates k (board_link env) h = Some (h\<lparr>link := w,
      battery_volt := of_nat k * (of_int (se_volt env sdiv 1000) / 1000), battery_volt_count := int k\<rparr>) \<and> length (sh_mem w) = 512"
  using assms(6)
proof (induction k)
  case 0
  then show ?case
    using assms(1, 4, 5) by (intro exI [of _ "link h"]) simp
next
  case (Suc k)
  let ?u = "of_int (se_volt env sdiv 1000) / 1000 :: rat"
  obtain w where w: "host_updates k (board_link env) h = Some (h\<lparr>link := w, battery_volt := of_nat k * ?u, battery_volt_count := int k\<rparr>)"
      "length (sh_mem w) = 512"
    using Suc by auto
  obtain mem where "ask_int (board_link env) (''getBatteryVolt'' @ nl) w = (se_volt env sdiv 1000, w\<lparr>sh_mem := mem\<rparr>)" "length mem = 512"
    using board_battery [OF w(2) assms(3)] by blast
  with w(1) assms(2) Suc.prems show ?case
    by (intro exI [of _ "w\<lparr>sh_mem := mem\<rparr>"])
      (simp add: host_updateModule_def host_getBatteryVolt_def with_serial_def Let_def algebra_simps)
qed

lemma host_thirteenth_update:
  fixes h :: "shell host"
  assumes "length (sh_mem (link h)) = 512" "\<not> serBusy h" "battery_volt h = 0" "battery_volt_count h = 0" "display h = Some ls"
    and "0 \<le> se_volt env" "se_volt env < 1000000"
  shows "\<exists>h' n. host_updates 13 (board_link env) h = Some h' \<and> display h' = Some (ls @ [''%bat% '' @ show_int n @ nl]) \<and>
    int32 n \<and> percent n = percent \<lfloor>(of_int (se_volt env div 1000) / 1000 - 6) / (7.4 - 6) * 100 :: rat\<rfloor>"
proof -
  let ?u = "of_int (se_volt env sdiv 1000) / 1000 :: rat"
  have u: "se_volt env sdiv 1000 = se_volt env div 1000" "0 \<le> se_volt env div 1000" "se_volt env div 1000 < 1000"
    using assms(6, 7) by (auto simp: signed_divide_int_def sgn_if)
  have int: "int32 (se_volt env)"
    using assms(6, 7) by (simp add: int32_def)
  obtain w where w: "host_updates 12 (board_link env) h = Some (h\<lparr>link := w, battery_volt := 12 * ?u, battery_volt_count := 12\<rparr>)"
      "length (sh_mem w) = 512"
    using host_updates_volts [OF assms(1, 2) int assms(3, 4), of 12] by auto
  obtain mem where ask: "ask_int (board_link env) (''getBatteryVolt'' @ nl) w = (se_volt env sdiv 1000, w\<lparr>sh_mem := mem\<rparr>)"
    using board_battery [OF w(2) int] by blast
  define pct where "pct = ((12 * ?u + ?u) / 13 - 6) / (7.4 - 6) * 100"
  define n where "n = (if pct < 0 then \<lceil>pct\<rceil> else \<lfloor>pct\<rfloor>)"
  have p: "pct = (of_int (se_volt env div 1000) / 1000 - 6) / (7.4 - 6) * 100"
    by (simp add: pct_def u(1) field_simps)
  have "- 1000 \<le> pct" "pct \<le> 10000"
    using u(2, 3) unfolding p by (simp_all add: field_simps)
  then have "int32 n"
    unfolding int32_def n_def by (auto simp: le_ceiling_iff floor_le_iff ceiling_less_iff le_floor_iff)
  moreover have "percent n = percent \<lfloor>pct\<rfloor>"
    by (auto simp: n_def percent_def)
  moreover have "host_updates 13 (board_link env) h = map_option snd (host_updateModule (board_link env)
      (h\<lparr>link := w, battery_volt := 12 * ?u, battery_volt_count := 12\<rparr>))"
    using host_updates.simps(2) [of 12 "board_link env" h] w(1) by simp
  then have "host_updates 13 (board_link env) h = Some (h\<lparr>link := w\<lparr>sh_mem := mem\<rparr>,
      display := Some (ls @ [''%bat% '' @ show_int n @ nl]), battery_volt := 0, battery_volt_count := 0\<rparr>)"
    using ask assms(2, 5)
    by (simp add: host_updateModule_def host_getBatteryVolt_def with_serial_def Let_def n_def pct_def)
  ultimately show ?thesis
    unfolding p by auto
qed

section \<open>Properties\<close>





text \<open>
  C10.  The battery gauge of the assembled robot is always empty: the firmware prints volts where the interface
  expects millivolts, so after thirteen periodic steps, whatever the charge of the battery below 10 V, the report
  that the daemon reads is clamped to zero and the display shows the gauge of an empty battery.
\<close>

theorem battery_gauge_always_empty:
  fixes h :: "shell host"
  assumes "length (sh_mem (link h)) = 512" "\<not> serBusy h" "battery_volt h = 0" "battery_volt_count h = 0" "display h = Some ls"
    and "0 \<le> se_volt env" "se_volt env < 10000"
    and "fresh s0 l" "go_go_go es (dispd_start l) = Inr d" "ReadByte (CHR 0xFF) \<notin> set es" "input_line d = []"
  shows "\<exists>h' report d'. host_updates 13 (board_link env) h = Some h' \<and> display h' = Some (ls @ [report]) \<and>
    go_go_go (map ReadByte report) d = Inr d' \<and> shows_picture s0 d' (picture (linebuff d) 0 (battery_plugged d))"
proof -
  let ?pct = "(of_int (se_volt env div 1000) / 1000 - 6) / (7.4 - 6) * 100 :: rat"
  have "se_volt env div 1000 < 10"
    using assms(7) by simp
  then have "?pct < 0"
    by (simp add: field_simps)
  then have "percent \<lfloor>?pct\<rfloor> = 0"
    by (simp add: percent_def)
  then obtain h' n where "host_updates 13 (board_link env) h = Some h'" "display h' = Some (ls @ [''%bat% '' @ show_int n @ nl])"
      "int32 n" "percent n = 0"
    using host_thirteenth_update [OF assms(1-6)] assms(7) by auto
  with report_shown [OF reachable_state [OF assms(8-10)] _ assms(11), of n] show ?thesis
    by auto
qed

theorem battery_gauge_always_empty_witness:
  "\<exists>h' report d'. host_updates 13 (board_link (env_zero\<lparr>se_volt := 7400\<rparr>)) (host_ready\<lparr>display := Some []\<rparr>) = Some h' \<and>
    display h' = Some [report] \<and> go_go_go (map ReadByte report) (dispd_start lcd_off) = Inr d' \<and>
    shows_picture chip_off d' (picture [] 0 False)"
proof -
  have "fresh chip_off lcd_off"
    by (simp add: fresh_def chip_off_def lcd_off_def)
  moreover have "length (sh_mem (link host_ready)) = 512" "\<not> serBusy host_ready"
    using host_ready_board by (simp_all add: board_ready_def)
  ultimately show ?thesis
    using battery_gauge_always_empty [of "host_ready\<lparr>display := Some []\<rparr>" "[]" "env_zero\<lparr>se_volt := 7400\<rparr>" chip_off lcd_off "[]"
      "dispd_start lcd_off"]
    by (simp add: host_ready_def) (simp add: dispd_start_def)
qed

end
